(* ===== verification/IEEE_Single.thy ===== *)
theory IEEE_Single
  imports Complex_Main "HOL-Library.Word"
begin

text \<open>
  IEEE 754 binary floating point, as far as the program uses it: the C++ type \<open>float\<close>
  (binary32) with its operators, and the two binary64 operations that the packet code reaches by
  promotion. A number is NaN, an infinity, or a sign with an integer mantissa and a binary
  exponent. Every operator computes the exact rational result and rounds it once, to nearest,
  ties to even (\<open>round_frac\<close>). All definitions compute on integers.

  The lemmas do not carry error terms: \<open>rnd_of\<close> says that rounding never crosses a value the
  format can represent, so bounds by small integers pass through every operation unchanged.
\<close>

section \<open>Integer helpers\<close>

fun blen :: "int \<Rightarrow> int" where
  "blen n = (if n \<le> 0 then 0 else 1 + blen (n div 2))"

declare blen.simps [simp del]

fun pow2 :: "int \<Rightarrow> int" where
  "pow2 k = (if k \<le> 0 then 1 else 2 * pow2 (k - 1))"

declare pow2.simps [simp del]

lemma pow2_eq: "pow2 k = 2 ^ nat k"
proof (induction k rule: pow2.induct)
  case (1 k)
  show ?case
  proof (cases "k \<le> 0")
    case True
    then show ?thesis by (simp add: pow2.simps [of k])
  next
    case False
    then have "nat k = Suc (nat (k - 1))" by simp
    with False "1.IH" show ?thesis by (simp add: pow2.simps [of k])
  qed
qed

lemma pow2_pos [simp]: "0 < pow2 k"
  by (simp add: pow2_eq)

lemma pow2_nonneg [simp]: "0 \<le> pow2 k"
  using pow2_pos [of k] by linarith

lemma powi_pos [simp]: "(0::real) < 2 powi k" "\<not> (2::real) powi k < 0" "\<not> (2::real) powi k \<le> 0"
  by (simp_all add: not_less not_le)

lemma blen_bounds: "0 < n \<Longrightarrow> 2 ^ nat (blen n - 1) \<le> n \<and> n < 2 ^ nat (blen n) \<and> 1 \<le> blen n"
proof (induction n rule: blen.induct)
  case (1 n)
  show ?case
  proof (cases "n = 1")
    case True
    then show ?thesis by (simp add: blen.simps)
  next
    case False
    with "1.prems" have pos: "0 < n div 2" by linarith
    with "1.IH" "1.prems" have IH:
      "2 ^ nat (blen (n div 2) - 1) \<le> n div 2" "n div 2 < 2 ^ nat (blen (n div 2))"
      "1 \<le> blen (n div 2)"
      by simp_all
    have b: "blen n = 1 + blen (n div 2)" using "1.prems" by (simp add: blen.simps [of n])
    have e1: "nat (blen n - 1) = Suc (nat (blen (n div 2) - 1))" using b IH(3) by simp
    have e2: "nat (blen n) = Suc (nat (blen (n div 2)))" using b IH(3) by simp
    have "2 * 2 ^ nat (blen (n div 2) - 1) \<le> n" using IH(1) by linarith
    moreover have "n < 2 * 2 ^ nat (blen (n div 2))" using IH(2) by linarith
    ultimately show ?thesis using IH(3) b unfolding e1 e2 by simp
  qed
qed

text \<open>The quotient of two integers rounded to nearest, ties to even.\<close>

definition rne :: "int \<Rightarrow> int \<Rightarrow> int" where
  "rne n d = (let t = n div d; r = n mod d in
     if 2 * r < d \<or> (2 * r = d \<and> even t) then t else t + 1)"

lemma div_mod_split:
  assumes "0 < (d::int)"
  obtains t r where "n = t * d + r" "0 \<le> r" "r < d" "n div d = t" "n mod d = r"
  using assms by (metis div_mult_mod_eq pos_mod_bound pos_mod_sign)

lemma rne_le: "0 < d \<Longrightarrow> n \<le> z * d \<Longrightarrow> rne n d \<le> z"
proof -
  assume d: "0 < d" and n: "n \<le> z * d"
  from d obtain t r where s: "n = t * d + r" "0 \<le> r" "r < d" "n div d = t" "n mod d = r"
    by (rule div_mod_split)
  from n s d have "t * d \<le> z * d" by linarith
  with d have le: "t \<le> z" by simp
  show "rne n d \<le> z"
  proof (cases "t = z")
    case True
    then have "r = 0" using n s by simp
    then show ?thesis using True d s by (simp add: rne_def)
  next
    case False
    with le s show ?thesis by (simp add: rne_def Let_def)
  qed
qed

lemma rne_ge: "0 < d \<Longrightarrow> z * d \<le> n \<Longrightarrow> z \<le> rne n d"
proof -
  assume d: "0 < d" and n: "z * d \<le> n"
  then have "z \<le> n div d" by (metis nonzero_mult_div_cancel_right less_irrefl zdiv_mono1)
  then show ?thesis by (simp add: rne_def Let_def)
qed

lemma rne_half: "0 < d \<Longrightarrow> 2 * \<bar>rne n d * d - n\<bar> \<le> d"
proof -
  assume d: "0 < d"
  then obtain t r where s: "n = t * d + r" "0 \<le> r" "r < d" "n div d = t" "n mod d = r"
    by (rule div_mod_split)
  show ?thesis
  proof (cases "2 * r < d \<or> (2 * r = d \<and> even t)")
    case True
    with s have "rne n d = t" by (simp add: rne_def Let_def)
    with s True show ?thesis by auto
  next
    case False
    with s have "rne n d = t + 1" by (auto simp add: rne_def Let_def)
    moreover have "(t + 1) * d - n = d - r" using s by (simp add: distrib_right)
    ultimately show ?thesis using False s by auto
  qed
qed

section \<open>Formats, values and rounding\<close>

datatype flt = NaN | Inf bool | Fin bool int int

text \<open>A format: bits of the mantissa, and the least and greatest exponent of its last bit.\<close>

record fmt =
  prec :: int
  qmin :: int
  qmax :: int

definition single :: fmt where
  "single = \<lparr>prec = 24, qmin = -149, qmax = 104\<rparr>"

definition double :: fmt where
  "double = \<lparr>prec = 53, qmin = -1074, qmax = 971\<rparr>"

definition flog2 :: "int \<Rightarrow> int \<Rightarrow> int" where
  "flog2 a b = (let k = blen a - blen b in if pow2 k * b \<le> pow2 (- k) * a then k else k - 1)"

definition quantum :: "fmt \<Rightarrow> int \<Rightarrow> int \<Rightarrow> int" where
  "quantum F a b = max (qmin F) (flog2 a b - (prec F - 1))"

definition pack :: "fmt \<Rightarrow> bool \<Rightarrow> int \<Rightarrow> int \<Rightarrow> flt" where
  "pack F s m q = (if q > qmax F then Inf s else Fin s m q)"

text \<open>The number \<open>a / b\<close> with sign \<open>s\<close>, rounded to the format.\<close>

definition round_frac :: "fmt \<Rightarrow> bool \<Rightarrow> int \<Rightarrow> int \<Rightarrow> flt" where
  "round_frac F s a b =
    (if a = 0 then Fin s 0 (qmin F)
     else let q = quantum F a b; m = rne (a * pow2 (- q)) (b * pow2 q)
       in if m = pow2 (prec F) then pack F s (m div 2) (q + 1) else pack F s m q)"

primrec isfin :: "flt \<Rightarrow> bool" where
  "isfin NaN = False"
| "isfin (Inf s) = False"
| "isfin (Fin s m e) = (0 \<le> m)"

primrec fval :: "flt \<Rightarrow> real" where
  "fval NaN = 0"
| "fval (Inf s) = 0"
| "fval (Fin s m e) = (if s then - 1 else 1) * of_int m * 2 powi e"

text \<open>The values of the format, without its upper bound, and the rounding relation.\<close>

definition grid :: "fmt \<Rightarrow> real \<Rightarrow> bool" where
  "grid F x \<longleftrightarrow> (\<exists>k j. x = of_int k * 2 powi j \<and> \<bar>k\<bar> \<le> pow2 (prec F) \<and> qmin F \<le> j)"

definition rnd_of :: "fmt \<Rightarrow> real \<Rightarrow> real \<Rightarrow> bool" where
  "rnd_of F r v \<longleftrightarrow> (\<forall>N. grid F N \<longrightarrow> (r \<le> N \<longrightarrow> v \<le> N) \<and> (N \<le> r \<longrightarrow> N \<le> v))"

lemma rnd_of_le: "rnd_of F r v \<Longrightarrow> grid F N \<Longrightarrow> r \<le> N \<Longrightarrow> v \<le> N"
  by (simp add: rnd_of_def)

lemma rnd_of_ge: "rnd_of F r v \<Longrightarrow> grid F N \<Longrightarrow> N \<le> r \<Longrightarrow> N \<le> v"
  by (simp add: rnd_of_def)

lemma rnd_of_exact: "rnd_of F r v \<Longrightarrow> grid F r \<Longrightarrow> v = r"
  by (rule antisym) (auto intro: rnd_of_le rnd_of_ge)

lemma grid_uminus [simp]: "grid F (- x) = grid F x"
proof -
  have "grid F y \<Longrightarrow> grid F (- y)" for y
    unfolding grid_def by (metis abs_minus_cancel mult_minus_left of_int_minus)
  from this [of x] this [of "- x"] show ?thesis by auto
qed

lemma grid_0 [simp]: "grid F 0"
  unfolding grid_def by (intro exI [of _ "0::int"] exI [of _ "qmin F"]) simp

lemma rnd_of_uminus: "rnd_of F r v \<Longrightarrow> rnd_of F (- r) (- v)"
  unfolding rnd_of_def by (metis grid_uminus minus_le_iff le_minus_iff)

lemma pow2_powi: "0 \<le> k \<Longrightarrow> of_int (pow2 k) = (2::real) powi k"
  by (simp add: pow2_eq power_int_def)

lemma scale_powi: "of_int (pow2 k) / of_int (pow2 (- k)) = (2::real) powi k"
proof (cases "0 \<le> k")
  case True
  then show ?thesis by (simp add: pow2_powi pow2.simps [of "- k"])
next
  case False
  then have "of_int (pow2 (- k)) = (2::real) powi (- k)" by (simp add: pow2_powi)
  moreover have "(2::real) powi k = inverse (2 powi (- k))"
    using power_int_minus [of "2::real" "- k"] by simp
  ultimately show ?thesis using False by (simp add: pow2.simps [of k] inverse_eq_divide)
qed

lemma blen_powi:
  "0 < n \<Longrightarrow> (2::real) powi (blen n - 1) \<le> of_int n \<and> (of_int n :: real) < 2 powi (blen n)"
proof -
  assume n: "0 < n"
  from blen_bounds [OF n] have "of_int (2 ^ nat (blen n - 1)) \<le> (of_int n :: real)"
    "(of_int n :: real) < of_int (2 ^ nat (blen n))" "1 \<le> blen n"
    by (simp_all only: of_int_le_iff of_int_less_iff)
  then show ?thesis by (simp add: power_int_def del: of_int_less_iff of_int_le_iff
      of_int_power_less_of_int_cancel_iff of_int_less_of_int_power_cancel_iff)
qed

lemma powi_split: "(2::real) powi (i + j) = 2 powi i * 2 powi j"
  by (simp add: power_int_add)

lemma powi_le_iff: "((2::real) powi i \<le> 2 powi j) = (i \<le> j)"
proof (cases "i \<le> j")
  case True
  then show ?thesis by (simp add: power_int_increasing)
next
  case False
  then have "(2::real) powi j < 2 powi i" by (intro power_int_strict_increasing) simp_all
  with False show ?thesis by simp
qed

lemma flog2_bounds:
  assumes "0 < a" "0 < b"
  shows "2 powi (flog2 a b) \<le> (of_int a / of_int b :: real)"
    and "(of_int a / of_int b :: real) < 2 powi (flog2 a b + 1)"
proof -
  let ?k = "blen a - blen b" and ?x = "of_int a / of_int b :: real"
  note A = blen_powi [OF assms(1)] and B = blen_powi [OF assms(2)]
  have b0: "(0::real) < of_int b" using assms by simp
  have p: "(0::real) < 2 powi i" for i by simp
  have lo: "2 powi (?k - 1) \<le> ?x"
  proof -
    have "2 powi (?k - 1) * of_int b \<le> 2 powi (?k - 1) * (2::real) powi (blen b)"
      using B p by (intro mult_left_mono) auto
    also have "\<dots> = 2 powi (blen a - 1)" by (simp flip: powi_split)
    finally show ?thesis using A b0 by (simp add: pos_le_divide_eq)
  qed
  have hi: "?x < 2 powi (?k + 1)"
  proof -
    have "of_int a < (2::real) powi (blen a)" using A by simp
    also have "\<dots> = 2 powi (?k + 1) * 2 powi (blen b - 1)" by (simp flip: powi_split)
    also have "\<dots> \<le> 2 powi (?k + 1) * of_int b"
      using B p by (intro mult_left_mono) auto
    finally show ?thesis using b0 by (simp add: pos_divide_less_eq)
  qed
  have iff: "pow2 ?k * b \<le> pow2 (- ?k) * a \<longleftrightarrow> 2 powi ?k \<le> ?x"
  proof -
    have "pow2 ?k * b \<le> pow2 (- ?k) * a \<longleftrightarrow>
      (of_int (pow2 ?k * b) :: real) \<le> of_int (pow2 (- ?k) * a)" by (simp only: of_int_le_iff)
    also have "\<dots> \<longleftrightarrow> of_int (pow2 ?k) / of_int (pow2 (- ?k)) \<le> ?x"
      using b0 by (simp add: field_simps)
    finally show ?thesis by (simp only: scale_powi)
  qed
  show "2 powi (flog2 a b) \<le> ?x" "?x < 2 powi (flog2 a b + 1)"
    using lo hi iff by (auto simp add: flog2_def Let_def)
qed

lemma quotient_scaled:
  assumes "0 < b"
  shows "of_int (a * pow2 (- q)) / of_int (b * pow2 q) = (of_int a / of_int b) / (2::real) powi q"
proof -
  have "of_int (a * pow2 (- q)) / of_int (b * pow2 q) =
    (of_int a / of_int b) / (of_int (pow2 q) / of_int (pow2 (- q)) :: real)"
    by (simp add: field_simps)
  then show ?thesis by (simp only: scale_powi)
qed

lemma scaled_le_iff:
  assumes "0 < b"
  shows "(z * (b * pow2 q) \<le> a * pow2 (- q)) = (of_int z * 2 powi q \<le> (of_int a / of_int b :: real))"
    and "(a * pow2 (- q) \<le> z * (b * pow2 q)) = (of_int a / of_int b \<le> (of_int z * 2 powi q :: real))"
proof -
  let ?X = "a * pow2 (- q)" and ?Y = "b * pow2 q"
  have Y: "0 < ?Y" using assms by simp
  have Yr: "(0::real) < of_int ?Y" using Y by (simp only: of_int_0_less_iff)
  have q0: "(0::real) < 2 powi q" by simp
  have c: "u = u / v * v" if "0 < v" for u v :: real using that by simp
  have e: "(of_int ?X :: real) = of_int a / of_int b / 2 powi q * of_int ?Y"
    unfolding quotient_scaled [OF assms, of a q, symmetric]
    by (rule c [OF Yr])
  have "(z * ?Y \<le> ?X) = ((of_int (z * ?Y) :: real) \<le> of_int ?X)" by (simp only: of_int_le_iff)
  also have "\<dots> = (of_int z * of_int ?Y \<le> (of_int a / of_int b / 2 powi q * of_int ?Y :: real))"
    by (simp only: e of_int_mult [of z])
  also have "\<dots> = (of_int z \<le> (of_int a / of_int b / 2 powi q :: real))"
    using Yr by (simp only: mult_le_cancel_right_pos)
  also have "\<dots> = (of_int z * 2 powi q \<le> (of_int a / of_int b :: real))"
    using q0 by (simp only: pos_le_divide_eq)
  finally show "(z * ?Y \<le> ?X) = (of_int z * 2 powi q \<le> (of_int a / of_int b :: real))" .
  have "(?X \<le> z * ?Y) = ((of_int ?X :: real) \<le> of_int (z * ?Y))" by (simp only: of_int_le_iff)
  also have "\<dots> = ((of_int a / of_int b / 2 powi q * of_int ?Y :: real) \<le> of_int z * of_int ?Y)"
    by (simp only: e of_int_mult [of z])
  also have "\<dots> = ((of_int a / of_int b / 2 powi q :: real) \<le> of_int z)"
    using Yr by (simp only: mult_le_cancel_right_pos)
  also have "\<dots> = ((of_int a / of_int b :: real) \<le> of_int z * 2 powi q)"
    using q0 by (simp only: pos_divide_le_eq)
  finally show "(?X \<le> z * ?Y) = (of_int a / of_int b \<le> (of_int z * 2 powi q :: real))" .
qed

text \<open>A grid point that is not a multiple of the quantum lies at or below the power of two under
  the rounded number.\<close>

lemma grid_at_quantum:
  assumes "0 < a" "0 < b" "1 \<le> prec F" "grid F N"
  obtains z where "N = of_int z * 2 powi (quantum F a b)"
    | "N \<le> of_int (pow2 (prec F - 1)) * 2 powi (quantum F a b)"
      "of_int (pow2 (prec F - 1)) * 2 powi (quantum F a b) \<le> (of_int a / of_int b :: real)"
proof -
  let ?q = "quantum F a b"
  from assms(4) obtain k j where N: "N = of_int k * 2 powi j" "\<bar>k\<bar> \<le> pow2 (prec F)" "qmin F \<le> j"
    by (auto simp add: grid_def)
  show thesis
  proof (cases "?q \<le> j")
    case True
    have "N = of_int (k * pow2 (j - ?q)) * 2 powi ?q"
      using True by (simp add: N pow2_powi powi_split [symmetric])
    then show thesis by (rule that(1))
  next
    case False
    with N have q: "?q = flog2 a b - (prec F - 1)" by (simp add: quantum_def max_def split: if_splits)
    have "N \<le> of_int \<bar>k\<bar> * 2 powi j" by (simp add: N mult_right_mono)
    also have "\<dots> \<le> of_int (pow2 (prec F)) * 2 powi j"
      using N(2) by (intro mult_right_mono) (simp_all only: of_int_le_iff, simp)
    also have "\<dots> \<le> of_int (pow2 (prec F)) * 2 powi (?q - 1)"
      using False by (intro mult_left_mono power_int_increasing) (simp_all add: less_imp_le)
    also have "\<dots> = of_int (pow2 (prec F - 1)) * 2 powi ?q"
      using assms(3) by (simp add: pow2_powi powi_split [symmetric] algebra_simps)
    finally have 1: "N \<le> of_int (pow2 (prec F - 1)) * 2 powi ?q" .
    have "of_int (pow2 (prec F - 1)) * 2 powi ?q = (2::real) powi (flog2 a b)"
      using assms(3) q by (simp add: pow2_powi powi_split [symmetric])
    with flog2_bounds(1) [OF assms(1,2)]
    have "of_int (pow2 (prec F - 1)) * 2 powi ?q \<le> (of_int a / of_int b :: real)" by simp
    with 1 show thesis by (rule that(2))
  qed
qed

lemma rne_rnd_of:
  assumes "0 < a" "0 < b" "1 \<le> prec F"
  defines "q \<equiv> quantum F a b"
  defines "m \<equiv> rne (a * pow2 (- q)) (b * pow2 q)"
  shows "rnd_of F (of_int a / of_int b) (of_int m * 2 powi q)"
  unfolding rnd_of_def
proof (intro allI impI conjI)
  fix N assume g: "grid F N"
  have Y: "0 < b * pow2 q" using assms(2) by simp
  have q0: "(0::real) < 2 powi q" by simp
  note sc = scaled_le_iff [OF assms(2)]
  {
    assume le: "of_int a / of_int b \<le> N"
    show "of_int m * 2 powi q \<le> N"
    proof (rule grid_at_quantum [OF assms(1-3) g])
      fix z assume z: "N = of_int z * 2 powi (quantum F a b)"
      with le have "a * pow2 (- q) \<le> z * (b * pow2 q)" by (simp only: sc q_def)
      then have "m \<le> z" unfolding m_def by (rule rne_le [OF Y])
      then show ?thesis using q0 by (simp add: z q_def [symmetric])
    next
      assume "N \<le> of_int (pow2 (prec F - 1)) * 2 powi (quantum F a b)"
        and "of_int (pow2 (prec F - 1)) * 2 powi (quantum F a b) \<le> (of_int a / of_int b :: real)"
      with le have e: "N = of_int (pow2 (prec F - 1)) * 2 powi q" unfolding q_def by linarith
      with le have "a * pow2 (- q) \<le> pow2 (prec F - 1) * (b * pow2 q)" by (simp only: sc)
      then have "m \<le> pow2 (prec F - 1)" unfolding m_def by (rule rne_le [OF Y])
      then show ?thesis using q0 by (simp add: e)
    qed
  }
  {
    assume ge: "N \<le> of_int a / of_int b"
    show "N \<le> of_int m * 2 powi q"
    proof (rule grid_at_quantum [OF assms(1-3) g])
      fix z assume z: "N = of_int z * 2 powi (quantum F a b)"
      with ge have "z * (b * pow2 q) \<le> a * pow2 (- q)" by (simp only: sc q_def)
      then have "z \<le> m" unfolding m_def by (rule rne_ge [OF Y])
      then show ?thesis using q0 by (simp add: z q_def [symmetric])
    next
      assume N: "N \<le> of_int (pow2 (prec F - 1)) * 2 powi (quantum F a b)"
        and "of_int (pow2 (prec F - 1)) * 2 powi (quantum F a b) \<le> (of_int a / of_int b :: real)"
      then have "pow2 (prec F - 1) * (b * pow2 q) \<le> a * pow2 (- q)" by (simp only: sc q_def)
      then have "pow2 (prec F - 1) \<le> m" unfolding m_def by (rule rne_ge [OF Y])
      then have "of_int (pow2 (prec F - 1)) * 2 powi q \<le> (of_int m * 2 powi q :: real)"
        using q0 by simp
      with N show ?thesis unfolding q_def by linarith
    qed
  }
qed

lemma rne_nonneg: "0 < d \<Longrightarrow> 0 \<le> n \<Longrightarrow> 0 \<le> rne n d"
  by (rule rne_ge) simp_all

definition fmt_ok :: "fmt \<Rightarrow> bool" where
  "fmt_ok F \<longleftrightarrow> 1 \<le> prec F \<and> qmin F \<le> 0 \<and> 0 \<le> qmax F \<and> prec F \<le> qmax F"

lemma fmt_ok_single [simp]: "fmt_ok single"
  by (simp add: fmt_ok_def single_def)

lemma fmt_ok_double [simp]: "fmt_ok double"
  by (simp add: fmt_ok_def double_def)

text \<open>
  The largest power of two of the format (\<open>2 ^ 127\<close> for \<open>float\<close>): at or below it no operation
  overflows.
\<close>

definition top_pow :: "fmt \<Rightarrow> real" where
  "top_pow F = 2 powi (qmax F + prec F - 1)"

lemma grid_pow2:
  assumes "fmt_ok F" "qmin F \<le> i"
  shows "grid F (2 powi i)"
  unfolding grid_def
proof (intro exI conjI)
  show "(2::real) powi i = of_int 1 * 2 powi i" by simp
  show "\<bar>1::int\<bar> \<le> pow2 (prec F)" using pow2_pos [of "prec F"] by linarith
qed (fact assms(2))

lemma quantum_le_qmax:
  assumes "fmt_ok F" "0 < a" "0 < b" "of_int a / of_int b \<le> top_pow F"
  shows "quantum F a b \<le> qmax F"
proof -
  have "(2::real) powi (flog2 a b) \<le> 2 powi (qmax F + prec F - 1)"
    using flog2_bounds(1) [OF assms(2,3)] assms(4) by (simp add: top_pow_def)
  then have "flog2 a b \<le> qmax F + prec F - 1" by (simp only: powi_le_iff)
  with assms(1) show ?thesis by (simp add: quantum_def fmt_ok_def)
qed

text \<open>Up to \<open>top_pow F\<close> rounding gives a finite number that no value of the format separates from
  the exact one.\<close>

lemma round_frac_rnd_of:
  assumes F: "fmt_ok F" and a: "0 \<le> a" and b: "0 < b" and le: "of_int a / of_int b \<le> top_pow F"
  shows "\<exists>m q. round_frac F s a b = Fin s m q \<and> 0 \<le> m \<and>
    rnd_of F (of_int a / of_int b) (of_int m * 2 powi q)"
proof (cases "a = 0")
  case True
  then show ?thesis by (simp add: round_frac_def rnd_of_def)
next
  case False
  with a have a0: "0 < a" by simp
  define q where "q = quantum F a b"
  define m where "m = rne (a * pow2 (- q)) (b * pow2 q)"
  from F have p1: "1 \<le> prec F" by (simp add: fmt_ok_def)
  have R: "rnd_of F (of_int a / of_int b) (of_int m * 2 powi q)"
    unfolding m_def q_def by (rule rne_rnd_of [OF a0 b p1])
  have m0: "0 \<le> m" unfolding m_def using a0 b by (intro rne_nonneg) (simp_all add: less_imp_le)
  have q: "q \<le> qmax F" unfolding q_def by (rule quantum_le_qmax [OF F a0 b le])
  show ?thesis
  proof (cases "m = pow2 (prec F)")
    case False
    with q have "round_frac F s a b = Fin s m q"
      using a0 by (simp add: round_frac_def Let_def pack_def m_def [symmetric] q_def [symmetric])
    with R m0 show ?thesis by blast
  next
    case True
    have tw: "m = 2 * pow2 (prec F - 1)" using True p1 by (simp add: pow2.simps [of "prec F"])
    have val: "(of_int m :: real) * 2 powi q = of_int (m div 2) * 2 powi (q + 1)"
      using tw by (simp add: powi_split)
    have "grid F (top_pow F)" unfolding top_pow_def using F by (intro grid_pow2) (auto simp: fmt_ok_def)
    then have "of_int m * 2 powi q \<le> top_pow F" using R le by (blast intro: rnd_of_le)
    moreover have "(of_int m :: real) * 2 powi q = 2 powi (prec F + q)"
      using True p1 by (simp add: pow2_powi powi_split)
    ultimately have "prec F + q \<le> qmax F + prec F - 1"
      by (simp add: top_pow_def powi_le_iff)
    then have "round_frac F s a b = Fin s (m div 2) (q + 1)"
      using a0 True by (simp add: round_frac_def Let_def pack_def m_def [symmetric] q_def [symmetric])
    moreover have "0 \<le> m div 2" using m0 by simp
    ultimately show ?thesis using R unfolding val by blast
  qed
qed

section \<open>The operators\<close>

definition sgn_man :: "bool \<Rightarrow> int \<Rightarrow> int" where
  "sgn_man s m = (if s then - m else m)"

fun fl_add :: "fmt \<Rightarrow> flt \<Rightarrow> flt \<Rightarrow> flt" where
  "fl_add F NaN y = NaN"
| "fl_add F x NaN = NaN"
| "fl_add F (Inf s) (Inf t) = (if s = t then Inf s else NaN)"
| "fl_add F (Inf s) (Fin t m e) = Inf s"
| "fl_add F (Fin s m e) (Inf t) = Inf t"
| "fl_add F (Fin s m e) (Fin t n d) =
    (let k = min e d; z = sgn_man s (m * pow2 (e - k)) + sgn_man t (n * pow2 (d - k))
     in if z = 0 then Fin (s \<and> t) 0 (qmin F)
        else round_frac F (z < 0) (\<bar>z\<bar> * pow2 k) (pow2 (- k)))"

primrec fl_neg :: "flt \<Rightarrow> flt" where
  "fl_neg NaN = NaN"
| "fl_neg (Inf s) = Inf (\<not> s)"
| "fl_neg (Fin s m e) = Fin (\<not> s) m e"

fun fl_mul :: "fmt \<Rightarrow> flt \<Rightarrow> flt \<Rightarrow> flt" where
  "fl_mul F NaN y = NaN"
| "fl_mul F x NaN = NaN"
| "fl_mul F (Inf s) (Inf t) = Inf (s \<noteq> t)"
| "fl_mul F (Inf s) (Fin t m e) = (if m = 0 then NaN else Inf (s \<noteq> t))"
| "fl_mul F (Fin s m e) (Inf t) = (if m = 0 then NaN else Inf (s \<noteq> t))"
| "fl_mul F (Fin s m e) (Fin t n d) =
    round_frac F (s \<noteq> t) (m * n * pow2 (e + d)) (pow2 (- (e + d)))"

fun fl_div :: "fmt \<Rightarrow> flt \<Rightarrow> flt \<Rightarrow> flt" where
  "fl_div F NaN y = NaN"
| "fl_div F x NaN = NaN"
| "fl_div F (Inf s) (Inf t) = NaN"
| "fl_div F (Inf s) (Fin t n d) = Inf (s \<noteq> t)"
| "fl_div F (Fin s m e) (Inf t) = Fin (s \<noteq> t) 0 (qmin F)"
| "fl_div F (Fin s m e) (Fin t n d) =
    (if n = 0 then (if m = 0 then NaN else Inf (s \<noteq> t))
     else round_frac F (s \<noteq> t) (m * pow2 (e - d)) (n * pow2 (d - e)))"

text \<open>Comparisons: false as soon as one side is NaN.\<close>

fun fl_less :: "flt \<Rightarrow> flt \<Rightarrow> bool" where
  "fl_less NaN y = False"
| "fl_less x NaN = False"
| "fl_less (Inf s) (Inf t) = (s \<and> \<not> t)"
| "fl_less (Inf s) (Fin t n d) = s"
| "fl_less (Fin s m e) (Inf t) = (\<not> t)"
| "fl_less (Fin s m e) (Fin t n d) =
    (let k = min e d in sgn_man s (m * pow2 (e - k)) < sgn_man t (n * pow2 (d - k)))"

fun feq :: "flt \<Rightarrow> flt \<Rightarrow> bool" where
  "feq NaN y = False"
| "feq x NaN = False"
| "feq (Inf s) (Inf t) = (s = t)"
| "feq (Inf s) (Fin t n d) = False"
| "feq (Fin s m e) (Inf t) = False"
| "feq (Fin s m e) (Fin t n d) =
    (let k = min e d in sgn_man s (m * pow2 (e - k)) = sgn_man t (n * pow2 (d - k)))"

text \<open>The operators of \<open>float\<close> are the HOL operators on \<open>flt\<close>.\<close>

instantiation flt :: "{plus, minus, uminus, times, inverse, ord}"
begin

definition plus_flt :: "flt \<Rightarrow> flt \<Rightarrow> flt" where
  "x + y = fl_add single x y"

definition uminus_flt :: "flt \<Rightarrow> flt" where
  "- x = fl_neg x"

definition minus_flt :: "flt \<Rightarrow> flt \<Rightarrow> flt" where
  "x - y = fl_add single x (fl_neg y)"

definition times_flt :: "flt \<Rightarrow> flt \<Rightarrow> flt" where
  "x * y = fl_mul single x y"

definition divide_flt :: "flt \<Rightarrow> flt \<Rightarrow> flt" where
  "x div y = fl_div single x y"

definition inverse_flt :: "flt \<Rightarrow> flt" where
  "inverse x = fl_div single (Fin False 1 0) x"

definition less_flt :: "flt \<Rightarrow> flt \<Rightarrow> bool" where
  "x < y = fl_less x y"

definition less_eq_flt :: "flt \<Rightarrow> flt \<Rightarrow> bool" where
  "x \<le> y = (fl_less x y \<or> feq x y)"

instance ..

end

text \<open>Conversions from integers, decimal literals, and the other way.\<close>

definition of_int_fmt :: "fmt \<Rightarrow> int \<Rightarrow> flt" where
  "of_int_fmt F n = round_frac F (n < 0) \<bar>n\<bar> 1"

definition fl :: "int \<Rightarrow> flt" where
  "fl n = of_int_fmt single n"

text \<open>The literal \<open>n / d\<close>, rounded once, as the compiler reads a decimal constant.\<close>

definition lit :: "int \<Rightarrow> int \<Rightarrow> flt" where
  "lit n d = round_frac single (n < 0) \<bar>n\<bar> d"

definition dlit :: "int \<Rightarrow> int \<Rightarrow> flt" where
  "dlit n d = round_frac double (n < 0) \<bar>n\<bar> d"

text \<open>
  Conversion of a floating value to an integer type discards the fraction; C++ leaves the result
  undefined when it does not fit the type, which is \<open>None\<close> here.
\<close>

primrec trunc :: "flt \<Rightarrow> int option" where
  "trunc NaN = None"
| "trunc (Inf s) = None"
| "trunc (Fin s m e) = Some (sgn_man s (m * pow2 e div pow2 (- e)))"

definition cast_range :: "int \<Rightarrow> int \<Rightarrow> flt \<Rightarrow> int option" where
  "cast_range lo hi x = (case trunc x of None \<Rightarrow> None
     | Some n \<Rightarrow> if lo \<le> n \<and> n \<le> hi then Some n else None)"

definition to_u8 :: "flt \<Rightarrow> 8 word option" where
  "to_u8 x = map_option of_int (cast_range 0 255 x)"

definition to_u16 :: "flt \<Rightarrow> 16 word option" where
  "to_u16 x = map_option of_int (cast_range 0 65535 x)"

definition to_u32 :: "flt \<Rightarrow> 32 word option" where
  "to_u32 x = map_option of_int (cast_range 0 4294967295 x)"

definition to_i16 :: "flt \<Rightarrow> int option" where
  "to_i16 x = cast_range (- 32768) 32767 x"

definition to_size :: "flt \<Rightarrow> nat option" where
  "to_size x = map_option nat (cast_range 0 18446744073709551615 x)"

text \<open>The functions of \<open><cmath>\<close> whose results the standard fixes exactly.\<close>

primrec floorf :: "flt \<Rightarrow> flt" where
  "floorf NaN = NaN"
| "floorf (Inf s) = Inf s"
| "floorf (Fin s m e) =
    (if 0 \<le> e then Fin s m e else round_frac single s \<bar>sgn_man s m div pow2 (- e)\<bar> 1)"

primrec fabsf :: "flt \<Rightarrow> flt" where
  "fabsf NaN = NaN"
| "fabsf (Inf s) = Inf False"
| "fabsf (Fin s m e) = Fin False m e"

definition fmaxf :: "flt \<Rightarrow> flt \<Rightarrow> flt" where
  "fmaxf x y = (if x = NaN then y else if y = NaN then x else if x < y then y else x)"

definition fminf :: "flt \<Rightarrow> flt \<Rightarrow> flt" where
  "fminf x y = (if x = NaN then y else if y = NaN then x else if y < x then y else x)"

section \<open>What the operators compute\<close>

lemmas flt_ops = plus_flt_def minus_flt_def uminus_flt_def times_flt_def divide_flt_def
  less_flt_def less_eq_flt_def

lemma isfin_cases [consumes 1]:
  assumes "isfin x"
  obtains s m e where "x = Fin s m e" "0 \<le> m"
  using assms by (cases x) auto

lemma fval_sgn_man: "fval (Fin s m e) = of_int (sgn_man s m) * 2 powi e"
  by (simp add: sgn_man_def)

lemma aligned_value:
  "k \<le> e \<Longrightarrow> of_int (sgn_man s (m * pow2 (e - k))) * 2 powi k = fval (Fin s m e)"
  by (simp add: sgn_man_def pow2_powi powi_split [symmetric])

lemma sign_of_product:
  "0 \<le> p \<Longrightarrow> r = (if b then - 1 else 1) * p \<Longrightarrow> b \<longleftrightarrow> r < 0 \<or> ((r::real) = 0 \<and> b)"
  by auto

lemma round_frac_value:
  assumes "fmt_ok F" "0 \<le> a" "0 < b" "of_int a / of_int b = \<bar>r\<bar>" "\<bar>r\<bar> \<le> top_pow F"
    and "s \<longleftrightarrow> r < 0 \<or> (r = 0 \<and> s)"
  shows "isfin (round_frac F s a b) \<and> rnd_of F r (fval (round_frac F s a b))"
proof -
  from round_frac_rnd_of [OF assms(1-3), of s] assms(4,5)
  obtain m q where mq: "round_frac F s a b = Fin s m q" "0 \<le> m"
    "rnd_of F \<bar>r\<bar> (of_int m * 2 powi q)" by auto
  show ?thesis
  proof (cases "r < 0")
    case True
    with assms(6) have s: "s" by blast
    have "rnd_of F r (- (of_int m * 2 powi q))"
      using rnd_of_uminus [OF mq(3)] True by simp
    with mq s show ?thesis by simp
  next
    case False
    have "rnd_of F r (fval (Fin s m q))"
    proof (cases "r = 0")
      case True
      with mq(3) have "of_int m * 2 powi q = (0::real)"
        using True by (intro rnd_of_exact [of F]) simp_all
      with True mq(3) show ?thesis by auto
    next
      case nz: False
      with False assms(6) have "\<not> s" by auto
      with False mq(3) show ?thesis by simp
    qed
    with mq show ?thesis by simp
  qed
qed

lemma fl_add_value:
  assumes "fmt_ok F" "isfin x" "isfin y" "\<bar>fval x + fval y\<bar> \<le> top_pow F"
  shows "isfin (fl_add F x y) \<and> rnd_of F (fval x + fval y) (fval (fl_add F x y))"
proof -
  from assms(2,3) obtain s m e t n d where x: "x = Fin s m e" and y: "y = Fin t n d"
    by (auto elim!: isfin_cases)
  define k where "k = min e d"
  define z where "z = sgn_man s (m * pow2 (e - k)) + sgn_man t (n * pow2 (d - k))"
  have val: "fval x + fval y = of_int z * 2 powi k"
    by (simp add: z_def x y distrib_right aligned_value k_def del: fval.simps)
  have frac: "of_int (\<bar>z\<bar> * pow2 k) / of_int (pow2 (- k)) = \<bar>fval x + fval y\<bar>"
    using scale_powi [of k] by (simp add: val abs_mult divide_inverse mult.assoc)
  show ?thesis
  proof (cases "z = 0")
    case True
    then have "fval x + fval y = 0" using val by simp
    moreover have "fl_add F x y = Fin (s \<and> t) 0 (qmin F)"
      using True by (simp add: x y Let_def k_def z_def)
    ultimately show ?thesis by (simp add: rnd_of_def)
  next
    case False
    have "isfin (round_frac F (z < 0) (\<bar>z\<bar> * pow2 k) (pow2 (- k))) \<and>
      rnd_of F (fval x + fval y) (fval (round_frac F (z < 0) (\<bar>z\<bar> * pow2 k) (pow2 (- k))))"
      by (rule round_frac_value [OF assms(1) _ _ frac assms(4)])
        (use False in \<open>auto simp add: val mult_less_0_iff\<close>)
    moreover have "fl_add F x y = round_frac F (z < 0) (\<bar>z\<bar> * pow2 k) (pow2 (- k))"
      using False by (simp add: x y Let_def k_def z_def)
    ultimately show ?thesis by simp
  qed
qed

lemma fl_neg_value [simp]: "fval (fl_neg x) = - fval x"
  by (cases x) auto

lemma isfin_fl_neg [simp]: "isfin (fl_neg x) = isfin x"
  by (cases x) auto

lemma fl_mul_value:
  assumes "fmt_ok F" "isfin x" "isfin y" "\<bar>fval x * fval y\<bar> \<le> top_pow F"
  shows "isfin (fl_mul F x y) \<and> rnd_of F (fval x * fval y) (fval (fl_mul F x y))"
proof -
  from assms(2,3) obtain s m e t n d where x: "x = Fin s m e" "0 \<le> m" and y: "y = Fin t n d" "0 \<le> n"
    by (auto elim!: isfin_cases)
  have val: "fval x * fval y = (if s \<noteq> t then - 1 else 1) * (of_int (m * n) * 2 powi (e + d))"
    by (auto simp add: x y powi_split)
  have frac: "of_int (m * n * pow2 (e + d)) / of_int (pow2 (- (e + d))) = \<bar>fval x * fval y\<bar>"
    using scale_powi [of "e + d"] x(2) y(2)
    by (simp only: val of_int_mult abs_mult) (simp add: divide_inverse mult.assoc)
  have sg: "(s \<noteq> t) \<longleftrightarrow> fval x * fval y < 0 \<or> (fval x * fval y = 0 \<and> s \<noteq> t)"
    using x(2) y(2) by (intro sign_of_product [OF _ val] mult_nonneg_nonneg) simp_all
  have "isfin (round_frac F (s \<noteq> t) (m * n * pow2 (e + d)) (pow2 (- (e + d)))) \<and>
    rnd_of F (fval x * fval y) (fval (round_frac F (s \<noteq> t) (m * n * pow2 (e + d)) (pow2 (- (e + d)))))"
    by (rule round_frac_value [OF assms(1) _ _ frac assms(4) sg]) (use x(2) y(2) in simp_all)
  then show ?thesis by (simp add: x(1) y(1) del: fval.simps)
qed

lemma fl_div_value:
  assumes "fmt_ok F" "isfin x" "isfin y" "fval y \<noteq> 0" "\<bar>fval x / fval y\<bar> \<le> top_pow F"
  shows "isfin (fl_div F x y) \<and> rnd_of F (fval x / fval y) (fval (fl_div F x y))"
proof -
  from assms(2,3) obtain s m e t n d where x: "x = Fin s m e" "0 \<le> m" and y: "y = Fin t n d" "0 \<le> n"
    by (auto elim!: isfin_cases)
  with assms(4) have n: "0 < n" by auto
  have val: "fval x / fval y = (if s \<noteq> t then - 1 else 1) * (of_int m / of_int n * 2 powi (e - d))"
    by (auto simp add: x y power_int_diff)
  have frac: "of_int (m * pow2 (e - d)) / of_int (n * pow2 (d - e)) = \<bar>fval x / fval y\<bar>"
    using scale_powi [of "e - d"] x(2) n
    by (simp only: val of_int_mult abs_mult times_divide_times_eq [symmetric]) simp
  have sg: "(s \<noteq> t) \<longleftrightarrow> fval x / fval y < 0 \<or> (fval x / fval y = 0 \<and> s \<noteq> t)"
    using x(2) n by (intro sign_of_product [OF _ val] mult_nonneg_nonneg divide_nonneg_pos) simp_all
  have "isfin (round_frac F (s \<noteq> t) (m * pow2 (e - d)) (n * pow2 (d - e))) \<and>
    rnd_of F (fval x / fval y) (fval (round_frac F (s \<noteq> t) (m * pow2 (e - d)) (n * pow2 (d - e))))"
    by (rule round_frac_value [OF assms(1) _ _ frac assms(5) sg]) (use x(2) n in simp_all)
  then show ?thesis using n by (simp add: x(1) y(1) del: fval.simps)
qed

lemma top_single: "16777216 * 16777216 \<le> top_pow single"
proof -
  have "(2::real) powi 48 \<le> 2 powi 127" by (rule power_int_increasing) simp_all
  then show ?thesis by (simp add: top_pow_def single_def)
qed

lemma grid_single_int [simp]: "\<bar>n\<bar> \<le> 16777216 \<Longrightarrow> grid single (of_int n)"
  unfolding grid_def
  by (rule exI [of _ n], rule exI [of _ 0]) (simp add: single_def pow2_eq)

lemma grid_single_dyadic: "\<bar>k\<bar> \<le> 16777216 \<Longrightarrow> - 149 \<le> j \<Longrightarrow> grid single (of_int k * 2 powi j)"
  unfolding grid_def
  by (rule exI [of _ k], rule exI [of _ j]) (simp add: single_def pow2_eq)

lemma add_value:
  assumes "isfin x" "isfin y" "\<bar>fval x + fval y\<bar> \<le> top_pow single"
  shows "isfin (x + y)" "rnd_of single (fval x + fval y) (fval (x + y))"
  using fl_add_value [of single x y] assms by (simp_all add: plus_flt_def)

lemma diff_value:
  assumes "isfin x" "isfin y" "\<bar>fval x - fval y\<bar> \<le> top_pow single"
  shows "isfin (x - y)" "rnd_of single (fval x - fval y) (fval (x - y))"
  using fl_add_value [of single x "fl_neg y"] assms by (simp_all add: minus_flt_def)

lemma mult_value:
  assumes "isfin x" "isfin y" "\<bar>fval x * fval y\<bar> \<le> top_pow single"
  shows "isfin (x * y)" "rnd_of single (fval x * fval y) (fval (x * y))"
  using fl_mul_value [of single x y] assms by (simp_all add: times_flt_def)

lemma divide_value:
  assumes "isfin x" "isfin y" "fval y \<noteq> 0" "\<bar>fval x / fval y\<bar> \<le> top_pow single"
  shows "isfin (x / y)" "rnd_of single (fval x / fval y) (fval (x / y))"
  using fl_div_value [of single x y] assms by (simp_all add: divide_flt_def)

lemma compare_aligned:
  assumes "isfin (Fin s m e)" "isfin (Fin t n d)"
  defines "k \<equiv> min e d"
  shows "(sgn_man s (m * pow2 (e - k)) < sgn_man t (n * pow2 (d - k))) = (fval (Fin s m e) < fval (Fin t n d))"
    and "(sgn_man s (m * pow2 (e - k)) = sgn_man t (n * pow2 (d - k))) = (fval (Fin s m e) = fval (Fin t n d))"
proof -
  let ?a = "sgn_man s (m * pow2 (e - k))" and ?b = "sgn_man t (n * pow2 (d - k))"
  have A: "of_int ?a * 2 powi k = fval (Fin s m e)" and B: "of_int ?b * 2 powi k = fval (Fin t n d)"
    by (simp_all add: aligned_value k_def del: fval.simps)
  have "(fval (Fin s m e) < fval (Fin t n d)) = ((of_int ?a :: real) < of_int ?b)"
    unfolding A [symmetric] B [symmetric] by (simp only: mult_less_cancel_right_pos powi_pos)
  then show "(?a < ?b) = (fval (Fin s m e) < fval (Fin t n d))" by (simp only: of_int_less_iff)
  have "(fval (Fin s m e) = fval (Fin t n d)) = ((of_int ?a :: real) = of_int ?b)"
    unfolding A [symmetric] B [symmetric] by simp
  then show "(?a = ?b) = (fval (Fin s m e) = fval (Fin t n d))" by (simp only: of_int_eq_iff)
qed

lemma less_value: "isfin x \<Longrightarrow> isfin y \<Longrightarrow> (x < y) = (fval x < fval y)"
  by (cases x; cases y) (simp_all add: less_flt_def Let_def compare_aligned del: fval.simps)

lemma feq_value: "isfin x \<Longrightarrow> isfin y \<Longrightarrow> feq x y = (fval x = fval y)"
  by (cases x; cases y) (simp_all add: Let_def compare_aligned del: fval.simps)

lemma le_value: "isfin x \<Longrightarrow> isfin y \<Longrightarrow> (x \<le> y) = (fval x \<le> fval y)"
  using less_value [of x y] feq_value [of x y] by (auto simp add: less_eq_flt_def less_flt_def)

text \<open>Integers up to \<open>2 ^ 24\<close> are exact.\<close>

lemma fl_value:
  assumes "\<bar>n\<bar> \<le> 16777216"
  shows "isfin (fl n)" "fval (fl n) = of_int n"
proof -
  have n: "\<bar>of_int n :: real\<bar> \<le> 16777216"
    using assms by (metis of_int_abs of_int_le_iff of_int_numeral)
  have "isfin (fl n) \<and> rnd_of single (of_int n) (fval (fl n))"
    unfolding fl_def of_int_fmt_def
    by (rule round_frac_value) (use n top_single in auto)
  then show "isfin (fl n)" "fval (fl n) = of_int n"
    using assms by (auto intro: rnd_of_exact)
qed

lemma fabsf_value [simp]: "isfin x \<Longrightarrow> fval (fabsf x) = \<bar>fval x\<bar>" "isfin x \<Longrightarrow> isfin (fabsf x)"
  by (cases x; simp add: abs_mult)+

text \<open>The intervals with integer bounds that the program's coordinates stay in.\<close>

definition between :: "int \<Rightarrow> int \<Rightarrow> flt \<Rightarrow> bool" where
  "between lo hi x \<longleftrightarrow> isfin x \<and> of_int lo \<le> fval x \<and> fval x \<le> of_int hi"

lemma between_fl: "\<bar>n\<bar> \<le> 16777216 \<Longrightarrow> between n n (fl n)"
  by (simp add: between_def fl_value)

lemma between_weaken: "between a b x \<Longrightarrow> c \<le> a \<Longrightarrow> b \<le> d \<Longrightarrow> between c d x"
  unfolding between_def by (smt (verit) of_int_le_iff)

lemma rnd_between:
  assumes "rnd_of single r v" "of_int a \<le> r" "r \<le> of_int b" "\<bar>a\<bar> \<le> 16777216" "\<bar>b\<bar> \<le> 16777216"
  shows "of_int a \<le> v" "v \<le> of_int b"
  using assms by (auto intro: rnd_of_le rnd_of_ge)

lemma small_le_top: "of_int a \<le> r \<Longrightarrow> r \<le> of_int b \<Longrightarrow> \<bar>a\<bar> \<le> 16777216 \<Longrightarrow> \<bar>b\<bar> \<le> 16777216 \<Longrightarrow>
    \<bar>r\<bar> \<le> top_pow single"
  using top_single by linarith

lemma between_add:
  assumes "between a b x" "between c d y" "\<bar>a + c\<bar> \<le> 16777216" "\<bar>b + d\<bar> \<le> 16777216"
  shows "between (a + c) (b + d) (x + y)"
proof -
  have 1: "of_int (a + c) \<le> fval x + fval y" "fval x + fval y \<le> of_int (b + d)"
    using assms(1,2) by (simp_all add: between_def)
  have "isfin x" "isfin y" using assms(1,2) by (simp_all add: between_def)
  from add_value [OF this small_le_top [OF 1 assms(3,4)]]
  show ?thesis using rnd_between [OF _ 1 assms(3,4)] unfolding between_def by blast
qed

lemma between_diff:
  assumes "between a b x" "between c d y" "\<bar>a - d\<bar> \<le> 16777216" "\<bar>b - c\<bar> \<le> 16777216"
  shows "between (a - d) (b - c) (x - y)"
proof -
  have 1: "of_int (a - d) \<le> fval x - fval y" "fval x - fval y \<le> of_int (b - c)"
    using assms(1,2) by (simp_all add: between_def)
  have "isfin x" "isfin y" using assms(1,2) by (simp_all add: between_def)
  from diff_value [OF this small_le_top [OF 1 assms(3,4)]]
  show ?thesis using rnd_between [OF _ 1 assms(3,4)] unfolding between_def by blast
qed

lemma between_mult_sym:
  assumes "between (- a) a x" "between (- b) b y" "a * b \<le> 16777216" "0 \<le> a" "0 \<le> b"
  shows "between (- (a * b)) (a * b) (x * y)"
proof -
  have "\<bar>fval x\<bar> \<le> of_int a" "\<bar>fval y\<bar> \<le> of_int b"
    using assms(1,2) by (auto simp add: between_def)
  then have "\<bar>fval x * fval y\<bar> \<le> of_int a * of_int b"
    unfolding abs_mult using assms(4) by (intro mult_mono) simp_all
  then have 1: "of_int (- (a * b)) \<le> fval x * fval y" "fval x * fval y \<le> of_int (a * b)"
    by (simp_all add: abs_le_iff)
  have 2: "\<bar>- (a * b)\<bar> \<le> 16777216" "\<bar>a * b\<bar> \<le> 16777216" using assms by simp_all
  have "isfin x" "isfin y" using assms(1,2) by (simp_all add: between_def)
  from mult_value [OF this small_le_top [OF 1 2]]
  show ?thesis using rnd_between [OF _ 1 2] unfolding between_def by blast
qed

lemma trunc_value:
  assumes "isfin x"
  shows "trunc x = Some (if fval x < 0 then \<lceil>fval x\<rceil> else \<lfloor>fval x\<rfloor>)"
proof -
  from assms obtain s m e where x: "x = Fin s m e" "0 \<le> m" by (rule isfin_cases)
  have fl: "m * pow2 e div pow2 (- e) = \<lfloor>of_int m * (2::real) powi e\<rfloor>"
    unfolding scale_powi [of e, symmetric]
    using floor_divide_of_int_eq [of "m * pow2 e" "pow2 (- e)", where 'a = real] by simp
  have pos: "0 \<le> of_int m * (2::real) powi e" using x by simp
  show ?thesis
  proof (cases s)
    case True
    show ?thesis
    proof (cases "m = 0")
      case True
      with x show ?thesis by (simp add: sgn_man_def)
    next
      case False
      with x have "0 < of_int m * (2::real) powi e" by simp
      with \<open>s\<close> show ?thesis by (simp add: x sgn_man_def fl ceiling_def)
    qed
  next
    case False
    have "\<not> of_int m * (2::real) powi e < 0" using pos by linarith
    with False show ?thesis using x by (simp add: sgn_man_def fl)
  qed
qed

lemma cast_range_between:
  assumes "between a b x" "lo \<le> a" "b \<le> hi"
  shows "\<exists>n. cast_range lo hi x = Some n \<and> a \<le> n \<and> n \<le> b"
proof -
  from assms(1) have x: "isfin x" "of_int a \<le> fval x" "fval x \<le> of_int b"
    by (simp_all add: between_def)
  define n where "n = (if fval x < 0 then \<lceil>fval x\<rceil> else \<lfloor>fval x\<rfloor>)"
  have "a \<le> n" "n \<le> b" using x by (auto simp add: n_def le_floor_iff ceiling_le_iff) linarith+
  moreover have "cast_range lo hi x = Some n"
    using trunc_value [OF x(1)] assms(2,3) \<open>a \<le> n\<close> \<open>n \<le> b\<close>
    by (simp add: cast_range_def n_def [symmetric])
  ultimately show ?thesis by blast
qed

lemma cast_range_floor:
  "cast_range lo hi x = Some n \<Longrightarrow> isfin x \<Longrightarrow> 0 \<le> fval x \<Longrightarrow> n = \<lfloor>fval x\<rfloor>"
  using trunc_value [of x] by (auto simp add: cast_range_def split: if_splits)

lemma cast_range_bounds: "cast_range lo hi x = Some n \<Longrightarrow> lo \<le> n \<and> n \<le> hi"
  by (auto simp add: cast_range_def split: option.splits if_splits)

lemma floorf_value:
  assumes "isfin x" "\<bar>fval x\<bar> \<le> 8388608"
  shows "isfin (floorf x)" "fval (floorf x) = of_int \<lfloor>fval x\<rfloor>"
proof -
  from assms(1) obtain s m e where x: "x = Fin s m e" "0 \<le> m" by (rule isfin_cases)
  have "isfin (floorf x) \<and> fval (floorf x) = of_int \<lfloor>fval x\<rfloor>"
  proof (cases "0 \<le> e")
    case True
    then have "fval x = of_int (sgn_man s (m * pow2 e))"
      by (simp add: x sgn_man_def pow2_powi)
    with True x show ?thesis by (simp del: fval.simps)
  next
    case False
    let ?n = "sgn_man s m div pow2 (- e)"
    have "fval x = of_int (sgn_man s m) / of_int (pow2 (- e))"
      using False power_int_minus [of "2::real" "- e"]
      by (simp add: fval_sgn_man x pow2_powi divide_inverse del: fval.simps)
    then have n: "\<lfloor>fval x\<rfloor> = ?n" by (simp add: floor_divide_of_int_eq)
    have b: "\<bar>?n\<bar> \<le> 16777216" using assms(2) unfolding n [symmetric] by linarith
    then have br: "\<bar>of_int ?n :: real\<bar> \<le> 16777216"
      by (metis of_int_abs of_int_le_iff of_int_numeral)
    have sg: "s \<longleftrightarrow> (of_int ?n :: real) < 0 \<or> ((of_int ?n :: real) = 0 \<and> s)"
    proof (cases s)
      case True
      then have "sgn_man s m \<le> 0" using x by (simp add: sgn_man_def)
      then have "?n \<le> 0" by (metis div_0 zdiv_mono1 pow2_pos)
      with True show ?thesis by (simp add: less_le)
    next
      case False
      then have "0 \<le> sgn_man s m" using x by (simp add: sgn_man_def)
      then have "0 \<le> ?n" by (simp add: pos_imp_zdiv_nonneg_iff)
      with False show ?thesis by simp
    qed
    have "isfin (round_frac single s \<bar>?n\<bar> 1) \<and>
      rnd_of single (of_int ?n) (fval (round_frac single s \<bar>?n\<bar> 1))"
      by (rule round_frac_value [OF _ _ _ _ _ sg]) (use br top_single in simp_all)
    with b False show ?thesis unfolding n by (auto simp add: x intro: rnd_of_exact)
  qed
  then show "isfin (floorf x)" "fval (floorf x) = of_int \<lfloor>fval x\<rfloor>" by simp_all
qed

lemma half_quotient:
  assumes "0 < y" "2 * \<bar>n * y - x\<bar> \<le> (y::real)"
  shows "\<bar>n - x / y\<bar> \<le> 1 / 2"
proof -
  have "n - x / y = (n * y - x) / y" using assms(1) by (simp add: diff_divide_distrib)
  then have "\<bar>n - x / y\<bar> = \<bar>n * y - x\<bar> / y" using assms(1) by simp
  with assms show ?thesis by simp
qed

lemma rescale_half:
  assumes "0 < p" "\<bar>n - c / p\<bar> \<le> (1 / 2 :: real)"
  shows "\<bar>n * p - c\<bar> \<le> p / 2"
proof -
  have "n * p - c = (n - c / p) * p" using assms(1) by (simp add: left_diff_distrib)
  then have "\<bar>n * p - c\<bar> = \<bar>n - c / p\<bar> * p" using assms(1) by (simp add: abs_mult)
  also have "\<dots> \<le> 1 / 2 * p" using assms by (intro mult_right_mono) simp_all
  finally show ?thesis by simp
qed

text \<open>Rounding is to nearest: the error is at most half of the last place.\<close>

lemma round_frac_half_ulp:
  assumes "0 < a" "0 < b" "round_frac F s a b = Fin s m e" "1 \<le> prec F"
  shows "\<bar>of_int m * 2 powi e - of_int a / of_int b\<bar> \<le> (2::real) powi (quantum F a b) / 2"
proof -
  define q where "q = quantum F a b"
  define n where "n = rne (a * pow2 (- q)) (b * pow2 q)"
  have val: "of_int m * (2::real) powi e = of_int n * 2 powi q"
  proof (cases "n = pow2 (prec F)")
    case True
    then have "n = 2 * pow2 (prec F - 1)" using assms(4) by (simp add: pow2.simps [of "prec F"])
    moreover have "m = n div 2" "e = q + 1" using assms(1,3) True
      by (auto simp add: round_frac_def Let_def pack_def n_def [symmetric] q_def [symmetric] split: if_splits)
    ultimately show ?thesis by (simp add: powi_split)
  next
    case False
    then show ?thesis using assms(1,3)
      by (auto simp add: round_frac_def Let_def pack_def n_def [symmetric] q_def [symmetric] split: if_splits)
  qed
  let ?X = "a * pow2 (- q)" and ?Y = "b * pow2 q"
  have Y: "0 < ?Y" using assms(2) by simp
  then have Yr: "(0::real) < of_int ?Y" by (simp only: of_int_0_less_iff)
  have "of_int (2 * \<bar>n * ?Y - ?X\<bar>) \<le> (of_int ?Y :: real)"
    using rne_half [OF Y, of ?X] by (simp only: of_int_le_iff n_def)
  then have "2 * \<bar>of_int n * of_int ?Y - of_int ?X\<bar> \<le> (of_int ?Y :: real)" by simp
  then have "\<bar>of_int n - of_int ?X / of_int ?Y\<bar> \<le> (1 / 2 :: real)"
    by (rule half_quotient [OF Yr])
  then have "\<bar>of_int n - of_int a / of_int b / 2 powi q\<bar> \<le> (1 / 2 :: real)"
    unfolding quotient_scaled [OF assms(2)] .
  then have "\<bar>of_int n * 2 powi q - of_int a / of_int b\<bar> \<le> (2 powi q / 2 :: real)"
    by (rule rescale_half [rotated]) simp
  then show ?thesis by (simp add: val q_def)
qed

end
