(* ===== verification/Prelude.thy ===== *)
theory Prelude
  imports IEEE_Single "HOL-Library.Monad_Syntax" "HOL-Library.Multiset"
begin

text \<open>
  Shared ground of the development: the machine types, C++ undefined behaviour as \<open>None\<close> with a
  loop combinator for it, the \<open><algorithm>\<close> searches that the program calls on its sorted
  vectors, and the named collections of facts the components add to.
\<close>

unbundle bit_operations_syntax

type_synonym u8 = "8 word"
type_synonym u16 = "16 word"
type_synonym u32 = "32 word"
type_synonym addr = nat

text \<open>\<open>slither_simps\<close>: computation rules of the model that proofs unfold by default.\<close>

named_theorems slither_simps
named_theorems size_facts

section \<open>Loops that may run into undefined behaviour\<close>

primrec fold_opt :: "('a \<Rightarrow> 's \<Rightarrow> 's option) \<Rightarrow> 'a list \<Rightarrow> 's \<Rightarrow> 's option" where
  "fold_opt f [] s = Some s"
| "fold_opt f (x # xs) s = Option.bind (f x s) (fold_opt f xs)"

lemma fold_opt_append: "fold_opt f (xs @ ys) s = Option.bind (fold_opt f xs s) (fold_opt f ys)"
  by (induction xs arbitrary: s) (auto split: bind_splits)

lemma fold_opt_inv:
  assumes "\<And>x s s'. x \<in> set xs \<Longrightarrow> P s \<Longrightarrow> f x s = Some s' \<Longrightarrow> P s'"
    and "P s" and "fold_opt f xs s = Some s'"
  shows "P s'"
  using assms
proof (induction xs arbitrary: s)
  case Nil
  then show ?case by simp
next
  case (Cons x xs)
  then obtain t where t: "f x s = Some t" "fold_opt f xs t = Some s'"
    by (auto simp: bind_eq_Some_conv)
  have "P t" using Cons.prems(1) [of x s t] Cons.prems(2) t by simp
  with Cons.IH Cons.prems(1) t show ?case by (meson list.set_intros(2))
qed

lemma fold_opt_total:
  assumes "\<And>x s. x \<in> set xs \<Longrightarrow> P s \<Longrightarrow> \<exists>s'. f x s = Some s' \<and> P s'" and "P s"
  shows "\<exists>s'. fold_opt f xs s = Some s' \<and> P s'"
  using assms
proof (induction xs arbitrary: s)
  case Nil
  then show ?case by simp
next
  case (Cons x xs)
  then obtain t where t: "f x s = Some t" "P t" by (meson list.set_intros(1))
  with Cons.IH [of t] Cons.prems(1) show ?case by simp
qed

text \<open>The same with the elements already visited as an argument of the invariant.\<close>

lemma fold_opt_prefix:
  assumes "\<And>ys x zs s. xs = ys @ x # zs \<Longrightarrow> P ys s \<Longrightarrow> \<exists>s'. f x s = Some s' \<and> P (ys @ [x]) s'" and "P [] s"
  shows "\<exists>s'. fold_opt f xs s = Some s' \<and> P xs s'"
proof -
  have "\<exists>s'. fold_opt f zs s = Some s' \<and> P (ys @ zs) s'" if "xs = ys @ zs" "P ys s" for ys zs s
    using that
  proof (induction zs arbitrary: ys s)
    case Nil
    then show ?case by simp
  next
    case (Cons z zs)
    from assms(1) [OF Cons.prems] obtain t where t: "f z s = Some t" "P (ys @ [z]) t" by blast
    with Cons.IH [of "ys @ [z]" t] Cons.prems(1) show ?case by simp
  qed
  from this [of "[]" xs s] assms(2) show ?thesis by simp
qed

text \<open>A loop whose body always succeeds is an ordinary fold.\<close>

lemma fold_opt_Some: "fold_opt (\<lambda>x s. Some (f x s)) xs s = Some (fold f xs s)"
  by (induction xs arbitrary: s) simp_all

section \<open>Searching sorted vectors\<close>

text \<open>
  \<open>std::lower_bound\<close>: halving on \<open>[first, first + len)\<close>. \<open>lt a\<close> is the comparison of an
  element with the value searched for.
\<close>

function lower_bound_loop :: "('a \<Rightarrow> bool) \<Rightarrow> 'a list \<Rightarrow> nat \<Rightarrow> nat \<Rightarrow> nat" where
  "lower_bound_loop lt xs first len =
    (if len = 0 then first
     else let half = len div 2; mid = first + half
       in if lt (xs ! mid) then lower_bound_loop lt xs (Suc mid) (len - half - 1)
          else lower_bound_loop lt xs first half)"
  by pat_completeness auto
termination
  by (relation "measure (\<lambda>(lt, xs, first, len). len)") auto

declare lower_bound_loop.simps [simp del]

definition lower_bound :: "('a \<Rightarrow> bool) \<Rightarrow> 'a list \<Rightarrow> nat" where
  "lower_bound lt xs = lower_bound_loop lt xs 0 (length xs)"

text \<open>On a partitioned vector the halving finds the length of the prefix that compares less.\<close>

definition partitioned :: "('a \<Rightarrow> bool) \<Rightarrow> 'a list \<Rightarrow> bool" where
  "partitioned lt xs \<longleftrightarrow> (\<forall>i j. i \<le> j \<longrightarrow> j < length xs \<longrightarrow> lt (xs ! j) \<longrightarrow> lt (xs ! i))"

lemma lower_bound_loop_range:
  "first + len \<le> length xs \<Longrightarrow> first \<le> lower_bound_loop lt xs first len \<and>
     lower_bound_loop lt xs first len \<le> first + len"
proof (induction lt xs first len rule: lower_bound_loop.induct)
  case (1 lt xs first len)
  show ?case
  proof (cases "len = 0")
    case True
    then show ?thesis by (simp add: lower_bound_loop.simps)
  next
    case False
    then show ?thesis using 1 by (subst (1 2) lower_bound_loop.simps) (force simp: Let_def)
  qed
qed

lemma lower_bound_loop_split:
  assumes "partitioned lt xs" "first + len \<le> length xs"
    and "\<forall>i < first. lt (xs ! i)"
    and "\<forall>i. first + len \<le> i \<longrightarrow> i < length xs \<longrightarrow> \<not> lt (xs ! i)"
  defines "p \<equiv> lower_bound_loop lt xs first len"
  shows "(\<forall>i < p. lt (xs ! i)) \<and> (\<forall>i. p \<le> i \<longrightarrow> i < length xs \<longrightarrow> \<not> lt (xs ! i))"
  unfolding p_def using assms(1-4)
proof (induction lt xs first len rule: lower_bound_loop.induct)
  case (1 lt xs first len)
  show ?case
  proof (cases "len = 0")
    case True
    then show ?thesis using "1.prems" by (simp add: lower_bound_loop.simps)
  next
    case False
    define mid where "mid = first + len div 2"
    have mid: "mid < length xs" using False "1.prems"(2) by (simp add: mid_def)
    show ?thesis
    proof (cases "lt (xs ! mid)")
      case True
      have eq: "lower_bound_loop lt xs first len = lower_bound_loop lt xs (Suc mid) (len - len div 2 - 1)"
        using False True by (simp add: lower_bound_loop.simps [of lt xs first len] Let_def mid_def)
      have lo: "\<forall>i < Suc mid. lt (xs ! i)"
        using True mid "1.prems"(1) by (metis less_Suc_eq_le partitioned_def)
      have e: "Suc mid + (len - len div 2 - 1) = first + len" using False by (simp add: mid_def)
      show ?thesis unfolding eq
        by (rule "1.IH"(1) [OF False refl mid_def True "1.prems"(1) _ lo])
          (use "1.prems"(2,4) in \<open>simp_all only: e\<close>)
    next
      case nl: False
      have eq: "lower_bound_loop lt xs first len = lower_bound_loop lt xs first (len div 2)"
        using False nl by (simp add: lower_bound_loop.simps [of lt xs first len] Let_def mid_def)
      have hi: "\<forall>i. first + len div 2 \<le> i \<longrightarrow> i < length xs \<longrightarrow> \<not> lt (xs ! i)"
        using nl "1.prems"(1) unfolding mid_def by (metis partitioned_def)
      have "first + len div 2 \<le> length xs" using mid by (simp add: mid_def)
      then show ?thesis unfolding eq
        by (rule "1.IH"(2) [OF False refl mid_def nl "1.prems"(1) _ "1.prems"(3) hi])
    qed
  qed
qed

lemma lower_bound_le_length [simp]: "lower_bound lt xs \<le> length xs"
  using lower_bound_loop_range [of 0 "length xs" xs lt] by (simp add: lower_bound_def)

lemma lower_bound_split:
  assumes "partitioned lt xs"
  shows "i < lower_bound lt xs \<Longrightarrow> lt (xs ! i)"
    and "lower_bound lt xs \<le> i \<Longrightarrow> i < length xs \<Longrightarrow> \<not> lt (xs ! i)"
  using lower_bound_loop_split [OF assms, of 0 "length xs"] by (simp_all add: lower_bound_def)

lemma lower_bound_take_drop:
  assumes "partitioned lt xs"
  shows "\<forall>x \<in> set (take (lower_bound lt xs) xs). lt x"
    and "\<forall>x \<in> set (drop (lower_bound lt xs) xs). \<not> lt x"
  using lower_bound_split [OF assms] by (auto simp: in_set_conv_nth)

lemma partitioned_sorted:
  "sorted (map key xs) \<Longrightarrow> partitioned (\<lambda>a. key a < (v::'k::linorder)) xs"
  unfolding partitioned_def sorted_iff_nth_mono by (metis length_map nth_map le_less_trans order.strict_trans2)

text \<open>\<open>vector::insert(pos, v)\<close> and \<open>vector::erase(pos)\<close>.\<close>

definition insert_at :: "nat \<Rightarrow> 'a \<Rightarrow> 'a list \<Rightarrow> 'a list" where
  "insert_at p v xs = take p xs @ v # drop p xs"

definition erase_at :: "nat \<Rightarrow> 'a list \<Rightarrow> 'a list" where
  "erase_at p xs = take p xs @ drop (Suc p) xs"

lemma mset_insert_at [simp]: "mset (insert_at p v xs) = add_mset v (mset xs)"
proof -
  have "mset xs = mset (take p xs) + mset (drop p xs)"
    by (metis append_take_drop_id mset_append)
  then show ?thesis by (simp add: insert_at_def)
qed

lemma mset_erase_at: "p < length xs \<Longrightarrow> add_mset (xs ! p) (mset (erase_at p xs)) = mset xs"
proof -
  assume "p < length xs"
  then have "xs = take p xs @ xs ! p # drop (Suc p) xs" by (rule id_take_nth_drop)
  then have "mset xs = mset (take p xs @ xs ! p # drop (Suc p) xs)" by (rule arg_cong)
  then show ?thesis by (simp add: erase_at_def)
qed

lemma sorted_erase_at: "sorted (map key xs) \<Longrightarrow> sorted (map key (erase_at p xs))"
proof -
  assume "sorted (map key xs)"
  then have "sorted (map key (take p xs) @ map key (drop p xs))"
    by (metis append_take_drop_id map_append)
  moreover have "sorted (map key (drop (Suc p) xs))" 
    using \<open>sorted (map key xs)\<close> by (simp add: drop_map [symmetric] sorted_wrt_drop)
  moreover have "set (drop (Suc p) xs) \<subseteq> set (drop p xs)" by (rule set_drop_subset_set_drop) simp
  ultimately show ?thesis by (auto simp: erase_at_def sorted_append)
qed

lemma sorted_insert_at_lower_bound:
  assumes "sorted (map key xs)"
  shows "sorted (map key (insert_at (lower_bound (\<lambda>a. key a < key v) xs) v xs))"
proof -
  let ?p = "lower_bound (\<lambda>a. key a < key v) xs"
  note split = lower_bound_split [OF partitioned_sorted [OF assms, of "key v"]]
  have s: "sorted (map key (take ?p xs) @ map key (drop ?p xs))"
    using assms by (metis append_take_drop_id map_append)
  have lo: "key a < key v" if "a \<in> set (take ?p xs)" for a
  proof -
    from that obtain i where "i < ?p" "a = xs ! i" by (auto simp: in_set_conv_nth)
    then show ?thesis using split(1) by blast
  qed
  have hi: "key v \<le> key a" if a: "a \<in> set (drop ?p xs)" for a
  proof -
    from a obtain i where "i < length xs - ?p" "a = xs ! (?p + i)" by (auto simp: in_set_conv_nth)
    then have "?p + i < length xs" "a = xs ! (?p + i)" by simp_all
    then show ?thesis using split(2) [of "?p + i"] by (simp add: not_less)
  qed
  have parts: "sorted (map key (take ?p xs))" "sorted (map key (drop ?p xs))"
    and mid: "\<forall>a \<in> set (take ?p xs). \<forall>b \<in> set (drop ?p xs). key a \<le> key b"
    using s by (auto simp only: sorted_append set_map ball_simps)
  have "\<forall>a \<in> set (take ?p xs). key a \<le> key v" "\<forall>b \<in> set (drop ?p xs). key v \<le> key b"
    using lo hi by (blast intro: less_imp_le)+
  with parts mid show ?thesis
    unfolding insert_at_def map_append list.map sorted_append sorted_simps set_map list.set
    by blast
qed

text \<open>\<open>std::binary_search\<close> of a pointer in a sorted pointer vector.\<close>

definition binary_search :: "nat list \<Rightarrow> nat \<Rightarrow> bool" where
  "binary_search xs v = (let p = lower_bound (\<lambda>a. a < v) xs in p < length xs \<and> \<not> v < xs ! p)"

lemma binary_search_iff:
  assumes "sorted xs"
  shows "binary_search xs v \<longleftrightarrow> v \<in> set xs"
proof -
  have "partitioned (\<lambda>a. a < v) xs" using partitioned_sorted [of id xs v] assms by simp
  note split = lower_bound_split [OF this]
  let ?p = "lower_bound (\<lambda>a. a < v) xs"
  show ?thesis
  proof
    assume "binary_search xs v"
    then have "?p < length xs" "\<not> v < xs ! ?p" by (simp_all add: binary_search_def Let_def)
    then show "v \<in> set xs" using split(2) [of ?p] by (metis nat_neq_iff nth_mem order_refl)
  next
    assume "v \<in> set xs"
    then obtain i where i: "i < length xs" "xs ! i = v" by (auto simp: in_set_conv_nth)
    then have pi: "?p \<le> i" using split(1) [of i] by (metis less_irrefl not_le)
    then have "xs ! ?p \<le> v" using i assms by (metis sorted_nth_mono)
    with i pi show "binary_search xs v" by (simp add: binary_search_def Let_def)
  qed
qed

section \<open>The interface of a sorted insertion\<close>

text \<open>
  \<open>BoundBox::Insert\<close> (sector pointers) and \<open>Sector::Insert\<close> (food) promise the same: the vector
  stays sorted by its key and gains exactly the new element.
\<close>

locale sorted_vector =
  fixes ins :: "'a \<Rightarrow> 'a list \<Rightarrow> 'a list" and key :: "'a \<Rightarrow> 'k::linorder"
  assumes ins_sorted: "sorted (map key xs) \<Longrightarrow> sorted (map key (ins v xs))"
    and ins_mset: "mset (ins v xs) = add_mset v (mset xs)"
begin

lemma ins_set: "set (ins v xs) = insert v (set xs)"
  using ins_mset [of v xs] by (metis set_mset_add_mset_insert set_mset_mset)

lemma ins_length: "length (ins v xs) = Suc (length xs)"
  using ins_mset [of v xs] by (metis size_add_mset size_mset)

lemma ins_distinct: "distinct (ins v xs) \<longleftrightarrow> v \<notin> set xs \<and> distinct xs"
  by (metis card_distinct distinct_card ins_length ins_set length_Cons list.simps(15) distinct.simps(2))

lemma fold_ins_sorted: "sorted (map key xs) \<Longrightarrow> sorted (map key (fold ins vs xs))"
  by (induction vs arbitrary: xs) (simp_all add: ins_sorted)

lemma fold_ins_mset: "mset (fold ins vs xs) = mset vs + mset xs"
  by (induction vs arbitrary: xs) (simp_all add: ins_mset)

end

end
