(* ===== verification/GameMath.thy ===== *)
theory GameMath
  imports Prelude
begin

text \<open>
  \<open>src/src/game/config.h\<close>, \<open>food.h\<close> and \<open>math.h\<close>/\<open>math.cc\<close>: the constants of the world, the
  food record and the geometry the collision tests are made of.

  Arithmetic on \<open>uint16_t\<close> constants promotes to \<open>int\<close>, so the constants are integers here; where
  the code converts one to \<open>float\<close>, the model writes \<open>fl\<close>.
\<close>

section \<open>Configuration (config.h)\<close>

record WorldConfig =
  bots :: u16
  snake_average_length :: u16
  snake_min_length :: u16

definition default_WorldConfig :: WorldConfig where
  "default_WorldConfig = \<lparr>bots = 0, snake_average_length = 2, snake_min_length = 2\<rparr>"

definition game_radius :: int where "game_radius = 21600"
definition max_snake_parts :: int where "max_snake_parts = 411"
definition sector_size :: int where "sector_size = 300"
definition sector_count_along_edge :: int where
  "sector_count_along_edge = 2 * game_radius div sector_size"
definition death_radius :: int where "death_radius = game_radius - sector_size"
definition sector_diag_size :: int where "sector_diag_size = 425"
definition move_step_distance :: int where "move_step_distance = 42"
definition frame_time_ms :: int where "frame_time_ms = 8"
definition protocol_version :: u8 where "protocol_version = 8"

lemmas config_defs = game_radius_def max_snake_parts_def sector_size_def
  sector_count_along_edge_def death_radius_def sector_diag_size_def move_step_distance_def
  frame_time_ms_def

section \<open>Food (food.h)\<close>

record Food =
  food_x :: u16
  food_y :: u16
  food_size :: u8
  food_color :: u8

type_synonym FoodSeq = "Food list"

definition mk_food :: "u16 \<Rightarrow> u16 \<Rightarrow> u8 \<Rightarrow> u8 \<Rightarrow> Food" where
  "mk_food x y s c = \<lparr>food_x = x, food_y = y, food_size = s, food_color = c\<rparr>"

section \<open>Math (math.h, math.cc)\<close>

definition f_pi :: flt where "f_pi = lit 314159265358979323846 100000000000000000000"
definition f_2pi :: flt where "f_2pi = fl 2 * f_pi"

definition normalize_angle :: "flt \<Rightarrow> flt" where
  "normalize_angle ang = ang - f_2pi * floorf (ang / f_2pi)"

definition intersect_segments ::
  "flt \<Rightarrow> flt \<Rightarrow> flt \<Rightarrow> flt \<Rightarrow> flt \<Rightarrow> flt \<Rightarrow> flt \<Rightarrow> flt \<Rightarrow> bool" where
  "intersect_segments p0_x p0_y p1_x p1_y p2_x p2_y p3_x p3_y =
    (let s1_x = p1_x - p0_x; s1_y = p1_y - p0_y;
         s2_x = p3_x - p2_x; s2_y = p3_y - p2_y;
         d = (- s2_x) * s1_y + s1_x * s2_y;
         epsilon = lit 1 10000
     in if d \<le> epsilon \<and> - epsilon \<le> d then False
        else let s = (- s1_y) * (p0_x - p2_x) + s1_x * (p0_y - p2_y)
          in if s < fl 0 \<or> d < s then False
             else let t = s2_x * (p0_y - p2_y) - s2_y * (p0_x - p2_x)
               in \<not> (t < fl 0 \<or> d < t))"

text \<open>The point-to-point distance in \<open>float\<close>.\<close>

definition distance_squared :: "flt \<Rightarrow> flt \<Rightarrow> flt \<Rightarrow> flt \<Rightarrow> flt" where
  "distance_squared p0_x p0_y p1_x p1_y =
    (let dx = p0_x - p1_x; dy = p0_y - p1_y in dx * dx + dy * dy)"

text \<open>The overload for \<open>uint16_t\<close>: \<open>int32_t\<close> products and sums, where overflow is undefined.\<close>

definition i32 :: "int \<Rightarrow> int option" where
  "i32 n = (if - 2147483648 \<le> n \<and> n \<le> 2147483647 then Some n else None)"

definition distance_squared_u16 :: "u16 \<Rightarrow> u16 \<Rightarrow> u16 \<Rightarrow> u16 \<Rightarrow> int option" where
  "distance_squared_u16 p0_x p0_y p1_x p1_y =
    (let dx = uint p0_x - uint p1_x; dy = uint p0_y - uint p1_y
     in do { xx \<leftarrow> i32 (dx * dx); yy \<leftarrow> i32 (dy * dy); i32 (xx + yy) })"

text \<open>
  Distance from the point \<open>p\<close> to the segment \<open>vw\<close>. The branch for a degenerate segment passes
  \<open>w_x\<close> twice (math.cc:32), as the source does.
\<close>

definition distance_squared_segment ::
  "flt \<Rightarrow> flt \<Rightarrow> flt \<Rightarrow> flt \<Rightarrow> flt \<Rightarrow> flt \<Rightarrow> flt" where
  "distance_squared_segment v_x v_y w_x w_y p_x p_y =
    (let l2 = distance_squared v_x v_y w_x w_y
     in if feq l2 (fl 0) then distance_squared p_x p_y w_x w_x
        else let t = ((p_x - v_x) * (w_x - v_x) + (p_y - v_y) * (w_y - v_y)) / l2;
                 t' = fmaxf (fl 0) (fminf (fl 1) t)
          in distance_squared p_x p_y (v_x + t' * (w_x - v_x)) (v_y + t' * (w_y - v_y)))"

definition intersect_circle :: "flt \<Rightarrow> flt \<Rightarrow> flt \<Rightarrow> flt \<Rightarrow> flt \<Rightarrow> bool" where
  "intersect_circle c_x c_y p_x p_y r = (distance_squared c_x c_y p_x p_y \<le> r * r)"

text \<open>
  The bit pattern of a \<open>float\<close> and back, for the two approximations that reinterpret it as an
  \<open>int\<close>. All NaNs share one pattern.
\<close>

definition float_bits :: "flt \<Rightarrow> u32" where
  "float_bits x = (case x of
     NaN \<Rightarrow> 0x7FC00000
   | Inf s \<Rightarrow> (if s then 0xFF800000 else 0x7F800000)
   | Fin s m e \<Rightarrow> (if s then 0x80000000 else 0) +
       (if m < 8388608 then word_of_int m else word_of_int ((e + 150) * 8388608 + (m - 8388608))))"

definition bits_float :: "u32 \<Rightarrow> flt" where
  "bits_float w =
    (let n = uint w; s = n \<ge> 2147483648; ex = n div 8388608 mod 256; fr = n mod 8388608
     in if ex = 255 then (if fr = 0 then Inf s else NaN)
        else if ex = 0 then Fin s fr (- 149)
        else Fin s (fr + 8388608) (ex - 150))"


definition fast_inv_sqrt :: "flt \<Rightarrow> flt option" where
  "fast_inv_sqrt x =
    (let xhalf = lit 1 2 * x
     in do { tmp \<leftarrow> i32 (0x5f3759df - sint (float_bits x) div 2);
             let v = bits_float (word_of_int tmp);
             Some (v * (lit 3 2 - xhalf * v * v)) })"

section \<open>Exact integer arithmetic in \<open>float\<close>\<close>

text \<open>\<open>exact n x\<close>: the float \<open>x\<close> is the integer \<open>n\<close>. Small integers stay exact under every operator.\<close>

definition exact :: "int \<Rightarrow> flt \<Rightarrow> bool" where
  "exact n x \<longleftrightarrow> isfin x \<and> fval x = of_int n"

lemma exact_unique: "exact a x \<Longrightarrow> exact n x = (n = a)"
  by (auto simp: exact_def)

lemma exact_fl: "\<bar>n\<bar> \<le> 16777216 \<Longrightarrow> exact n (fl n)"
  by (simp add: exact_def fl_value)

lemma of_int_le_top: "\<bar>n\<bar> \<le> 16777216 \<Longrightarrow> \<bar>of_int n :: real\<bar> \<le> top_pow single"
  using top_single by linarith

lemma exact_add: "exact a x \<Longrightarrow> exact b y \<Longrightarrow> \<bar>a + b\<bar> \<le> 16777216 \<Longrightarrow> exact (a + b) (x + y)"
  using add_value [of x y] of_int_le_top [of "a + b"] rnd_of_exact grid_single_int [of "a + b"]
  by (auto simp: exact_def)

lemma exact_diff: "exact a x \<Longrightarrow> exact b y \<Longrightarrow> \<bar>a - b\<bar> \<le> 16777216 \<Longrightarrow> exact (a - b) (x - y)"
  using diff_value [of x y] of_int_le_top [of "a - b"] rnd_of_exact grid_single_int [of "a - b"]
  by (auto simp: exact_def)

lemma exact_mult: "exact a x \<Longrightarrow> exact b y \<Longrightarrow> \<bar>a * b\<bar> \<le> 16777216 \<Longrightarrow> exact (a * b) (x * y)"
  using mult_value [of x y] of_int_le_top [of "a * b"] rnd_of_exact grid_single_int [of "a * b"]
  by (auto simp: exact_def)

lemma exact_neg: "exact a x \<Longrightarrow> exact (- a) (- x)"
  by (simp add: exact_def uminus_flt_def)

lemma exact_less: "exact a x \<Longrightarrow> exact b y \<Longrightarrow> (x < y) = (a < b)"
  by (simp add: exact_def less_value)

lemma exact_le: "exact a x \<Longrightarrow> exact b y \<Longrightarrow> (x \<le> y) = (a \<le> b)"
  by (simp add: exact_def le_value)

lemma product_bound:
  assumes "\<bar>a\<bar> \<le> m" "\<bar>b\<bar> \<le> n"
  shows "\<bar>a * b\<bar> \<le> m * (n::int)"
  using mult_mono [OF assms] assms(1) by (simp add: abs_mult)

lemma exact_mult_bound:
  "exact a x \<Longrightarrow> exact b y \<Longrightarrow> \<bar>a\<bar> \<le> m \<Longrightarrow> \<bar>b\<bar> \<le> n \<Longrightarrow> m * n \<le> 16777216 \<Longrightarrow> exact (a * b) (x * y)"
  using product_bound [of a m b n] by (intro exact_mult) auto

lemma i32_nonneg: "0 \<le> n \<Longrightarrow> i32 n = (if n \<le> 2147483647 then Some n else None)"
  by (simp add: i32_def)

section \<open>Properties\<close>

text \<open>
  C36: on points with integer coordinates up to 1400 and an integer radius up to 4096 the float test
  \<open>intersect_circle\<close> is the exact geometric one.
\<close>

theorem intersect_circle_exact:
  assumes "\<forall>n \<in> {a, b, c, d}. \<bar>n\<bar> \<le> 1400" "\<bar>r\<bar> \<le> 4096"
  shows "intersect_circle (fl a) (fl b) (fl c) (fl d) (fl r) \<longleftrightarrow> (a - c)\<^sup>2 + (b - d)\<^sup>2 \<le> r\<^sup>2"
proof -
  have b: "\<bar>a - c\<bar> \<le> 2800" "\<bar>b - d\<bar> \<le> 2800" using assms(1) by auto
  have x: "exact (a - c) (fl a - fl c)" "exact (b - d) (fl b - fl d)"
    using assms(1) by (auto intro!: exact_diff exact_fl)
  have xx: "exact ((a - c) * (a - c)) ((fl a - fl c) * (fl a - fl c))"
    "exact ((b - d) * (b - d)) ((fl b - fl d) * (fl b - fl d))"
    using exact_mult_bound [OF x(1) x(1) b(1) b(1)] exact_mult_bound [OF x(2) x(2) b(2) b(2)] by simp_all
  have "\<bar>(a - c) * (a - c) + (b - d) * (b - d)\<bar> \<le> 16777216"
    using product_bound [OF b(1) b(1)] product_bound [OF b(2) b(2)] by simp
  then have "exact ((a - c) * (a - c) + (b - d) * (b - d))
    ((fl a - fl c) * (fl a - fl c) + (fl b - fl d) * (fl b - fl d))"
    by (intro exact_add xx)
  moreover have "exact (r * r) (fl r * fl r)"
    using exact_mult_bound [of r "fl r" r "fl r" 4096 4096] assms(2) exact_fl [of r] by simp
  ultimately show ?thesis
    by (simp add: intersect_circle_def distance_squared_def Let_def exact_le power2_eq_square)
qed

theorem intersect_circle_exact_witness:
  "intersect_circle (fl 10) (fl 20) (fl 13) (fl 24) (fl 5) \<and> \<not> intersect_circle (fl 10) (fl 20) (fl 13) (fl 25) (fl 5)"
  using intersect_circle_exact [of 10 20 13 24 5] intersect_circle_exact [of 10 20 13 25 5] by simp

text \<open>
  C37: the integer distance of two food or head positions is defined, and then exact, precisely when
  it fits an \<open>int32_t\<close>; positions less than 32768 apart on each axis are always safe.
\<close>

theorem distance_squared_u16_defined:
  "distance_squared_u16 a b c d = Some n \<longleftrightarrow>
     n = (uint a - uint c)\<^sup>2 + (uint b - uint d)\<^sup>2 \<and> n \<le> 2147483647"
proof -
  have sq: "0 \<le> (uint a - uint c)\<^sup>2" "0 \<le> (uint b - uint d)\<^sup>2" by simp_all
  show ?thesis
  proof (cases "(uint a - uint c)\<^sup>2 + (uint b - uint d)\<^sup>2 \<le> 2147483647")
    case True
    then have "(uint a - uint c)\<^sup>2 \<le> 2147483647" "(uint b - uint d)\<^sup>2 \<le> 2147483647" using sq by linarith+
    with True sq show ?thesis
      by (auto simp: distance_squared_u16_def Let_def i32_nonneg power2_eq_square [symmetric])
  next
    case False
    then show ?thesis using sq
      by (auto simp: distance_squared_u16_def Let_def i32_nonneg power2_eq_square [symmetric]
          bind_eq_Some_conv split: if_splits)
  qed
qed

lemma cross_nonzero_params:
  fixes a b c d e f :: real
  assumes "D = a * d - c * b" "D \<noteq> 0"
  shows "(u * a - t * b = e \<and> u * c - t * d = f) \<longleftrightarrow> (u * D = d * e - b * f \<and> t * D = c * e - a * f)"
proof
  assume h: "u * a - t * b = e \<and> u * c - t * d = f"
  then have e: "e = u * a - t * b" and f: "f = u * c - t * d" by simp_all
  show "u * D = d * e - b * f \<and> t * D = c * e - a * f"
    unfolding e f assms(1) by (simp add: algebra_simps)
next
  assume h: "u * D = d * e - b * f \<and> t * D = c * e - a * f"
  have "D * (u * a - t * b) = (u * D) * a - (t * D) * b" by (simp add: algebra_simps)
  also have "\<dots> = (d * e - b * f) * a - (c * e - a * f) * b" by (simp only: h)
  also have "\<dots> = D * e" by (simp add: assms(1) algebra_simps)
  finally have 1: "u * a - t * b = e" using assms(2) by simp
  have "D * (u * c - t * d) = (u * D) * c - (t * D) * d" by (simp add: algebra_simps)
  also have "\<dots> = (d * e - b * f) * c - (c * e - a * f) * d" by (simp only: h)
  also have "\<dots> = D * f" by (simp add: assms(1) algebra_simps)
  finally have "u * c - t * d = f" using assms(2) by simp
  with 1 show "u * a - t * b = e \<and> u * c - t * d = f" by simp
qed

lemma unit_param: "0 < (D::real) \<Longrightarrow> (\<exists>u. 0 \<le> u \<and> u \<le> 1 \<and> u * D = v) \<longleftrightarrow> 0 \<le> v \<and> v \<le> D"
  by (auto simp: zero_le_mult_iff mult_left_le_one_le intro!: exI [of _ "v / D"])

lemma epsilon_band:
  assumes "exact n x"
  shows "(x \<le> lit 1 10000) = (n \<le> 0)" "(- lit 1 10000 \<le> x) = (0 \<le> n)"
proof -
  have e: "lit 1 10000 = Fin False 13743895 (- 37)" by code_simp
  have f: "isfin (lit 1 10000)" "0 < fval (lit 1 10000)" "fval (lit 1 10000) < 1"
    by (simp_all add: e power_int_def power_divide)
  have "isfin (- lit 1 10000)" "fval (- lit 1 10000) = - fval (lit 1 10000)"
    using f(1) by (simp_all add: uminus_flt_def)
  then have "(x \<le> lit 1 10000) = (of_int n \<le> fval (lit 1 10000))"
    "(- lit 1 10000 \<le> x) = (- fval (lit 1 10000) \<le> of_int n)"
    using assms f(1) by (simp_all add: exact_def le_value)
  moreover have "(of_int n \<le> fval (lit 1 10000)) = (n \<le> 0)"
  proof
    assume "of_int n \<le> fval (lit 1 10000)"
    then have "of_int n < (1::real)" using f(3) by linarith
    then show "n \<le> 0" by simp
  qed (use f(2) in \<open>simp add: order_trans [of _ 0]\<close>)
  moreover have "(- fval (lit 1 10000) \<le> of_int n) = (0 \<le> n)"
  proof
    assume "- fval (lit 1 10000) \<le> of_int n"
    then have "(-1::real) < of_int n" using f(3) by linarith
    then show "0 \<le> n" by simp
  qed (use f(2) in \<open>simp add: order_trans [of _ 0]\<close>)
  ultimately show "(x \<le> lit 1 10000) = (n \<le> 0)" "(- lit 1 10000 \<le> x) = (0 \<le> n)" by simp_all
qed

text \<open>
  C38: on segments with integer end points up to 1000, \<open>intersect_segments\<close> answers yes exactly when
  the cross product of the directions is positive and the segments share a point: a
  crossing with a negative cross product is never reported.
\<close>

theorem intersect_segments_exact:
  fixes x0 y0 x1 y1 x2 y2 x3 y3 :: int
  assumes "\<forall>n \<in> {x0, y0, x1, y1, x2, y2, x3, y3}. \<bar>n\<bar> \<le> 1000"
  shows "intersect_segments (fl x0) (fl y0) (fl x1) (fl y1) (fl x2) (fl y2) (fl x3) (fl y3) \<longleftrightarrow>
    0 < (x1 - x0) * (y3 - y2) - (y1 - y0) * (x3 - x2) \<and>
    (\<exists>(u::real) (t::real). 0 \<le> u \<and> u \<le> 1 \<and> 0 \<le> t \<and> t \<le> 1 \<and>
      x0 + u * (x1 - x0) = x2 + t * (x3 - x2) \<and> y0 + u * (y1 - y0) = y2 + t * (y3 - y2))"
proof -
  define a b c d e f where "a = x1 - x0" and "b = x3 - x2" and "c = y1 - y0" and "d = y3 - y2"
    and "e = x0 - x2" and "f = y0 - y2"
  note defs = a_def b_def c_def d_def e_def f_def
  define D S T where "D = (- b) * c + a * d" and "S = (- c) * e + a * f" and "T = b * f - d * e"
  have co: "\<bar>x0\<bar> \<le> 1000" "\<bar>y0\<bar> \<le> 1000" "\<bar>x1\<bar> \<le> 1000" "\<bar>y1\<bar> \<le> 1000"
    "\<bar>x2\<bar> \<le> 1000" "\<bar>y2\<bar> \<le> 1000" "\<bar>x3\<bar> \<le> 1000" "\<bar>y3\<bar> \<le> 1000"
    using assms by simp_all
  have dif: "\<bar>p - q\<bar> \<le> 2000 \<and> exact (p - q) (fl p - fl q)" if "\<bar>p\<bar> \<le> 1000" "\<bar>q\<bar> \<le> 1000" for p q
    using that by (auto intro!: exact_diff exact_fl)
  note ab = dif [OF co(3,1), folded a_def] dif [OF co(7,5), folded b_def] dif [OF co(4,2), folded c_def]
    dif [OF co(8,6), folded d_def] dif [OF co(1,5), folded e_def] dif [OF co(2,6), folded f_def]
  have prod: "\<bar>p * q\<bar> \<le> 4000000 \<and> exact (p * q) (x * y)"
    if "\<bar>p\<bar> \<le> 2000 \<and> exact p x" "\<bar>q\<bar> \<le> 2000 \<and> exact q y" for p q x y
    using that product_bound [of p 2000 q 2000] exact_mult_bound [of p x q y 2000 2000] by simp
  have neg: "\<bar>- p\<bar> \<le> 2000 \<and> exact (- p) (- x)" if "\<bar>p\<bar> \<le> 2000 \<and> exact p x" for p x
    using that exact_neg [of p x] by simp
  have sum: "exact (p + q) (x + y)" "exact (p - q) (x - y)"
    if "\<bar>p\<bar> \<le> 4000000 \<and> exact p x" "\<bar>q\<bar> \<le> 4000000 \<and> exact q y" for p q x y
    using that by (auto intro!: exact_add exact_diff)
  have exD: "exact D ((- (fl x3 - fl x2)) * (fl y1 - fl y0) + (fl x1 - fl x0) * (fl y3 - fl y2))"
    unfolding D_def by (intro sum prod neg ab)
  have exS: "exact S ((- (fl y1 - fl y0)) * (fl x0 - fl x2) + (fl x1 - fl x0) * (fl y0 - fl y2))"
    unfolding S_def by (intro sum prod neg ab)
  have exT: "exact T ((fl x3 - fl x2) * (fl y0 - fl y2) - (fl y3 - fl y2) * (fl x0 - fl x2))"
    unfolding T_def by (intro sum prod ab)
  have ex0: "exact 0 (fl 0)" by (rule exact_fl) simp
  have code: "intersect_segments (fl x0) (fl y0) (fl x1) (fl y1) (fl x2) (fl y2) (fl x3) (fl y3) =
    (D \<noteq> 0 \<and> 0 \<le> S \<and> S \<le> D \<and> 0 \<le> T \<and> T \<le> D)"
    using epsilon_band [OF exD] exact_less [OF exS ex0] exact_less [OF exD exS]
      exact_less [OF exT ex0] exact_less [OF exD exT]
    by (simp add: intersect_segments_def Let_def) linarith
  have Deq: "(x1 - x0) * (y3 - y2) - (y1 - y0) * (x3 - x2) = D"
    by (simp add: D_def defs algebra_simps)
  show ?thesis
  proof (cases "0 < D")
    case False
    then have "\<not> (D \<noteq> 0 \<and> 0 \<le> S \<and> S \<le> D \<and> 0 \<le> T \<and> T \<le> D)" by linarith
    with False show ?thesis unfolding code Deq by simp
  next
    case True
    then have R: "(0::real) < of_int D" by simp
    have DR: "real_of_int D = of_int a * of_int d - of_int c * of_int b"
      by (simp add: D_def)
    have "(x0 + u * (x1 - x0) = x2 + t * (x3 - x2) \<and> y0 + u * (y1 - y0) = y2 + t * (y3 - y2)) =
      (u * of_int D = of_int T \<and> t * of_int D = of_int S)" for u t :: real
    proof -
      have "(x0 + u * (x1 - x0) = x2 + t * (x3 - x2) \<and> y0 + u * (y1 - y0) = y2 + t * (y3 - y2)) =
        (u * of_int a - t * of_int b = - of_int e \<and> u * of_int c - t * of_int d = - of_int f)"
        unfolding defs of_int_diff minus_diff_eq by (intro arg_cong2 [of _ _ _ _ "(\<and>)"]) argo+
      also have "\<dots> = (u * of_int D = of_int T \<and> t * of_int D = of_int S)"
        using cross_nonzero_params [OF DR, of u t "- of_int e" "- of_int f"] R
        by (simp add: T_def S_def algebra_simps)
      finally show ?thesis .
    qed
    then have "(\<exists>(u::real) (t::real). 0 \<le> u \<and> u \<le> 1 \<and> 0 \<le> t \<and> t \<le> 1 \<and>
      x0 + u * (x1 - x0) = x2 + t * (x3 - x2) \<and> y0 + u * (y1 - y0) = y2 + t * (y3 - y2)) \<longleftrightarrow>
      (\<exists>u. 0 \<le> u \<and> u \<le> 1 \<and> u * of_int D = real_of_int T) \<and> (\<exists>t. 0 \<le> t \<and> t \<le> 1 \<and> t * of_int D = real_of_int S)"
      by auto
    also have "\<dots> \<longleftrightarrow> 0 \<le> T \<and> T \<le> D \<and> 0 \<le> S \<and> S \<le> D"
      unfolding unit_param [OF R] by simp
    finally show ?thesis unfolding code Deq using True by auto
  qed
qed

theorem intersect_segments_exact_witness:
  "intersect_segments (fl 0) (fl 0) (fl 2) (fl 2) (fl 2) (fl 0) (fl 0) (fl 2) \<and>
   \<not> intersect_segments (fl 0) (fl 0) (fl 2) (fl 2) (fl 0) (fl 2) (fl 2) (fl 0)"
proof
  show "intersect_segments (fl 0) (fl 0) (fl 2) (fl 2) (fl 2) (fl 0) (fl 0) (fl 2)"
    using intersect_segments_exact [of 0 0 2 2 2 0 0 2] by (auto intro!: exI [of _ "1 / 2 :: real"])
  show "\<not> intersect_segments (fl 0) (fl 0) (fl 2) (fl 2) (fl 0) (fl 2) (fl 2) (fl 0)"
    using intersect_segments_exact [of 0 0 2 2 0 2 2 0] by simp
qed

text \<open>
  C39: the distance from a point to a degenerate segment (\<open>v = w\<close>) is measured to the point
  \<open>(w_x, w_x)\<close>: on integer points up to 1000 the value computed is exactly
  \<open>(p_x - w_x)\<^sup>2 + (p_y - w_x)\<^sup>2\<close>, which is the true distance to \<open>w\<close> only if \<open>p_y\<close> is equally far from
  \<open>w_x\<close> and from \<open>w_y\<close>.
\<close>

theorem degenerate_segment_distance:
  assumes "\<forall>n \<in> {wx, wy, px, py}. \<bar>n\<bar> \<le> 1000"
  shows "exact ((px - wx)\<^sup>2 + (py - wx)\<^sup>2)
      (distance_squared_segment (fl wx) (fl wy) (fl wx) (fl wy) (fl px) (fl py)) \<and>
    (exact ((px - wx)\<^sup>2 + (py - wy)\<^sup>2)
      (distance_squared_segment (fl wx) (fl wy) (fl wx) (fl wy) (fl px) (fl py)) \<longleftrightarrow>
    \<bar>py - wx\<bar> = \<bar>py - wy\<bar>)"
proof -
  have d: "exact ((p - r)\<^sup>2 + (q - s)\<^sup>2) (distance_squared (fl p) (fl q) (fl r) (fl s))"
    if "\<bar>p\<bar> \<le> 1000" "\<bar>q\<bar> \<le> 1000" "\<bar>r\<bar> \<le> 1000" "\<bar>s\<bar> \<le> 1000" for p q r s
  proof -
    have b: "\<bar>p - r\<bar> \<le> 2000" "\<bar>q - s\<bar> \<le> 2000" using that by auto
    have x: "exact (p - r) (fl p - fl r)" "exact (q - s) (fl q - fl s)"
      using that by (auto intro!: exact_diff exact_fl)
    show ?thesis
      using exact_add [OF exact_mult_bound [OF x(1) x(1) b(1) b(1)] exact_mult_bound [OF x(2) x(2) b(2) b(2)]]
        product_bound [OF b(1) b(1)] product_bound [OF b(2) b(2)]
      by (simp add: distance_squared_def Let_def power2_eq_square)
  qed
  have co: "\<bar>wx\<bar> \<le> 1000" "\<bar>wy\<bar> \<le> 1000" "\<bar>px\<bar> \<le> 1000" "\<bar>py\<bar> \<le> 1000" using assms by simp_all
  have "feq (distance_squared (fl wx) (fl wy) (fl wx) (fl wy)) (fl 0)"
    using d [OF co(1,2,1,2)] exact_fl [of 0] by (simp add: exact_def feq_value)
  then have "distance_squared_segment (fl wx) (fl wy) (fl wx) (fl wy) (fl px) (fl py) =
    distance_squared (fl px) (fl py) (fl wx) (fl wx)"
    by (simp add: distance_squared_segment_def Let_def)
  with d [OF co(3,4,1,1)] have e: "exact ((px - wx)\<^sup>2 + (py - wx)\<^sup>2)
    (distance_squared_segment (fl wx) (fl wy) (fl wx) (fl wy) (fl px) (fl py))" by simp
  with exact_unique [OF e] show ?thesis by (auto simp: abs_eq_iff power2_eq_iff)
qed

theorem degenerate_segment_distance_witness:
  "exact 100 (distance_squared_segment (fl 0) (fl 10) (fl 0) (fl 10) (fl 0) (fl 10)) \<and>
   \<not> exact 0 (distance_squared_segment (fl 0) (fl 10) (fl 0) (fl 10) (fl 0) (fl 10))"
  using degenerate_segment_distance [of 0 10 0 10] by simp







end
