(* ===== verification/Sectors.thy ===== *)
theory Sectors
  imports GameMath
begin

text \<open>
  \<open>src/src/game/sector.h\<close> and \<open>sector.cc\<close>: the sector grid, the bounding box of a snake that is
  registered in the sectors it touches, and the view port of a player.

  The vector of sectors never grows after \<open>InitSectors\<close>, so a \<open>Sector *\<close> is an index into it, and
  pointer order is index order. A \<open>BoundBox *\<close> held by a sector is the address of the owning
  snake's object together with the box's \<open>id\<close>: both are fixed before the box is first registered.
  Record extension mirrors the class hierarchy \<open>BoundBoxPos\<close>, \<open>BoundBox\<close>, \<open>ViewPort\<close>.
\<close>

section \<open>Data\<close>

record BoundBoxPos =
  pos_x :: flt
  pos_y :: flt
  pos_r :: flt

record BoundBox = BoundBoxPos +
  bb_id :: u16
  bb_snake :: addr
  bb_sectors :: "nat list"

record ViewPort = BoundBox +
  new_sectors :: "nat list"
  old_sectors :: "nat list"

type_synonym SnakeBoundBox = BoundBox

record bb_ref =
  ref_snake :: addr
  ref_id :: u16

record Sector =
  sec_x :: u8
  sec_y :: u8
  sec_box :: BoundBoxPos
  sec_snakes :: "bb_ref list"
  sec_food :: FoodSeq

type_synonym SectorSeq = "Sector list"

definition mk_pos :: "flt \<Rightarrow> flt \<Rightarrow> flt \<Rightarrow> BoundBoxPos" where
  "mk_pos x y r = \<lparr>pos_x = x, pos_y = y, pos_r = r\<rparr>"

definition Intersect :: "'a BoundBoxPos_scheme \<Rightarrow> 'b BoundBoxPos_scheme \<Rightarrow> bool" where
  "Intersect b bb2 = intersect_circle (pos_x b) (pos_y b) (pos_x bb2) (pos_y bb2) (pos_r b + pos_r bb2)"

text \<open>The pointer \<open>this\<close> of a registered box.\<close>

definition this_ref :: "'a BoundBox_scheme \<Rightarrow> bb_ref" where
  "this_ref b = \<lparr>ref_snake = bb_snake b, ref_id = bb_id b\<rparr>"

section \<open>Bounding boxes: the sorted vector of sectors\<close>

definition insert_sector :: "nat \<Rightarrow> nat list \<Rightarrow> nat list" where
  "insert_sector s xs =
    (let p = lower_bound (\<lambda>a. a < s) xs
     in if p \<noteq> length xs then insert_at p s xs else xs @ [s])"

definition BoundBox_Insert :: "nat \<Rightarrow> 'a BoundBox_scheme \<Rightarrow> 'a BoundBox_scheme" where
  "BoundBox_Insert s b = b\<lparr>bb_sectors := insert_sector s (bb_sectors b)\<rparr>"

text \<open>\<open>RemoveUnsorted\<close> overwrites position \<open>i\<close> with the last sector; \<open>True\<close> when one was moved.\<close>

definition RemoveUnsorted :: "nat \<Rightarrow> 'a BoundBox_scheme \<Rightarrow> bool \<times> 'a BoundBox_scheme" where
  "RemoveUnsorted i b =
    (if i + 1 \<noteq> length (bb_sectors b)
     then (True, b\<lparr>bb_sectors := butlast ((bb_sectors b)[i := last (bb_sectors b)])\<rparr>)
     else (False, b\<lparr>bb_sectors := butlast (bb_sectors b)\<rparr>))"

definition IsPresent :: "nat \<Rightarrow> 'a BoundBox_scheme \<Rightarrow> bool" where
  "IsPresent s b = binary_search (bb_sectors b) s"

definition BoundBox_Sort :: "'a BoundBox_scheme \<Rightarrow> 'a BoundBox_scheme" where
  "BoundBox_Sort b = b\<lparr>bb_sectors := sort (bb_sectors b)\<rparr>"

definition get_sectors_count :: "'a BoundBox_scheme \<Rightarrow> nat" where
  "get_sectors_count b = length (bb_sectors b)"

definition get_snakes_in_sectors_count :: "'a BoundBox_scheme \<Rightarrow> SectorSeq \<Rightarrow> nat" where
  "get_snakes_in_sectors_count b ss = fold (\<lambda>s i. i + length (sec_snakes (ss ! s))) (bb_sectors b) 0"

section \<open>Sectors: food sorted by x, registered boxes\<close>

definition mk_Sector :: "u8 \<Rightarrow> u8 \<Rightarrow> Sector" where
  "mk_Sector x y =
    (let half = sector_size div 2; r = fl sector_diag_size / fl 2
     in \<lparr>sec_x = x, sec_y = y,
         sec_box = mk_pos (fl 1 * fl (sector_size * uint x + half)) (fl 1 * fl (sector_size * uint y + half)) r,
         sec_snakes = [], sec_food = []\<rparr>)"

definition insert_food :: "Food \<Rightarrow> FoodSeq \<Rightarrow> FoodSeq" where
  "insert_food f xs =
    (let p = lower_bound (\<lambda>a. food_x a < food_x f) xs
     in if p \<noteq> length xs then insert_at p f xs else xs @ [f])"

definition Sector_Insert :: "Food \<Rightarrow> Sector \<Rightarrow> Sector" where
  "Sector_Insert f sec = sec\<lparr>sec_food := insert_food f (sec_food sec)\<rparr>"

definition Sector_Remove :: "nat \<Rightarrow> Sector \<Rightarrow> Sector" where
  "Sector_Remove i sec = sec\<lparr>sec_food := erase_at i (sec_food sec)\<rparr>"

definition FindClosestFood :: "u16 \<Rightarrow> Sector \<Rightarrow> nat" where
  "FindClosestFood fx sec = lower_bound (\<lambda>a. food_x a < fx) (sec_food sec)"

text \<open>
  \<open>std::sort\<close> leaves the order of pieces with equal \<open>x\<close> open, so the routine is an argument; what the
  standard promises of it is \<open>sort_ok\<close>.
\<close>

definition sort_ok :: "(FoodSeq \<Rightarrow> FoodSeq) \<Rightarrow> bool" where
  "sort_ok srt \<longleftrightarrow> (\<forall>fs. mset (srt fs) = mset fs \<and> sorted (map food_x (srt fs)))"

definition Sector_Sort :: "(FoodSeq \<Rightarrow> FoodSeq) \<Rightarrow> Sector \<Rightarrow> Sector" where
  "Sector_Sort srt sec = sec\<lparr>sec_food := srt (sec_food sec)\<rparr>"

definition Sector_RemoveSnake :: "u16 \<Rightarrow> Sector \<Rightarrow> Sector" where
  "Sector_RemoveSnake i sec = sec\<lparr>sec_snakes := filter (\<lambda>bb. ref_id bb \<noteq> i) (sec_snakes sec)\<rparr>"

text \<open>The grid.\<close>

definition InitSectors :: SectorSeq where
  "InitSectors = map (\<lambda>i. mk_Sector (of_int (i mod sector_count_along_edge)) (of_int (i div sector_count_along_edge)))
     [0..sector_count_along_edge * sector_count_along_edge - 1]"

definition get_index :: "u16 \<Rightarrow> u16 \<Rightarrow> nat" where
  "get_index x y = nat (uint y * sector_count_along_edge + uint x)"

text \<open>\<open>operator[]\<close> past the end is undefined.\<close>

definition get_sector :: "SectorSeq \<Rightarrow> u16 \<Rightarrow> u16 \<Rightarrow> nat option" where
  "get_sector ss x y = (if get_index x y < length ss then Some (get_index x y) else None)"

section \<open>Moving a box over the grid\<close>

definition InsertSortedWithReg :: "nat \<Rightarrow> SnakeBoundBox \<times> SectorSeq \<Rightarrow> SnakeBoundBox \<times> SectorSeq" where
  "InsertSortedWithReg s bs = (case bs of (b, ss) \<Rightarrow>
     (BoundBox_Insert s b, ss[s := (ss ! s)\<lparr>sec_snakes := sec_snakes (ss ! s) @ [this_ref b]\<rparr>]))"

definition RegNewSectorIfMissing :: "nat \<Rightarrow> ViewPort \<Rightarrow> ViewPort" where
  "RegNewSectorIfMissing s v =
    (if s \<in> set (new_sectors v) then v else v\<lparr>new_sectors := new_sectors v @ [s]\<rparr>)"

definition RegOldSectorIfMissing :: "nat \<Rightarrow> ViewPort \<Rightarrow> ViewPort" where
  "RegOldSectorIfMissing s v =
    (if s \<in> set (old_sectors v) then v else v\<lparr>old_sectors := old_sectors v @ [s]\<rparr>)"

definition InsertSortedWithDelta :: "nat \<Rightarrow> ViewPort \<Rightarrow> ViewPort" where
  "InsertSortedWithDelta s v = RegNewSectorIfMissing s (BoundBox_Insert s v)"

text \<open>The sector coordinate of a position, \<open>static_cast<int16_t>(c / sector_size)\<close>.\<close>

definition sector_coord :: "flt \<Rightarrow> int option" where
  "sector_coord c = to_i16 (c / fl sector_size)"

text \<open>The cells visited by the two nested loops, in their order.\<close>

definition cells_around :: "int \<Rightarrow> int \<Rightarrow> int \<Rightarrow> (int \<times> int) list" where
  "cells_around w sx sy = concat (map (\<lambda>j. map (\<lambda>i. (i, j)) [sx - w..sx + w]) [sy - w..sy + w])"

definition on_map :: "int \<Rightarrow> int \<Rightarrow> bool" where
  "on_map i j \<longleftrightarrow> 0 \<le> i \<and> i < sector_count_along_edge \<and> 0 \<le> j \<and> j < sector_count_along_edge"

definition sbb_visit ::
  "BoundBoxPos \<Rightarrow> int \<times> int \<Rightarrow> SnakeBoundBox \<times> SectorSeq \<Rightarrow> (SnakeBoundBox \<times> SectorSeq) option" where
  "sbb_visit box ij bs = (case ij of (i, j) \<Rightarrow> case bs of (b, ss) \<Rightarrow>
     if on_map i j then do {
       k \<leftarrow> get_sector ss (of_int i) (of_int j);
       Some (if \<not> IsPresent k b \<and> Intersect (sec_box (ss ! k)) box
             then InsertSortedWithReg k (b, ss) else (b, ss)) }
     else Some (b, ss))"

definition SnakeBoundBox_UpdateBoxNewSectors ::
  "flt \<Rightarrow> flt \<Rightarrow> flt \<Rightarrow> flt \<Rightarrow> flt \<Rightarrow> SnakeBoundBox \<times> SectorSeq \<Rightarrow> (SnakeBoundBox \<times> SectorSeq) option" where
  "SnakeBoundBox_UpdateBoxNewSectors bb_r new_x new_y old_x old_y bs = do {
     new_sx \<leftarrow> sector_coord new_x;
     new_sy \<leftarrow> sector_coord new_y;
     old_sx \<leftarrow> sector_coord old_x;
     old_sy \<leftarrow> sector_coord old_y;
     if new_sx = old_sx \<and> new_sy = old_sy then Some bs
     else fold_opt (sbb_visit (mk_pos new_x new_y bb_r)) (cells_around 1 new_sx new_sy) bs }"

text \<open>
  \<open>Sector::RemoveSnake\<close> compares the \<open>id\<close> behind each pointer; here it is the \<open>ref_id\<close> that the reference
  keeps, because a tick has no heap of snakes. The two are the same wherever every reference leads to a
  live snake, which the invariant of the world says (\<open>ref_alive\<close> in \<open>WorldInvariant\<close>). A dangling pointer is
  undefined in the functions of \<open>Worlds\<close> that have the heap (\<open>unregister\<close>, \<open>check_boxes\<close>), not here.
\<close>

function sbb_sweep :: "nat \<Rightarrow> SnakeBoundBox \<times> SectorSeq \<Rightarrow> SnakeBoundBox \<times> SectorSeq" where
  "sbb_sweep i (b, ss) =
    (if i < length (bb_sectors b) then
       let s = bb_sectors b ! i
       in if \<not> Intersect (sec_box (ss ! s)) b then
            let ss' = ss[s := Sector_RemoveSnake (bb_id b) (ss ! s)]
            in if fst (RemoveUnsorted i b) then sbb_sweep i (snd (RemoveUnsorted i b), ss')
               else (snd (RemoveUnsorted i b), ss')
          else sbb_sweep (i + 1) (b, ss)
     else (b, ss))"
  by pat_completeness auto
termination
  by (relation "measure (\<lambda>(i, b, ss). length (bb_sectors b) - i)")
    (auto simp: RemoveUnsorted_def split: if_splits)

declare sbb_sweep.simps [simp del]

definition SnakeBoundBox_UpdateBoxOldSectors ::
  "SnakeBoundBox \<times> SectorSeq \<Rightarrow> SnakeBoundBox \<times> SectorSeq" where
  "SnakeBoundBox_UpdateBoxOldSectors bs =
    (let prev_len = length (bb_sectors (fst bs)); (b, ss) = sbb_sweep 0 bs
     in (if prev_len \<noteq> length (bb_sectors b) then BoundBox_Sort b else b, ss))"

definition vp_visit :: "SectorSeq \<Rightarrow> int \<times> int \<Rightarrow> ViewPort \<Rightarrow> ViewPort option" where
  "vp_visit ss ij v = (case ij of (i, j) \<Rightarrow>
     if on_map i j then do {
       k \<leftarrow> get_sector ss (of_int i) (of_int j);
       Some (if \<not> IsPresent k v \<and> Intersect (sec_box (ss ! k)) v
             then InsertSortedWithDelta k v else v) }
     else Some v)"

definition ViewPort_UpdateBoxNewSectors ::
  "SectorSeq \<Rightarrow> flt \<Rightarrow> flt \<Rightarrow> flt \<Rightarrow> flt \<Rightarrow> ViewPort \<Rightarrow> ViewPort option" where
  "ViewPort_UpdateBoxNewSectors ss new_x new_y old_x old_y v = do {
     new_sx \<leftarrow> sector_coord new_x;
     new_sy \<leftarrow> sector_coord new_y;
     old_sx \<leftarrow> sector_coord old_x;
     old_sy \<leftarrow> sector_coord old_y;
     if new_sx = old_sx \<and> new_sy = old_sy then Some v
     else fold_opt (vp_visit ss) (cells_around 3 new_sx new_sy) v }"

function vp_sweep :: "SectorSeq \<Rightarrow> nat \<Rightarrow> ViewPort \<Rightarrow> ViewPort" where
  "vp_sweep ss i v =
    (if i < length (bb_sectors v) then
       let s = bb_sectors v ! i
       in if \<not> Intersect (sec_box (ss ! s)) v then
            let v' = RegOldSectorIfMissing s v
            in if fst (RemoveUnsorted i v') then vp_sweep ss i (snd (RemoveUnsorted i v'))
               else snd (RemoveUnsorted i v')
          else vp_sweep ss (i + 1) v
     else v)"
  by pat_completeness auto
termination
  by (relation "measure (\<lambda>(ss, i, v). length (bb_sectors v) - i)")
    (auto simp: RemoveUnsorted_def RegOldSectorIfMissing_def split: if_splits)

declare vp_sweep.simps [simp del]

definition ViewPort_UpdateBoxOldSectors :: "SectorSeq \<Rightarrow> ViewPort \<Rightarrow> ViewPort" where
  "ViewPort_UpdateBoxOldSectors ss v =
    (let prev_len = length (bb_sectors v); v' = vp_sweep ss 0 v
     in if prev_len \<noteq> length (bb_sectors v') then BoundBox_Sort v' else v')"

section \<open>Sorted insertion\<close>

lemma insert_sector_eq: "insert_sector s xs = insert_at (lower_bound (\<lambda>a. a < s) xs) s xs"
  by (simp add: insert_sector_def insert_at_def Let_def)

lemma insert_food_eq: "insert_food f xs = insert_at (lower_bound (\<lambda>a. food_x a < food_x f) xs) f xs"
  by (simp add: insert_food_def insert_at_def Let_def)

interpretation box_vec: sorted_vector insert_sector "\<lambda>s. s"
proof unfold_locales
  show "sorted (map (\<lambda>s. s) (insert_sector v xs))" if "sorted (map (\<lambda>s. s) xs)" for xs v
    using sorted_insert_at_lower_bound [OF that, of v] by (simp add: insert_sector_eq)
qed (simp add: insert_sector_eq)

interpretation food_vec: sorted_vector insert_food food_x
proof unfold_locales
  show "sorted (map food_x (insert_food v xs))" if "sorted (map food_x xs)" for xs v
    using sorted_insert_at_lower_bound [OF that, of v] by (simp add: insert_food_eq)
qed (simp add: insert_food_eq)

lemma sorted_insert_sector: "sorted xs \<Longrightarrow> sorted (insert_sector s xs)"
  using box_vec.ins_sorted [of xs s] by simp

section \<open>The sweep over the sectors of a box\<close>

text \<open>
  \<open>SnakeBoundBox::UpdateBoxOldSectors\<close> and \<open>ViewPort::UpdateBoxOldSectors\<close> are the same loop: walk
  the vector, drop every sector the box has left by overwriting it with the last one, do not
  advance after such a swap. What differs is what dropping a sector does besides. The interface
  names the loop, the vector, the test and the drop.
\<close>

locale swap_sweep =
  fixes loop :: "nat \<Rightarrow> 's \<Rightarrow> 's" and secs :: "'s \<Rightarrow> nat list"
    and stays :: "'s \<Rightarrow> nat \<Rightarrow> bool" and drop_sec :: "nat \<Rightarrow> 's \<Rightarrow> 's"
  assumes loop_end: "length (secs s) \<le> i \<Longrightarrow> loop i s = s"
    and loop_keep: "i < length (secs s) \<Longrightarrow> stays s (secs s ! i) \<Longrightarrow> loop i s = loop (i + 1) s"
    and loop_drop: "i < length (secs s) \<Longrightarrow> \<not> stays s (secs s ! i) \<Longrightarrow>
      loop i s = (if i + 1 \<noteq> length (secs s) then loop i (drop_sec i s) else drop_sec i s)"
    and secs_drop: "i < length (secs s) \<Longrightarrow> \<not> stays s (secs s ! i) \<Longrightarrow>
      secs (drop_sec i s) = butlast ((secs s)[i := last (secs s)])"
    and stays_drop: "i < length (secs s) \<Longrightarrow> \<not> stays s (secs s ! i) \<Longrightarrow>
      stays (drop_sec i s) = stays s"
begin

lemma loop_last:
  assumes "i < length (secs s)" "\<not> stays s (secs s ! i)" "i + 1 = length (secs s)"
  shows "loop i s = loop i (drop_sec i s)"
  using assms loop_drop [of i s] loop_end [of "drop_sec i s" i] secs_drop [of i s] by simp

lemma loop_drop_eq:
  "i < length (secs s) \<Longrightarrow> \<not> stays s (secs s ! i) \<Longrightarrow> loop i s = loop i (drop_sec i s)"
  using loop_drop [of i s] loop_last [of i s] by (cases "i + 1 = length (secs s)") simp_all

lemma mset_swap_out:
  "i < length xs \<Longrightarrow> add_mset (xs ! i) (mset (drop i (butlast (xs[i := last xs])))) = mset (drop i xs)"
proof -
  assume i: "i < length xs"
  then obtain ys z where xs: "xs = ys @ [z]" by (metis list.size(3) not_less_zero rev_exhaust)
  show ?thesis
  proof (cases "i = length ys")
    case True
    then show ?thesis by (simp add: xs)
  next
    case False
    with i have il: "i < length ys" by (simp add: xs)
    have "butlast (xs[i := last xs]) = ys[i := z]"
      using il by (simp add: xs list_update_append butlast_append)
    moreover have "drop i (ys[i := z]) = z # drop (Suc i) ys"
      using il by (simp add: drop_update_cancel Cons_nth_drop_Suc [symmetric] del: drop_Suc_Cons)
    moreover have "drop i xs = ys ! i # drop (Suc i) ys @ [z]"
      using il by (simp add: xs Cons_nth_drop_Suc [symmetric] del: drop_Suc_Cons)
    moreover have "xs ! i = ys ! i" using il by (simp add: xs nth_append)
    ultimately show ?thesis by simp
  qed
qed

lemma take_swap_out: "i < length xs \<Longrightarrow> take i (butlast (xs[i := last xs])) = take i xs"
proof -
  assume "i < length xs"
  then have "i \<le> length xs - 1" by linarith
  then show ?thesis by (simp add: butlast_conv_take take_update_cancel min_def)
qed

text \<open>The walk keeps exactly the sectors that stay, up to order.\<close>

lemma loop_secs:
  "mset (secs (loop i s)) = mset (take i (secs s)) + filter_mset (stays s) (mset (drop i (secs s)))
     \<and> stays (loop i s) = stays s"
proof (induction "length (secs s) - i" arbitrary: i s rule: less_induct)
  case less
  show ?case
  proof (cases "i < length (secs s)")
    case False
    then show ?thesis by (simp add: loop_end)
  next
    case True
    let ?x = "secs s ! i"
    show ?thesis
    proof (cases "stays s ?x")
      case st: True
      have "drop i (secs s) = ?x # drop (Suc i) (secs s)" "take (Suc i) (secs s) = take i (secs s) @ [?x]"
        using True by (simp_all add: Cons_nth_drop_Suc take_Suc_conv_app_nth)
      with less [of s "i + 1"] True st show ?thesis by (simp add: loop_keep)
    next
      case nst: False
      have len: "length (secs (drop_sec i s)) - i < length (secs s) - i"
        using True nst by (simp add: secs_drop)
      have "mset (drop i (secs s)) = add_mset ?x (mset (drop i (secs (drop_sec i s))))"
        using mset_swap_out [OF True] True nst by (simp add: secs_drop)
      with less [OF len] nst True show ?thesis
        by (simp add: loop_drop_eq stays_drop secs_drop take_swap_out)
    qed
  qed
qed

lemma loop_inv:
  assumes "\<And>i s. P s \<Longrightarrow> i < length (secs s) \<Longrightarrow> \<not> stays s (secs s ! i) \<Longrightarrow> P (drop_sec i s)"
  shows "P s \<Longrightarrow> P (loop i s)"
proof (induction "length (secs s) - i" arbitrary: i s rule: less_induct)
  case less
  show ?case
  proof (cases "i < length (secs s)")
    case False
    then show ?thesis using less.prems by (simp add: loop_end)
  next
    case True
    show ?thesis
    proof (cases "stays s (secs s ! i)")
      case st: True
      then show ?thesis using True less.hyps [of s "i + 1"] less.prems by (simp add: loop_keep)
    next
      case nst: False
      have "length (secs (drop_sec i s)) - i < length (secs s) - i"
        using True nst by (simp add: secs_drop)
      from less.hyps [OF this assms [OF less.prems True nst]] show ?thesis
        by (simp add: loop_drop_eq True nst)
    qed
  qed
qed

text \<open>On a sorted vector, the walk and the final sort are together a filter.\<close>

lemma sweep_filter:
  assumes "sorted (secs s)"
  shows "(if length (secs s) \<noteq> length (secs (loop 0 s)) then sort (secs (loop 0 s)) else secs (loop 0 s))
    = filter (stays s) (secs s)"
proof -
  have ms: "mset (secs (loop 0 s)) = mset (filter (stays s) (secs s))"
    using loop_secs [of 0 s] by simp
  have so: "sorted (filter (stays s) (secs s))" using assms by (rule sorted_wrt_filter)
  show ?thesis
  proof (cases "length (secs s) = length (secs (loop 0 s))")
    case True
    with ms have "length (filter (stays s) (secs s)) = length (secs s)" by (metis size_mset)
    then have all: "\<forall>x \<in> set (secs s). stays s x" by (metis length_filter_less less_irrefl)
    have "loop i s = s" if "\<forall>x \<in> set (secs s). stays s x" for i
      using that by (induction "length (secs s) - i" arbitrary: i rule: less_induct)
        (metis diff_less_mono2 less_add_one linorder_not_le loop_end loop_keep nth_mem)
    with all True show ?thesis by simp
  next
    case False
    have "sort (secs (loop 0 s)) = filter (stays s) (secs s)"
      using properties_for_sort [OF ms [symmetric] so] by simp
    with False show ?thesis by simp
  qed
qed

end

section \<open>The two sweeps as instances\<close>

lemma nth_beyond: "length xs \<le> k \<Longrightarrow> xs ! k = [] ! (k - length xs)"
  by (induction xs arbitrary: k) (simp_all add: nth_Cons')

lemma field_of_update:
  assumes "\<And>x. f (g x) = f x"
  shows "f (xs[i := g (xs ! i)] ! k) = f (xs ! k)"
proof (cases "k < length xs")
  case True
  then show ?thesis using assms by (cases "i = k") auto
next
  case False
  then show ?thesis by (simp add: nth_beyond [of _ k])
qed

lemma box_RemoveSnake [simp]: "sec_box (Sector_RemoveSnake i s) = sec_box s"
  by (simp add: Sector_RemoveSnake_def)

lemma Intersect_sectors_update [simp]:
  "Intersect p (b\<lparr>bb_sectors := xs\<rparr>) = Intersect p b"
  by (simp add: Intersect_def)

lemma Intersect_vp_update [simp]:
  "Intersect p (v\<lparr>old_sectors := xs\<rparr>) = Intersect p v"
  "Intersect p (v\<lparr>new_sectors := xs\<rparr>) = Intersect p v"
  by (simp_all add: Intersect_def)

definition sbb_drop :: "nat \<Rightarrow> SnakeBoundBox \<times> SectorSeq \<Rightarrow> SnakeBoundBox \<times> SectorSeq" where
  "sbb_drop i bs = (case bs of (b, ss) \<Rightarrow> let s = bb_sectors b ! i in
     (snd (RemoveUnsorted i b), ss[s := Sector_RemoveSnake (bb_id b) (ss ! s)]))"

definition vp_drop :: "nat \<Rightarrow> ViewPort \<Rightarrow> ViewPort" where
  "vp_drop i v = snd (RemoveUnsorted i (RegOldSectorIfMissing (bb_sectors v ! i) v))"

definition sbb_stays :: "SnakeBoundBox \<times> SectorSeq \<Rightarrow> nat \<Rightarrow> bool" where
  "sbb_stays bs s = Intersect (sec_box (snd bs ! s)) (fst bs)"

definition vp_stays :: "SectorSeq \<Rightarrow> ViewPort \<Rightarrow> nat \<Rightarrow> bool" where
  "vp_stays ss v s = Intersect (sec_box (ss ! s)) v"

lemma butlast_update_last: "i + 1 = length xs \<Longrightarrow> butlast (xs[i := v]) = butlast xs"
  by (auto simp: butlast_list_update)

interpretation sbb_walk: swap_sweep sbb_sweep "\<lambda>bs. bb_sectors (fst bs)" sbb_stays sbb_drop
proof unfold_locales
  fix bs :: "SnakeBoundBox \<times> SectorSeq" and i
  obtain b ss where bs: "bs = (b, ss)" by (cases bs)
  show "sbb_sweep i bs = bs" if "length (bb_sectors (fst bs)) \<le> i"
    using that by (simp add: bs sbb_sweep.simps)
  assume i: "i < length (bb_sectors (fst bs))"
  show "sbb_sweep i bs = sbb_sweep (i + 1) bs" if "sbb_stays bs (bb_sectors (fst bs) ! i)"
    using that i by (subst sbb_sweep.simps [of i b ss, folded bs]) (simp add: bs sbb_stays_def Let_def)
  assume n: "\<not> sbb_stays bs (bb_sectors (fst bs) ! i)"
  show "sbb_sweep i bs =
    (if i + 1 \<noteq> length (bb_sectors (fst bs)) then sbb_sweep i (sbb_drop i bs) else sbb_drop i bs)"
    using n i by (subst sbb_sweep.simps [of i b ss, folded bs])
      (simp add: bs sbb_stays_def sbb_drop_def Let_def RemoveUnsorted_def)
  show "bb_sectors (fst (sbb_drop i bs)) =
    butlast ((bb_sectors (fst bs))[i := last (bb_sectors (fst bs))])"
    using i by (simp add: bs sbb_drop_def RemoveUnsorted_def Let_def butlast_update_last)
  show "sbb_stays (sbb_drop i bs) = sbb_stays bs"
    by (rule ext) (simp add: bs sbb_stays_def sbb_drop_def RemoveUnsorted_def Let_def
        field_of_update [where f = sec_box and g = "Sector_RemoveSnake (bb_id b)"])
qed

interpretation vp_walk: swap_sweep "vp_sweep ss" bb_sectors "vp_stays ss" vp_drop
proof unfold_locales
  fix v :: ViewPort and i
  show "vp_sweep ss i v = v" if "length (bb_sectors v) \<le> i"
    using that by (simp add: vp_sweep.simps)
  assume i: "i < length (bb_sectors v)"
  show "vp_sweep ss i v = vp_sweep ss (i + 1) v" if "vp_stays ss v (bb_sectors v ! i)"
    using that i by (subst vp_sweep.simps) (simp add: vp_stays_def Let_def)
  assume n: "\<not> vp_stays ss v (bb_sectors v ! i)"
  show "vp_sweep ss i v = (if i + 1 \<noteq> length (bb_sectors v) then vp_sweep ss i (vp_drop i v) else vp_drop i v)"
    using n i by (subst vp_sweep.simps)
      (simp add: vp_stays_def vp_drop_def Let_def RemoveUnsorted_def RegOldSectorIfMissing_def)
  show "bb_sectors (vp_drop i v) = butlast ((bb_sectors v)[i := last (bb_sectors v)])"
    using i by (simp add: vp_drop_def RemoveUnsorted_def RegOldSectorIfMissing_def butlast_update_last)
  show "vp_stays ss (vp_drop i v) = vp_stays ss v"
    by (rule ext) (simp add: vp_stays_def vp_drop_def RemoveUnsorted_def RegOldSectorIfMissing_def)
qed

section \<open>Registration of a box in the sectors\<close>

text \<open>
  \<open>registered b ss\<close>: the sectors of \<open>b\<close> exist, without repetition, and the boxes of \<open>b\<close>'s snake
  found in the grid are exactly one in each of them and none elsewhere. \<open>same_but i ss ss'\<close>: the
  grid differs at most in the boxes with id \<open>i\<close>.
\<close>

definition registered :: "SnakeBoundBox \<Rightarrow> SectorSeq \<Rightarrow> bool" where
  "registered b ss \<longleftrightarrow> distinct (bb_sectors b) \<and> (\<forall>k \<in> set (bb_sectors b). k < length ss) \<and>
    (\<forall>k < length ss. filter (\<lambda>r. ref_id r = bb_id b) (sec_snakes (ss ! k)) =
       (if k \<in> set (bb_sectors b) then [this_ref b] else []))"

definition same_but :: "u16 \<Rightarrow> SectorSeq \<Rightarrow> SectorSeq \<Rightarrow> bool" where
  "same_but i ss ss' \<longleftrightarrow> length ss' = length ss \<and>
    (\<forall>k < length ss. sec_x (ss' ! k) = sec_x (ss ! k) \<and> sec_y (ss' ! k) = sec_y (ss ! k) \<and>
       sec_box (ss' ! k) = sec_box (ss ! k) \<and> sec_food (ss' ! k) = sec_food (ss ! k) \<and>
       filter (\<lambda>r. ref_id r \<noteq> i) (sec_snakes (ss' ! k)) = filter (\<lambda>r. ref_id r \<noteq> i) (sec_snakes (ss ! k)))"

lemma same_but_refl [simp]: "same_but i ss ss"
  by (simp add: same_but_def)

lemma same_but_trans [trans]: "same_but i ss ss' \<Longrightarrow> same_but i ss' ss'' \<Longrightarrow> same_but i ss ss''"
  by (simp add: same_but_def)

lemma same_but_length: "same_but i ss ss' \<Longrightarrow> length ss' = length ss"
  by (simp add: same_but_def)

text \<open>What any step of the two updates keeps.\<close>

definition box_step :: "SnakeBoundBox \<times> SectorSeq \<Rightarrow> SnakeBoundBox \<times> SectorSeq \<Rightarrow> bool" where
  "box_step bs bs' \<longleftrightarrow> BoundBoxPos.truncate (fst bs') = BoundBoxPos.truncate (fst bs) \<and>
     bb_id (fst bs') = bb_id (fst bs) \<and> bb_snake (fst bs') = bb_snake (fst bs) \<and>
     same_but (bb_id (fst bs)) (snd bs) (snd bs')"

lemma box_step_refl [simp]: "box_step bs bs"
  by (simp add: box_step_def)

lemma box_step_trans: "box_step a b \<Longrightarrow> box_step b c \<Longrightarrow> box_step a c"
  unfolding box_step_def by (metis same_but_trans)

lemma this_ref_simps [simp]: "ref_id (this_ref b) = bb_id b"
  "this_ref (b\<lparr>bb_sectors := xs\<rparr>) = this_ref b"
  by (simp_all add: this_ref_def)

lemma InsertSortedWithReg_step:
  assumes "k < length ss"
  shows "box_step (b, ss) (InsertSortedWithReg k (b, ss))"
  using assms by (auto simp: box_step_def InsertSortedWithReg_def BoundBox_Insert_def same_but_def
      BoundBoxPos.truncate_def nth_list_update)

lemma InsertSortedWithReg_registered:
  assumes "registered b ss" "k < length ss" "k \<notin> set (bb_sectors b)"
  shows "registered (fst (InsertSortedWithReg k (b, ss))) (snd (InsertSortedWithReg k (b, ss)))"
  using assms by (auto simp: registered_def InsertSortedWithReg_def BoundBox_Insert_def
      box_vec.ins_set box_vec.ins_distinct nth_list_update)

lemma Sector_RemoveSnake_snakes [simp]:
  "sec_snakes (Sector_RemoveSnake i s) = filter (\<lambda>r. ref_id r \<noteq> i) (sec_snakes s)"
  "sec_x (Sector_RemoveSnake i s) = sec_x s" "sec_y (Sector_RemoveSnake i s) = sec_y s"
  "sec_food (Sector_RemoveSnake i s) = sec_food s"
  by (simp_all add: Sector_RemoveSnake_def)

lemma RemoveUnsorted_keeps [simp]:
  "bb_id (snd (RemoveUnsorted i b)) = bb_id b"
  "bb_snake (snd (RemoveUnsorted i b)) = bb_snake b"
  "BoundBoxPos.truncate (snd (RemoveUnsorted i b)) = BoundBoxPos.truncate b"
  "this_ref (snd (RemoveUnsorted i b)) = this_ref b"
  by (simp_all add: RemoveUnsorted_def BoundBoxPos.truncate_def)

lemma mset_RemoveUnsorted:
  assumes "i < length (bb_sectors b)"
  shows "mset (bb_sectors (snd (RemoveUnsorted i b))) = mset (bb_sectors b) - {#bb_sectors b ! i#}"
proof -
  let ?xs = "bb_sectors b"
  have "bb_sectors (snd (RemoveUnsorted i b)) = butlast (?xs[i := last ?xs])"
    by (simp add: RemoveUnsorted_def butlast_update_last)
  moreover have "mset (take i ?xs) + mset (drop i (butlast (?xs[i := last ?xs]))) =
    mset (butlast (?xs[i := last ?xs]))"
    using sbb_walk.take_swap_out [OF assms] by (metis append_take_drop_id mset_append)
  moreover have "mset ?xs = mset (take i ?xs) + mset (drop i ?xs)"
    by (metis append_take_drop_id mset_append)
  ultimately show ?thesis using sbb_walk.mset_swap_out [OF assms] by (metis add_mset_remove_trivial union_mset_add_mset_right)
qed

lemma sbb_drop_step:
  "i < length (bb_sectors b) \<Longrightarrow> registered b ss \<Longrightarrow> box_step (b, ss) (sbb_drop i (b, ss))"
  using nth_mem [of i "bb_sectors b"]
  by (auto simp: box_step_def sbb_drop_def same_but_def registered_def Let_def nth_list_update)

lemma sbb_drop_registered:
  assumes "registered b ss" "i < length (bb_sectors b)"
  shows "registered (fst (sbb_drop i (b, ss))) (snd (sbb_drop i (b, ss)))"
proof -
  let ?b' = "snd (RemoveUnsorted i b)" and ?s = "bb_sectors b ! i"
  have d: "distinct (bb_sectors b)" using assms(1) by (simp add: registered_def)
  have m: "mset (bb_sectors ?b') = mset (bb_sectors b) - {#?s#}" by (rule mset_RemoveUnsorted [OF assms(2)])
  have m': "mset (bb_sectors ?b') = mset (remove1 ?s (bb_sectors b))" using m by simp
  have d': "distinct (bb_sectors ?b')"
    using mset_eq_imp_distinct_iff [OF m'] d by simp
  have set': "set (bb_sectors ?b') = set (bb_sectors b) - {?s}"
    using mset_eq_setD [OF m'] d by simp
  have "?s < length ss" using assms nth_mem [OF assms(2)] by (auto simp: registered_def)
  with assms(1) d' set' show ?thesis
    by (auto simp: registered_def sbb_drop_def Let_def nth_list_update)
qed

lemma sbb_sweep_step:
  assumes "registered b ss"
  shows "box_step (b, ss) (sbb_sweep i (b, ss)) \<and>
    registered (fst (sbb_sweep i (b, ss))) (snd (sbb_sweep i (b, ss)))"
proof -
  let ?P = "\<lambda>bs. box_step (b, ss) bs \<and> registered (fst bs) (snd bs)"
  have step: "?P (sbb_drop j bs)"
    if "?P bs" "j < length (bb_sectors (fst bs))" for bs j
  proof -
    obtain c t where bs: "bs = (c, t)" by (cases bs)
    with that have 1: "box_step (b, ss) (c, t)" "registered c t" "j < length (bb_sectors c)" by simp_all
    from box_step_trans [OF 1(1) sbb_drop_step [OF 1(3,2)]] sbb_drop_registered [OF 1(2,3)]
    show ?thesis by (simp add: bs)
  qed
  have "?P (b, ss)" using assms by simp
  then show ?thesis using step by (intro sbb_walk.loop_inv [of ?P]) blast+
qed

lemma registered_sort: "registered (BoundBox_Sort b) ss = registered b ss"
  by (simp add: registered_def BoundBox_Sort_def)

lemma box_step_sort: "box_step (b, ss) (BoundBox_Sort c, t) = box_step (b, ss) (c, t)"
  by (simp add: box_step_def BoundBox_Sort_def BoundBoxPos.truncate_def)

lemma UpdateBoxOldSectors_sectors:
  assumes "sorted (bb_sectors b)"
  shows "bb_sectors (fst (SnakeBoundBox_UpdateBoxOldSectors (b, ss))) =
    filter (\<lambda>s. Intersect (sec_box (ss ! s)) b) (bb_sectors b)"
proof -
  have eq: "sbb_stays (b, ss) = (\<lambda>s. Intersect (sec_box (ss ! s)) b)"
    by (rule ext) (simp add: sbb_stays_def)
  show ?thesis
    using sbb_walk.sweep_filter [of "(b, ss)"] assms
    by (auto simp: SnakeBoundBox_UpdateBoxOldSectors_def Let_def BoundBox_Sort_def eq split: prod.splits)
qed

lemma UpdateBoxOldSectors_step:
  assumes "registered b ss"
  shows "box_step (b, ss) (SnakeBoundBox_UpdateBoxOldSectors (b, ss)) \<and>
    registered (fst (SnakeBoundBox_UpdateBoxOldSectors (b, ss))) (snd (SnakeBoundBox_UpdateBoxOldSectors (b, ss)))"
  using sbb_sweep_step [OF assms, of 0]
  by (auto simp: SnakeBoundBox_UpdateBoxOldSectors_def Let_def registered_sort box_step_sort split: prod.splits)

section \<open>Entering sectors\<close>

lemma get_sector_lt: "get_sector ss x y = Some k \<Longrightarrow> k < length ss"
  by (auto simp: get_sector_def split: if_splits)

lemma uint_of_int_u16: "0 \<le> i \<Longrightarrow> i < 65536 \<Longrightarrow> uint (of_int i :: u16) = i"
  by (simp add: uint_word_of_int_eq take_bit_int_eq_self)

lemma count_along_edge: "sector_count_along_edge = 144"
  by (simp add: config_defs)

lemma get_sector_on_map:
  assumes "on_map i j" "length ss = 20736"
  shows "get_sector ss (of_int i) (of_int j) = Some (nat (j * 144 + i))"
proof -
  from assms(1) have ij: "0 \<le> i" "i < 144" "0 \<le> j" "j < 144"
    by (simp_all add: on_map_def count_along_edge)
  then have "uint (of_int i :: u16) = i" "uint (of_int j :: u16) = j"
    by (simp_all add: uint_of_int_u16)
  moreover have "j * 144 + i < 20736" using ij by linarith
  ultimately show ?thesis using ij assms(2)
    by (simp add: get_sector_def get_index_def count_along_edge nat_less_iff)
qed

text \<open>The invariant of a box between two operations.\<close>

definition box_ok :: "SnakeBoundBox \<times> SectorSeq \<Rightarrow> bool" where
  "box_ok bs \<longleftrightarrow> registered (fst bs) (snd bs) \<and> sorted (bb_sectors (fst bs))"

lemma IsPresent_iff: "sorted (bb_sectors b) \<Longrightarrow> IsPresent k b = (k \<in> set (bb_sectors b))"
  by (simp add: IsPresent_def binary_search_iff)

lemma sbb_visit_step:
  assumes "box_ok bs" "sbb_visit p ij bs = Some bs'"
  shows "box_ok bs' \<and> box_step bs bs' \<and> set (bb_sectors (fst bs)) \<subseteq> set (bb_sectors (fst bs'))"
proof -
  obtain i j b ss where e: "ij = (i, j)" "bs = (b, ss)" by (metis surj_pair)
  from assms have ok: "registered b ss" "sorted (bb_sectors b)" by (simp_all add: e box_ok_def)
  show ?thesis
  proof (cases "on_map i j")
    case False
    with assms show ?thesis by (simp add: e sbb_visit_def)
  next
    case True
    with assms(2) obtain k where k: "get_sector ss (of_int i) (of_int j) = Some k"
      and bs': "bs' = (if \<not> IsPresent k b \<and> Intersect (sec_box (ss ! k)) p
             then InsertSortedWithReg k (b, ss) else (b, ss))"
      by (auto simp: e sbb_visit_def bind_eq_Some_conv)
    note lt = get_sector_lt [OF k]
    show ?thesis
    proof (cases "\<not> IsPresent k b \<and> Intersect (sec_box (ss ! k)) p")
      case False
      then show ?thesis using assms(1) by (auto simp: e bs')
    next
      case new: True
      then have nin: "k \<notin> set (bb_sectors b)" using IsPresent_iff [OF ok(2)] by simp
      have "sorted (bb_sectors (fst (InsertSortedWithReg k (b, ss))))"
        "set (bb_sectors b) \<subseteq> set (bb_sectors (fst (InsertSortedWithReg k (b, ss))))"
        using ok(2) by (auto simp: InsertSortedWithReg_def BoundBox_Insert_def sorted_insert_sector box_vec.ins_set)
      with new InsertSortedWithReg_step [OF lt, of b] InsertSortedWithReg_registered [OF ok(1) lt nin]
      show ?thesis by (simp add: e bs' box_ok_def)
    qed
  qed
qed

lemma UpdateBoxNewSectors_step:
  assumes "box_ok bs" "SnakeBoundBox_UpdateBoxNewSectors r nx ny ox oy bs = Some bs'"
  shows "box_ok bs' \<and> box_step bs bs' \<and> set (bb_sectors (fst bs)) \<subseteq> set (bb_sectors (fst bs'))"
proof -
  let ?P = "\<lambda>t. box_ok t \<and> box_step bs t \<and> set (bb_sectors (fst bs)) \<subseteq> set (bb_sectors (fst t))"
  have fold: "?P t" if "fold_opt (sbb_visit p) cs bs = Some t" for p cs t
  proof (rule fold_opt_inv [where P = ?P, OF _ _ that])
    show "?P bs" using assms(1) by simp
    show "?P s'" if "x \<in> set cs" "?P s" "sbb_visit p x s = Some s'" for x s s'
      using that sbb_visit_step [of s p x s'] box_step_trans by blast
  qed
  from assms(2) consider "bs' = bs" | p cs where "fold_opt (sbb_visit p) cs bs = Some bs'"
    unfolding SnakeBoundBox_UpdateBoxNewSectors_def bind_eq_Some_conv
    by (auto split: if_splits)
  then show ?thesis using assms(1) fold by cases simp_all
qed

lemma set_cells_around: "(i, j) \<in> set (cells_around w sx sy) \<longleftrightarrow> \<bar>i - sx\<bar> \<le> w \<and> \<bar>j - sy\<bar> \<le> w"
proof -
  have "set (cells_around w sx sy) = {sx - w..sx + w} \<times> {sy - w..sy + w}"
    by (auto simp: cells_around_def)
  then show ?thesis by (simp add: abs_le_iff) linarith
qed

lemma sbb_visit_total:
  "length (snd bs) = 20736 \<Longrightarrow> \<exists>bs'. sbb_visit p ij bs = Some bs' \<and> length (snd bs') = 20736"
  by (cases ij; cases bs) (auto simp: sbb_visit_def get_sector_on_map InsertSortedWithReg_def)

text \<open>On a full grid the update is defined wherever the casts of the coordinates are.\<close>

lemma UpdateBoxNewSectors_total:
  assumes "length (snd bs) = 20736"
    and "\<forall>c \<in> {nx, ny, ox, oy}. sector_coord c \<noteq> None"
  shows "\<exists>bs'. SnakeBoundBox_UpdateBoxNewSectors r nx ny ox oy bs = Some bs' \<and> length (snd bs') = 20736"
proof -
  have fold: "\<exists>bs'. fold_opt (sbb_visit p) cs bs = Some bs' \<and> length (snd bs') = 20736" for p cs
    by (rule fold_opt_total) (use assms(1) sbb_visit_total in blast)+
  from assms(2) obtain a b c d where "sector_coord nx = Some a" "sector_coord ny = Some b"
    "sector_coord ox = Some c" "sector_coord oy = Some d" by auto
  then show ?thesis using fold assms(1) by (cases bs) (simp add: SnakeBoundBox_UpdateBoxNewSectors_def)
qed

lemma sbb_visit_enters:
  assumes "box_ok (b, ss)" "sbb_visit p (i, j) (b, ss) = Some bs'" "on_map i j" "length ss = 20736"
    and "Intersect (sec_box (ss ! nat (j * 144 + i))) p"
  shows "nat (j * 144 + i) \<in> set (bb_sectors (fst bs'))"
  using assms by (auto simp: sbb_visit_def get_sector_on_map box_ok_def IsPresent_iff
      InsertSortedWithReg_def BoundBox_Insert_def box_vec.ins_set split: if_splits)

text \<open>After a change of cell every sector of the 3x3 block that the box touches is registered.\<close>

lemma UpdateBoxNewSectors_enters:
  assumes ok: "box_ok (b, ss)" and len: "length ss = 20736"
    and upd: "SnakeBoundBox_UpdateBoxNewSectors r nx ny ox oy (b, ss) = Some bs'"
    and coord: "sector_coord nx = Some sx" "sector_coord ny = Some sy"
      "sector_coord ox \<noteq> Some sx \<or> sector_coord oy \<noteq> Some sy"
    and cell: "\<bar>i - sx\<bar> \<le> 1" "\<bar>j - sy\<bar> \<le> 1" "on_map i j"
    and int: "Intersect (sec_box (ss ! nat (j * 144 + i))) (mk_pos nx ny r)"
  shows "nat (j * 144 + i) \<in> set (bb_sectors (fst bs'))"
proof -
  let ?f = "sbb_visit (mk_pos nx ny r)" and ?k = "nat (j * 144 + i)"
  from upd coord have fold: "fold_opt ?f (cells_around 1 sx sy) (b, ss) = Some bs'"
    by (auto simp: SnakeBoundBox_UpdateBoxNewSectors_def bind_eq_Some_conv split: if_splits)
  have "(i, j) \<in> set (cells_around 1 sx sy)" using cell by (simp add: set_cells_around)
  then obtain xs ys where xs: "cells_around 1 sx sy = xs @ (i, j) # ys" by (meson split_list)
  from fold obtain c t d where c: "fold_opt ?f xs (b, ss) = Some (c, t)"
    and d: "?f (i, j) (c, t) = Some d" and e: "fold_opt ?f ys d = Some bs'"
    by (auto simp: xs fold_opt_append bind_eq_Some_conv)
  have ct: "box_ok (c, t) \<and> box_step (b, ss) (c, t)"
    by (rule fold_opt_inv [where P = "\<lambda>s. box_ok s \<and> box_step (b, ss) s", OF _ _ c])
      (use ok sbb_visit_step box_step_trans in \<open>blast, simp\<close>)
  have lenk: "?k < 20736" using cell(3) by (simp add: on_map_def count_along_edge) linarith
  have "sec_box (t ! ?k) = sec_box (ss ! ?k)" "length t = 20736"
    using ct len lenk by (auto simp: box_step_def same_but_def)
  then have k: "?k \<in> set (bb_sectors (fst d))"
    using sbb_visit_enters [of c t "mk_pos nx ny r" i j d] ct d int cell(3) by simp
  have dok: "box_ok d" using sbb_visit_step [OF _ d] ct by blast
  have "box_ok bs' \<and> ?k \<in> set (bb_sectors (fst bs'))"
    by (rule fold_opt_inv [where P = "\<lambda>s. box_ok s \<and> ?k \<in> set (bb_sectors (fst s))", OF _ _ e])
      (use dok k sbb_visit_step in \<open>blast+\<close>)
  then show ?thesis by simp
qed

section \<open>The initial grid\<close>

lemma length_InitSectors [simp]: "length InitSectors = 20736"
  by (simp add: InitSectors_def count_along_edge)

lemma InitSectors_nth:
  assumes "on_map i j"
  shows "InitSectors ! nat (j * 144 + i) = mk_Sector (of_int i) (of_int j)"
proof -
  from assms have ij: "0 \<le> i" "i < 144" "0 \<le> j" "j < 144"
    by (simp_all add: on_map_def count_along_edge)
  let ?n = "j * 144 + i"
  have n: "0 \<le> ?n" "?n < 20736" using ij by linarith+
  have "[0..sector_count_along_edge * sector_count_along_edge - 1] ! nat ?n = ?n"
    using n by (simp add: count_along_edge)
  moreover have "?n div 144 = j" "?n mod 144 = i" using ij by (simp_all add: add.commute)
  ultimately show ?thesis using n
    by (simp add: InitSectors_def count_along_edge nat_less_iff)
qed

section \<open>The view port\<close>

text \<open>
  What the client is told of a view port is its list of new and of old sectors. The two updates
  keep them in step with the sorted vector: \<open>vp_grow v v'\<close> for the sectors a move enters,
  \<open>vp_shrink v v'\<close> for those it leaves.
\<close>

definition vp_ok :: "SectorSeq \<Rightarrow> ViewPort \<Rightarrow> bool" where
  "vp_ok ss v \<longleftrightarrow> sorted (bb_sectors v) \<and> distinct (bb_sectors v) \<and>
     distinct (new_sectors v) \<and> distinct (old_sectors v) \<and> (\<forall>k \<in> set (bb_sectors v). k < length ss)"

definition vp_same :: "ViewPort \<Rightarrow> ViewPort \<Rightarrow> bool" where
  "vp_same v v' \<longleftrightarrow> BoundBoxPos.truncate v' = BoundBoxPos.truncate v \<and> bb_id v' = bb_id v \<and>
     bb_snake v' = bb_snake v"

definition vp_grow :: "ViewPort \<Rightarrow> ViewPort \<Rightarrow> bool" where
  "vp_grow v v' \<longleftrightarrow> vp_same v v' \<and> old_sectors v' = old_sectors v \<and>
     set (bb_sectors v) \<subseteq> set (bb_sectors v') \<and>
     set (new_sectors v') = set (new_sectors v) \<union> (set (bb_sectors v') - set (bb_sectors v))"

definition vp_shrink :: "ViewPort \<Rightarrow> ViewPort \<Rightarrow> bool" where
  "vp_shrink v v' \<longleftrightarrow> vp_same v v' \<and> new_sectors v' = new_sectors v \<and>
     set (bb_sectors v') \<subseteq> set (bb_sectors v) \<and> distinct (bb_sectors v') \<and> distinct (old_sectors v') \<and>
     set (old_sectors v') = set (old_sectors v) \<union> (set (bb_sectors v) - set (bb_sectors v'))"

lemma vp_same_Intersect: "vp_same v v' \<Longrightarrow> Intersect p v' = Intersect p v"
  by (simp add: vp_same_def Intersect_def BoundBoxPos.truncate_def)

lemma vp_drop_shrink:
  assumes "vp_shrink v w" "i < length (bb_sectors w)"
  shows "vp_shrink v (vp_drop i w)"
proof -
  let ?x = "bb_sectors w ! i" and ?w = "RegOldSectorIfMissing (bb_sectors w ! i) w"
  have secs: "bb_sectors ?w = bb_sectors w" by (simp add: RegOldSectorIfMissing_def)
  have d: "distinct (bb_sectors w)" using assms(1) by (simp add: vp_shrink_def)
  have "mset (bb_sectors (vp_drop i w)) = mset (bb_sectors w) - {#?x#}"
    using mset_RemoveUnsorted [of i ?w] assms(2) by (simp add: vp_drop_def secs)
  then have m: "mset (bb_sectors (vp_drop i w)) = mset (remove1 ?x (bb_sectors w))" by simp
  have "distinct (bb_sectors (vp_drop i w))" using mset_eq_imp_distinct_iff [OF m] d by simp
  moreover have "set (bb_sectors (vp_drop i w)) = set (bb_sectors w) - {?x}"
    using mset_eq_setD [OF m] d by simp
  moreover have "set (old_sectors (vp_drop i w)) = insert ?x (set (old_sectors w))"
    "distinct (old_sectors w) \<Longrightarrow> distinct (old_sectors (vp_drop i w))"
    by (auto simp: vp_drop_def RemoveUnsorted_def RegOldSectorIfMissing_def)
  moreover have "vp_same w (vp_drop i w)" "new_sectors (vp_drop i w) = new_sectors w"
    by (simp_all add: vp_same_def vp_drop_def RemoveUnsorted_def RegOldSectorIfMissing_def
        BoundBoxPos.truncate_def)
  moreover have "?x \<in> set (bb_sectors w)" using assms(2) by simp
  ultimately show ?thesis using assms(1) by (auto simp: vp_shrink_def vp_same_def)
qed

lemma vp_old_shrink:
  assumes "vp_ok ss v"
  shows "vp_shrink v (ViewPort_UpdateBoxOldSectors ss v)"
proof -
  have "vp_shrink v v" using assms by (simp add: vp_shrink_def vp_same_def vp_ok_def)
  then have "vp_shrink v (vp_sweep ss 0 v)"
    using vp_drop_shrink by (intro vp_walk.loop_inv [of "vp_shrink v"]) blast+
  then show ?thesis
    by (simp add: ViewPort_UpdateBoxOldSectors_def Let_def BoundBox_Sort_def vp_shrink_def vp_same_def
        BoundBoxPos.truncate_def)
qed

lemma vp_old_sectors:
  assumes "sorted (bb_sectors v)"
  shows "bb_sectors (ViewPort_UpdateBoxOldSectors ss v) =
    filter (\<lambda>s. Intersect (sec_box (ss ! s)) v) (bb_sectors v)"
proof -
  have eq: "vp_stays ss v = (\<lambda>s. Intersect (sec_box (ss ! s)) v)"
    by (rule ext) (simp add: vp_stays_def)
  show ?thesis using vp_walk.sweep_filter [of v ss] assms
    by (auto simp: ViewPort_UpdateBoxOldSectors_def Let_def BoundBox_Sort_def eq)
qed

lemma vp_old_ok: "vp_ok ss v \<Longrightarrow> vp_ok ss (ViewPort_UpdateBoxOldSectors ss v)"
  using vp_old_shrink [of ss v] vp_old_sectors [of v ss]
  by (auto simp: vp_ok_def vp_shrink_def intro: sorted_wrt_filter)

lemma vp_visit_step:
  assumes "vp_ok ss w" "vp_grow v w" "vp_visit ss ij w = Some w'"
  shows "vp_ok ss w' \<and> vp_grow v w'"
proof -
  obtain i j where ij: "ij = (i, j)" by (cases ij)
  have so: "sorted (bb_sectors w)" using assms(1) by (simp add: vp_ok_def)
  consider "w' = w" | k where "k < length ss" "k \<notin> set (bb_sectors w)" "w' = InsertSortedWithDelta k w"
  proof (cases "on_map i j")
    case False
    with assms(3) that(1) show thesis by (simp add: ij vp_visit_def)
  next
    case True
    with assms(3) obtain k where k: "get_sector ss (of_int i) (of_int j) = Some k"
      "w' = (if \<not> IsPresent k w \<and> Intersect (sec_box (ss ! k)) w then InsertSortedWithDelta k w else w)"
      by (auto simp: ij vp_visit_def bind_eq_Some_conv)
    show thesis
      using k(2) that(1) that(2) [of k] get_sector_lt [OF k(1)] IsPresent_iff [OF so, of k]
      by (cases "\<not> IsPresent k w \<and> Intersect (sec_box (ss ! k)) w") auto
  qed
  then show ?thesis
  proof cases
    case 1
    with assms show ?thesis by simp
  next
    case 2
    with assms(1,2) show ?thesis
      by (auto simp: vp_ok_def vp_grow_def vp_same_def InsertSortedWithDelta_def RegNewSectorIfMissing_def
          BoundBox_Insert_def BoundBoxPos.truncate_def box_vec.ins_set box_vec.ins_distinct
          sorted_insert_sector)
  qed
qed

lemma vp_new_step:
  assumes "vp_ok ss v" "ViewPort_UpdateBoxNewSectors ss nx ny ox oy v = Some v'"
  shows "vp_ok ss v' \<and> vp_grow v v'"
proof -
  have refl: "vp_grow v v" by (simp add: vp_grow_def vp_same_def)
  from assms(2) consider "v' = v" | cs where "fold_opt (vp_visit ss) cs v = Some v'"
    unfolding ViewPort_UpdateBoxNewSectors_def bind_eq_Some_conv by (auto split: if_splits)
  then show ?thesis
  proof cases
    case 1
    with assms(1) refl show ?thesis by simp
  next
    case (2 cs)
    show ?thesis
      by (rule fold_opt_inv [where P = "\<lambda>w. vp_ok ss w \<and> vp_grow v w", OF _ _ 2])
        (use assms(1) refl vp_visit_step in \<open>blast+\<close>)
  qed
qed

section \<open>Own cells\<close>


text \<open>A cast to a sector coordinate pins the position to the cell, up to the rounding of the quotient.\<close>

lemma sector_coord_cell:
  assumes "sector_coord c = Some i" "isfin c" "0 \<le> fval c" "fval c \<le> 43200"
  shows "0 \<le> i \<and> i \<le> 144 \<and> 300 * of_int i - 1 / 4 \<le> fval c \<and> fval c < 300 * of_int i + 300"
proof -
  have 300: "isfin (fl 300)" "fval (fl 300) = 300" using fl_value [of 300] by simp_all
  have "\<bar>fval c / 300\<bar> \<le> top_pow single" using top_single assms by simp
  then have q: "isfin (c / fl 300)" "rnd_of single (fval c / 300) (fval (c / fl 300))"
    using divide_value [of c "fl 300"] assms 300 by simp_all
  let ?v = "fval (c / fl 300)"
  have v: "0 \<le> ?v" "?v \<le> 144"
    using rnd_of_ge [OF q(2), of 0] rnd_of_le [OF q(2) grid_single_int [of 144]] assms by simp_all
  have i: "i = \<lfloor>?v\<rfloor>"
    using assms(1) q(1) v by (auto simp: sector_coord_def to_i16_def sector_size_def dest: cast_range_floor)
  then have i': "0 \<le> i" "i \<le> 144" "of_int i \<le> ?v" "?v < of_int i + 1"
    using v by (simp_all add: floor_le_iff)
  have 1: "fval c < 300 * of_int i + 300"
  proof (rule ccontr)
    assume "\<not> ?thesis"
    then have "of_int (i + 1) \<le> fval c / 300" by simp
    moreover have "grid single (of_int (i + 1))" using i'(1,2) by (intro grid_single_int) linarith
    ultimately have "of_int (i + 1) \<le> ?v" by (intro rnd_of_ge [OF q(2)])
    with i' show False by simp
  qed
  have 2: "300 * of_int i - 1 / 4 \<le> fval c"
  proof (rule ccontr)
    assume "\<not> ?thesis"
    then have "fval c / 300 \<le> of_int i - 1 / 2048" by simp
    also have "of_int i - 1 / 2048 = (of_int (i * 2048 - 1) * 2 powi (- 11) :: real)"
      by (simp add: power_int_def field_simps)
    finally have "?v \<le> of_int (i * 2048 - 1) * 2 powi (- 11)"
      using i'(1,2) by (intro rnd_of_le [OF q(2)] grid_single_dyadic) simp_all
    also have "\<dots> = of_int i - 1 / 2048" by (simp add: power_int_def field_simps)
    finally show False using i'(3) by simp
  qed
  from 1 2 i' show ?thesis by simp
qed

lemma grid_16ths: "\<bar>k\<bar> \<le> 16777216 \<Longrightarrow> grid single (of_int k / 16)"
  using grid_single_dyadic [of k "- 4"] by (simp add: power_int_def power_divide)

lemma diff_quarter:
  assumes "isfin x" "isfin y" "\<bar>fval x - fval y\<bar> \<le> 601 / 4"
  shows "isfin ((x - y) * (x - y)) \<and> 0 \<le> fval ((x - y) * (x - y)) \<and> fval ((x - y) * (x - y)) \<le> 361201 / 16"
proof -
  have t: "\<bar>fval x - fval y\<bar> \<le> top_pow single" using top_single assms by linarith
  note d = diff_value [OF assms(1,2) t]
  have g: "grid single (601 / 4)" using grid_16ths [of 2404] by simp
  have "fval (x - y) \<le> 601 / 4" using assms(3) by (intro rnd_of_le [OF d(2) g]) linarith
  moreover have "- (601 / 4) \<le> fval (x - y)"
    using assms(3) g by (intro rnd_of_ge [OF d(2)]) (simp only: grid_uminus, linarith)
  ultimately have "\<bar>fval (x - y)\<bar> \<le> 601 / 4" by linarith
  then have sq: "0 \<le> fval (x - y) * fval (x - y)" "fval (x - y) * fval (x - y) \<le> 361201 / 16"
    using mult_mono [of "\<bar>fval (x - y)\<bar>" "601 / 4" "\<bar>fval (x - y)\<bar>" "601 / 4"] by simp_all
  then have t': "\<bar>fval (x - y) * fval (x - y)\<bar> \<le> top_pow single" using top_single by linarith
  note m = mult_value [OF d(1) d(1) t']
  have g': "grid single (361201 / 16)" using grid_16ths [of 361201] by simp
  show ?thesis using m(1) rnd_of_le [OF m(2) g'] rnd_of_ge [OF m(2) grid_0] sq by simp
qed

text \<open>A sector's circle covers its square with room to spare for the rounding.\<close>

lemma cell_in_circle:
  assumes "isfin x" "isfin y" "isfin r" "0 \<le> fval r" "fval r \<le> 1000"
    and "\<bar>fval cx - fval x\<bar> \<le> 601 / 4" "\<bar>fval cy - fval y\<bar> \<le> 601 / 4" "isfin cx" "isfin cy"
  shows "intersect_circle cx cy x y (fl sector_diag_size / fl 2 + r)"
proof -
  have 425: "isfin (fl sector_diag_size / fl 2)" "fval (fl sector_diag_size / fl 2) = 425 / 2"
  proof -
    have e: "fl sector_diag_size / fl 2 = Fin False 13926400 (-16)" by code_simp
    show "isfin (fl sector_diag_size / fl 2)" unfolding e by simp
    show "fval (fl sector_diag_size / fl 2) = 425 / 2" unfolding e by (simp add: power_int_def power_divide)
  qed
  have t: "\<bar>425 / 2 + fval r\<bar> \<le> top_pow single" using top_single assms(4,5) by linarith
  note R = add_value [OF 425(1) assms(3), unfolded 425(2), OF t]
  let ?R = "fl sector_diag_size / fl 2 + r"
  have g: "grid single (425 / 2)" "grid single 2000"
    using grid_16ths [of 3400] grid_single_int [of 2000] by simp_all
  have R1: "425 / 2 \<le> fval ?R" "fval ?R \<le> 2000"
    using rnd_of_ge [OF R(2) g(1)] rnd_of_le [OF R(2) g(2)] assms(4,5) by simp_all
  have sq: "722500 / 16 \<le> fval ?R * fval ?R" "fval ?R * fval ?R \<le> 4000000"
    using mult_mono [of "425 / 2" "fval ?R" "425 / 2" "fval ?R"]
      mult_mono [of "fval ?R" 2000 "fval ?R" 2000] R1 by simp_all
  then have t': "\<bar>fval ?R * fval ?R\<bar> \<le> top_pow single" using top_single by linarith
  note RR = mult_value [OF R(1) R(1) t']
  have g': "grid single (722500 / 16)" using grid_16ths [of 722500] by simp
  have RR1: "722500 / 16 \<le> fval (?R * ?R)" using rnd_of_ge [OF RR(2) g'] sq by simp
  note X = diff_quarter [OF assms(8,1,6)] and Y = diff_quarter [OF assms(9,2,7)]
  let ?X = "(cx - x) * (cx - x)" and ?Y = "(cy - y) * (cy - y)"
  have s: "0 \<le> fval ?X + fval ?Y" "fval ?X + fval ?Y \<le> 722402 / 16" using X Y by linarith+
  then have t'': "\<bar>fval ?X + fval ?Y\<bar> \<le> top_pow single" using top_single by linarith
  have fX: "isfin ?X" "isfin ?Y" using X Y by simp_all
  note S = add_value [OF fX t'']
  have g'': "grid single (722402 / 16)" using grid_16ths [of 722402] by simp
  have "fval (?X + ?Y) \<le> 722402 / 16" using rnd_of_le [OF S(2) g''] s by simp
  with RR1 have "fval (?X + ?Y) \<le> fval (?R * ?R)" by linarith
  then show ?thesis using S(1) RR(1)
    by (simp add: intersect_circle_def distance_squared_def Let_def le_value)
qed


section \<open>The grid as the program keeps it\<close>

definition grid_ok :: "SectorSeq \<Rightarrow> bool" where
  "grid_ok ss \<longleftrightarrow> length ss = 20736 \<and> (\<forall>k < 20736. sec_x (ss ! k) = sec_x (InitSectors ! k) \<and>
     sec_y (ss ! k) = sec_y (InitSectors ! k) \<and> sec_box (ss ! k) = sec_box (InitSectors ! k))"

lemma grid_ok_InitSectors: "grid_ok InitSectors"
  by (simp add: grid_ok_def)

lemma grid_ok_same_but: "same_but i ss ss' \<Longrightarrow> grid_ok ss \<Longrightarrow> grid_ok ss'"
  by (auto simp: grid_ok_def same_but_def)

lemma grid_ok_length [simp]: "grid_ok ss \<Longrightarrow> length ss = 20736"
  by (simp add: grid_ok_def)

lemma grid_ok_centre:
  assumes "grid_ok ss" "on_map i j"
  shows "sec_box (ss ! nat (j * 144 + i)) =
    mk_pos (fl 1 * fl (300 * i + 150)) (fl 1 * fl (300 * j + 150)) (fl sector_diag_size / fl 2)"
proof -
  from assms(2) have ij: "0 \<le> i" "i < 144" "0 \<le> j" "j < 144"
    by (simp_all add: on_map_def count_along_edge)
  then have "nat (j * 144 + i) < 20736" by linarith
  moreover have "uint (of_int i :: u8) = i" "uint (of_int j :: u8) = j"
    using ij by (simp_all add: uint_word_of_int_eq take_bit_int_eq_self)
  ultimately show ?thesis using assms
    by (simp add: grid_ok_def InitSectors_nth mk_Sector_def Let_def sector_size_def)
qed

lemma fl_times_1:
  assumes "\<bar>n\<bar> \<le> 16777216"
  shows "isfin (fl 1 * fl n)" "fval (fl 1 * fl n) = of_int n"
proof -
  have 1: "isfin (fl 1)" "fval (fl 1) = 1" using fl_value [of 1] by simp_all
  have n: "isfin (fl n)" "fval (fl n) = of_int n" using fl_value [OF assms] by simp_all
  have "\<bar>of_int n :: real\<bar> \<le> 16777216" using assms by linarith
  then have t: "\<bar>fval (fl 1) * fval (fl n)\<bar> \<le> top_pow single" using top_single by (simp add: 1 n)
  note m = mult_value [OF 1(1) n(1) t]
  show "isfin (fl 1 * fl n)" by (rule m)
  show "fval (fl 1 * fl n) = of_int n"
    using rnd_of_exact [OF m(2)] assms by (simp add: 1 n)
qed

text \<open>A box overlaps the circle of the sector its centre lies in.\<close>

lemma own_cell_intersects:
  assumes "grid_ok ss" "sector_coord x = Some i" "sector_coord y = Some j" "on_map i j"
    and "isfin x" "0 \<le> fval x" "fval x \<le> 43200" "isfin y" "0 \<le> fval y" "fval y \<le> 43200"
    and "isfin r" "0 \<le> fval r" "fval r \<le> 1000"
  shows "Intersect (sec_box (ss ! nat (j * 144 + i))) (mk_pos x y r)"
proof -
  from assms(4) have ij: "0 \<le> i" "i < 144" "0 \<le> j" "j < 144"
    by (simp_all add: on_map_def count_along_edge)
  note cx = fl_times_1 [of "300 * i + 150"] and cy = fl_times_1 [of "300 * j + 150"]
  have "\<bar>fval (fl 1 * fl (300 * i + 150)) - fval x\<bar> \<le> 601 / 4"
    using sector_coord_cell [OF assms(2,5-7)] cx ij by (simp add: abs_if)
  moreover have "\<bar>fval (fl 1 * fl (300 * j + 150)) - fval y\<bar> \<le> 601 / 4"
    using sector_coord_cell [OF assms(3,8-10)] cy ij by (simp add: abs_if)
  ultimately show ?thesis using cell_in_circle [of x y r] cx cy ij assms
    by (simp add: Intersect_def grid_ok_centre mk_pos_def)
qed

section \<open>Properties\<close>

text \<open>
  C16: \<open>SnakeBoundBox::UpdateBoxOldSectors\<close> keeps exactly the sectors the box still touches, in
  order; it unregisters the box from the others and changes nothing else in the grid, and the box
  is again registered once in each of its sectors.
\<close>

theorem old_sectors_swept:
  assumes "box_ok (b, ss)" "SnakeBoundBox_UpdateBoxOldSectors (b, ss) = (b', ss')"
  shows "bb_sectors b' = filter (\<lambda>s. Intersect (sec_box (ss ! s)) b) (bb_sectors b) \<and>
    box_ok (b', ss') \<and> same_but (bb_id b) ss ss'"
proof -
  from assms(1) have ok: "registered b ss" "sorted (bb_sectors b)" by (simp_all add: box_ok_def)
  have "bb_sectors b' = filter (\<lambda>s. Intersect (sec_box (ss ! s)) b) (bb_sectors b)"
    using UpdateBoxOldSectors_sectors [OF ok(2), of ss] by (simp add: assms(2))
  with UpdateBoxOldSectors_step [OF ok(1)] ok(2) show ?thesis
    by (simp add: assms(2) box_ok_def box_step_def sorted_wrt_filter)
qed

text \<open>
  C15: moving a box to new coordinates (\<open>SnakeBoundBox::UpdateBoxNewSectors\<close>) never loses a sector,
  keeps the registration invariant, touches no other snake's registration, and when the cell of
  the coordinates changed registers the box in the sector it moved to.
\<close>

theorem new_sectors_own_cell:
  assumes "grid_ok ss" "box_ok (b, ss)"
    and "SnakeBoundBox_UpdateBoxNewSectors (fl 150) nx ny ox oy (b, ss) = Some (b', ss')"
    and "sector_coord nx = Some i" "sector_coord ny = Some j" "on_map i j"
    and "between 0 43200 nx" "between 0 43200 ny"
    and "sector_coord ox \<noteq> Some i \<or> sector_coord oy \<noteq> Some j"
  shows "box_ok (b', ss') \<and> grid_ok ss' \<and> same_but (bb_id b) ss ss' \<and>
    set (bb_sectors b) \<subseteq> set (bb_sectors b') \<and>
    nat (j * 144 + i) \<in> set (bb_sectors b') \<and> this_ref b \<in> set (sec_snakes (ss' ! nat (j * 144 + i)))"
proof -
  have step: "box_ok (b', ss')" "box_step (b, ss) (b', ss')" "set (bb_sectors b) \<subseteq> set (bb_sectors b')"
    using UpdateBoxNewSectors_step [OF assms(2,3)] by simp_all
  have "Intersect (sec_box (ss ! nat (j * 144 + i))) (mk_pos nx ny (fl 150))"
    using own_cell_intersects [OF assms(1,4-6), of "fl 150"] assms(7,8) fl_value [of 150]
    by (simp add: between_def)
  then have k: "nat (j * 144 + i) \<in> set (bb_sectors b')"
    using UpdateBoxNewSectors_enters [OF assms(2) _ assms(3-5,9), of i j] assms(1,6) by simp
  then have "nat (j * 144 + i) < length ss'" using step(1) by (simp add: box_ok_def registered_def)
  with k step(1) have "this_ref b' \<in> set (filter (\<lambda>r. ref_id r = bb_id b') (sec_snakes (ss' ! nat (j * 144 + i))))"
    by (simp add: box_ok_def registered_def)
  with k step grid_ok_same_but [OF _ assms(1)] show ?thesis
    by (auto simp: box_step_def this_ref_def)
qed

text \<open>
  C17: one movement of a player's view port, new sectors then old ones, leaves in the vector
  exactly the old sectors plus those announced as new minus those announced as old; what is dropped is
  what no longer intersects, and no sector is announced twice.
\<close>

theorem viewport_delta:
  assumes "vp_ok ss v" "new_sectors v = []" "old_sectors v = []"
    and "ViewPort_UpdateBoxNewSectors ss nx ny ox oy v = Some v'"
    and "w = ViewPort_UpdateBoxOldSectors ss (v'\<lparr>pos_x := nx, pos_y := ny, pos_r := r\<rparr>)"
  shows "set (bb_sectors w) = (set (bb_sectors v) \<union> set (new_sectors w)) - set (old_sectors w) \<and>
    set (new_sectors w) \<inter> set (bb_sectors v) = {} \<and> vp_ok ss w \<and>
    (\<forall>k \<in> set (bb_sectors w). Intersect (sec_box (ss ! k)) w)"
proof -
  let ?v = "v'\<lparr>pos_x := nx, pos_y := ny, pos_r := r\<rparr>"
  have 1: "vp_ok ss v'" "vp_grow v v'" using vp_new_step [OF assms(1,4)] by simp_all
  have 2: "vp_ok ss ?v" using 1(1) by (simp add: vp_ok_def)
  note 3 = vp_old_shrink [OF 2, folded assms(5)] and 4 = vp_old_ok [OF 2, folded assms(5)]
  have 5: "bb_sectors w = filter (\<lambda>s. Intersect (sec_box (ss ! s)) ?v) (bb_sectors ?v)"
    using vp_old_sectors [of ?v ss] 2 by (simp add: assms(5) vp_ok_def)
  have 6: "Intersect p w = Intersect p ?v" for p :: BoundBoxPos
    using 3 by (intro vp_same_Intersect) (simp add: vp_shrink_def)
  have n: "set (new_sectors w) = set (bb_sectors v') - set (bb_sectors v)"
    "set (bb_sectors v) \<subseteq> set (bb_sectors v')"
    using 1(2) 3 by (simp_all add: vp_grow_def vp_shrink_def assms(2))
  have o: "set (old_sectors w) = set (bb_sectors v') - set (bb_sectors w)"
    "set (bb_sectors w) \<subseteq> set (bb_sectors v')"
    using 1(2) 3 by (simp_all add: vp_grow_def vp_shrink_def assms(3))
  have "\<forall>k \<in> set (bb_sectors w). Intersect (sec_box (ss ! k)) w"
    unfolding 5 6 by simp
  with n o 4 show ?thesis by blast
qed

text \<open>
  C18: a sector's food stays sorted by \<open>x\<close> under insertion, nothing is lost or invented, and
  \<open>FindClosestFood\<close> splits it: food before the result lies left of the argument, the rest does not.
\<close>

theorem sector_food_sorted:
  assumes "sorted (map food_x (sec_food s))"
  shows "sorted (map food_x (sec_food (Sector_Insert f s))) \<and>
    mset (sec_food (Sector_Insert f s)) = add_mset f (mset (sec_food s)) \<and>
    (\<forall>g \<in> set (take (FindClosestFood x s) (sec_food s)). food_x g < x) \<and>
    (\<forall>g \<in> set (drop (FindClosestFood x s) (sec_food s)). x \<le> food_x g)"
proof -
  have split: "\<forall>g \<in> set (take (FindClosestFood x s) (sec_food s)). food_x g < x"
    "\<forall>g \<in> set (drop (FindClosestFood x s) (sec_food s)). \<not> food_x g < x"
    unfolding FindClosestFood_def
    by (rule lower_bound_take_drop [OF partitioned_sorted [OF assms]])+
  have ins: "sec_food (Sector_Insert f s) = insert_food f (sec_food s)" by (simp add: Sector_Insert_def)
  have "\<forall>g \<in> set (drop (FindClosestFood x s) (sec_food s)). x \<le> food_x g"
    using split(2) by (simp only: not_less)
  then show ?thesis
    using split(1) food_vec.ins_sorted [OF assms, of f] food_vec.ins_mset [of f "sec_food s"]
    unfolding ins by (intro conjI)
qed

text \<open>Witnesses.\<close>

definition sample_grid :: SectorSeq where
  "sample_grid =
    [(mk_Sector 0 0)\<lparr>sec_snakes := [\<lparr>ref_snake = 1, ref_id = 7\<rparr>, \<lparr>ref_snake = 2, ref_id = 8\<rparr>]\<rparr>,
     mk_Sector 1 0,
     (mk_Sector 100 0)\<lparr>sec_snakes := [\<lparr>ref_snake = 1, ref_id = 7\<rparr>]\<rparr>]"

definition sample_box :: SnakeBoundBox where
  "sample_box = \<lparr>pos_x = fl 100, pos_y = fl 100, pos_r = fl 150, bb_id = 7, bb_snake = 1, bb_sectors = [0, 2]\<rparr>"

lemma sample_box_ok: "box_ok (sample_box, sample_grid)"
  by (simp add: box_ok_def registered_def sample_box_def sample_grid_def this_ref_def mk_Sector_def
      Let_def numeral_3_eq_3 numeral_2_eq_2 less_Suc_eq nth_Cons split: nat.splits)

theorem old_sectors_swept_witness:
  "bb_sectors (fst (SnakeBoundBox_UpdateBoxOldSectors (sample_box, sample_grid))) =
     filter (\<lambda>s. Intersect (sec_box (sample_grid ! s)) sample_box) [0, 2] \<and>
   filter (\<lambda>s. Intersect (sec_box (sample_grid ! s)) sample_box) [0, 2] = [0]"
proof -
  have "filter (\<lambda>s. Intersect (sec_box (sample_grid ! s)) sample_box) [0, 2] = [0]" by code_simp
  with old_sectors_swept [OF sample_box_ok] show ?thesis
    by (cases "SnakeBoundBox_UpdateBoxOldSectors (sample_box, sample_grid)") (simp add: sample_box_def)
qed

lemma snakes_InitSectors: "k < 20736 \<Longrightarrow> sec_snakes (InitSectors ! k) = []"
  by (simp add: InitSectors_def count_along_edge mk_Sector_def Let_def)

lemma fresh_box_ok: "box_ok (b\<lparr>bb_sectors := []\<rparr>, InitSectors)"
  by (simp add: box_ok_def registered_def snakes_InitSectors)

theorem new_sectors_own_cell_witness:
  "\<exists>b' ss'. SnakeBoundBox_UpdateBoxNewSectors (fl 150) (fl 21600) (fl 20000) (fl 0) (fl 0)
      (sample_box\<lparr>bb_sectors := []\<rparr>, InitSectors) = Some (b', ss') \<and> nat (66 * 144 + 72) \<in> set (bb_sectors b')"
proof -
  have c: "sector_coord (fl 21600) = Some 72" "sector_coord (fl 20000) = Some 66" "sector_coord (fl 0) = Some 0"
    "on_map 72 66"
    by code_simp+
  have b: "between 0 43200 (fl 21600)" "between 0 43200 (fl 20000)"
    using fl_value [of 21600] fl_value [of 20000] by (simp_all add: between_def)
  obtain b' ss' where r: "SnakeBoundBox_UpdateBoxNewSectors (fl 150) (fl 21600) (fl 20000) (fl 0) (fl 0)
      (sample_box\<lparr>bb_sectors := []\<rparr>, InitSectors) = Some (b', ss')"
    using UpdateBoxNewSectors_total [of "(sample_box\<lparr>bb_sectors := []\<rparr>, InitSectors)" "fl 21600" "fl 20000" "fl 0" "fl 0"] c(1-3)
    by (metis (no_types, lifting) insert_iff empty_iff length_InitSectors option.distinct(1) prod.exhaust snd_conv)
  have "sector_coord (fl 0) \<noteq> Some 72 \<or> sector_coord (fl 0) \<noteq> Some 66" using c(3) by simp
  from new_sectors_own_cell [OF grid_ok_InitSectors fresh_box_ok r c(1,2,4) b this]
  have "nat (66 * 144 + 72) \<in> set (bb_sectors b')" by (elim conjE)
  with r show ?thesis by blast
qed

definition sample_port :: ViewPort where
  "sample_port = \<lparr>pos_x = fl 100, pos_y = fl 100, pos_r = fl 450, bb_id = 7, bb_snake = 1,
     bb_sectors = [0, 1], new_sectors = [], old_sectors = []\<rparr>"

lemma vp_visit_total: "length ss = 20736 \<Longrightarrow> \<exists>v'. vp_visit ss ij v = Some v'"
  by (cases ij) (auto simp: vp_visit_def get_sector_on_map)

lemma vp_new_total:
  assumes "length ss = 20736" "\<forall>c \<in> {nx, ny, ox, oy}. sector_coord c \<noteq> None"
  shows "\<exists>v'. ViewPort_UpdateBoxNewSectors ss nx ny ox oy v = Some v'"
proof -
  have fold: "\<exists>v'. fold_opt (vp_visit ss) cs v = Some v' \<and> True" for cs v
    by (rule fold_opt_total) (use vp_visit_total [OF assms(1)] in \<open>blast+\<close>)
  from assms(2) obtain a b c d where "sector_coord nx = Some a" "sector_coord ny = Some b"
    "sector_coord ox = Some c" "sector_coord oy = Some d" by auto
  then show ?thesis using fold by (simp add: ViewPort_UpdateBoxNewSectors_def)
qed

theorem viewport_delta_witness:
  "\<exists>v'. ViewPort_UpdateBoxNewSectors InitSectors (fl 1000) (fl 1000) (fl 100) (fl 100) sample_port = Some v' \<and>
    (let w = ViewPort_UpdateBoxOldSectors InitSectors (v'\<lparr>pos_x := fl 1000, pos_y := fl 1000, pos_r := fl 1275\<rparr>)
     in set (bb_sectors w) = ({0, 1} \<union> set (new_sectors w)) - set (old_sectors w))"
proof -
  have ok: "vp_ok InitSectors sample_port" "new_sectors sample_port = []" "old_sectors sample_port = []"
    by (simp_all add: vp_ok_def sample_port_def)
  have "\<forall>c \<in> {fl 1000, fl 1000, fl 100, fl 100}. sector_coord c \<noteq> None" by code_simp
  then obtain v' where v': "ViewPort_UpdateBoxNewSectors InitSectors (fl 1000) (fl 1000) (fl 100) (fl 100) sample_port = Some v'"
    using vp_new_total [OF length_InitSectors] by blast
  from viewport_delta [OF ok v' refl] v' show ?thesis by (simp add: Let_def sample_port_def)
qed

theorem sector_food_sorted_witness:
  "mset (sec_food (Sector_Insert (mk_food 5 0 1 1) ((mk_Sector 0 0)\<lparr>sec_food := [mk_food 3 1 1 1, mk_food 9 2 1 1]\<rparr>))) =
    {#mk_food 3 1 1 1, mk_food 5 0 1 1, mk_food 9 2 1 1#}"
  using sector_food_sorted [of "(mk_Sector 0 0)\<lparr>sec_food := [mk_food 3 1 1 1, mk_food 9 2 1 1]\<rparr>" "mk_food 5 0 1 1" 0]
  by (simp add: mk_food_def)

end
