(* ===== verification/Snakes.thy ===== *)
theory Snakes
  imports Sectors
begin

text \<open>
  \<open>src/src/game/snake.h\<close> and \<open>snake.cc\<close>, without the tick: the snake's state, the constants that
  depend on its length, growing and shrinking, the food it eats and drops, its box, and the
  collision test. The movement is in \<open>SnakeTick\<close>.

  The C library's \<open>cosf\<close>, \<open>sinf\<close>, \<open>atan2f\<close>, \<open>powf\<close> and \<open>rand\<close> and the library's \<open>std::sort\<close> on food are
  arguments, collected in the record \<open>libc\<close>; a position in the stream of \<open>rand\<close> values stands for
  the generator's state.
  \<open>size_t\<close> expressions that can wrap are written with \<open>size_of\<close>.
\<close>

record libc =
  m_cosf :: "flt \<Rightarrow> flt"
  m_sinf :: "flt \<Rightarrow> flt"
  m_atan2f :: "flt \<Rightarrow> flt \<Rightarrow> flt"
  m_powf :: "flt \<Rightarrow> flt \<Rightarrow> flt"
  m_rand :: "nat \<Rightarrow> int"
  m_rand_max :: int
  m_sort :: "FoodSeq \<Rightarrow> FoodSeq"

definition size_of :: "int \<Rightarrow> int" where
  "size_of n = n mod 18446744073709551616"

section \<open>State (snake.h)\<close>

definition change_pos :: u8 where "change_pos = 1"
definition change_angle :: u8 where "change_angle = 2"
definition change_wangle :: u8 where "change_wangle = 4"
definition change_speed :: u8 where "change_speed = 8"
definition change_fullness :: u8 where "change_fullness = 16"
definition change_dying :: u8 where "change_dying = 32"
definition change_dead :: u8 where "change_dead = 64"

lemmas change_defs = change_pos_def change_angle_def change_wangle_def change_speed_def
  change_fullness_def change_dying_def change_dead_def

record Body =
  body_x :: flt
  body_y :: flt

type_synonym BodySeq = "Body list"

definition Offset :: "flt \<Rightarrow> flt \<Rightarrow> Body \<Rightarrow> Body" where
  "Offset dx dy b = \<lparr>body_x = body_x b + dx, body_y = body_y b + dy\<rparr>"

definition DistanceSquared :: "Body \<Rightarrow> flt \<Rightarrow> flt \<Rightarrow> flt" where
  "DistanceSquared p dx dy = (let a = body_x p - dx; b = body_y p - dy in a * a + b * b)"

record Snake =
  sn_id :: u16
  skin :: u8
  update :: u8
  acceleration :: bool
  bot :: bool
  sn_name :: string
  speed :: u16
  angle :: flt
  wangle :: flt
  fullness :: u16
  sbb :: SnakeBoundBox
  vp :: ViewPort
  parts :: BodySeq
  eaten :: FoodSeq
  spawn :: FoodSeq
  clientPartsIndex :: nat
  mov_ticks :: int
  rot_ticks :: int
  ai_ticks :: int
  gsc :: flt
  sc :: flt
  scang :: flt
  ssp :: flt
  fsp :: flt
  sbpr :: flt

definition get_head :: "Snake \<Rightarrow> Body" where "get_head s = parts s ! 0"
definition get_head_x :: "Snake \<Rightarrow> flt" where "get_head_x s = body_x (parts s ! 0)"
definition get_head_y :: "Snake \<Rightarrow> flt" where "get_head_y s = body_y (parts s ! 0)"
definition get_head_dx :: "Snake \<Rightarrow> flt" where
  "get_head_dx s = body_x (parts s ! 0) - body_x (parts s ! 1)"
definition get_head_dy :: "Snake \<Rightarrow> flt" where
  "get_head_dy s = body_y (parts s ! 0) - body_y (parts s ! 1)"

definition spangdv :: flt where "spangdv = lit 48 10"
definition nsp1 :: flt where "nsp1 = lit 539 100"
definition nsp2 :: flt where "nsp2 = lit 4 10"
definition nsp3 :: flt where "nsp3 = lit 140 10"
definition base_move_speed :: u16 where "base_move_speed = 185"
definition boost_speed :: u16 where "boost_speed = 448"
definition speed_acceleration :: int where "speed_acceleration = 1000"
definition prey_angular_speed :: flt where "prey_angular_speed = lit 35 10"
definition snake_angular_speed :: flt where "snake_angular_speed = lit 4125 1000"
definition snake_tail_k :: flt where "snake_tail_k = lit 43 100"
definition parts_skip_count :: nat where "parts_skip_count = 3"
definition parts_start_move_count :: nat where "parts_start_move_count = 4"
definition tail_step_distance :: flt where "tail_step_distance = fl 24"
definition rot_step_angle :: flt where
  "rot_step_angle = fl 1 * fl move_step_distance / fl (uint boost_speed) * snake_angular_speed"
definition rot_step_interval :: int where
  "rot_step_interval = the (cast_range (- 9223372036854775808) 9223372036854775807
     (fl 1000 * rot_step_angle / snake_angular_speed))"
definition ai_step_interval :: int where "ai_step_interval = 1000"

text \<open>\<open>static_cast<size_t>(sector_size / tail_step_distance)\<close>\<close>

definition tail_step :: nat where
  "tail_step = the (to_size (fl sector_size / tail_step_distance))"

section \<open>Constants of the length\<close>

definition UpdateSnakeConsts :: "Snake \<Rightarrow> Snake" where
  "UpdateSnakeConsts s =
    (let n = int (length (parts s));
         gsc' = lit 1 2 + lit 4 10 / fmaxf (fl 1) (fl 1 * fl (size_of (n - 1 + 16)) / fl 36);
         sc' = fminf (fl 6) (fl 1 + fl 1 * fl (size_of (n - 1 - 2)) / fl 106);
         scang_x = fl 1 * fl (size_of (7 - n - 1)) / fl 6;
         scang' = lit 13 100 + lit 87 100 * scang_x * scang_x;
         ssp' = nsp1 + nsp2 * sc'
     in s\<lparr>gsc := gsc', sc := sc', scang := scang', ssp := ssp', fsp := ssp' + lit 1 10,
          sbpr := fl 29 * lit 1 2 * sc'\<rparr>)"

definition get_snake_scale :: "Snake \<Rightarrow> flt" where "get_snake_scale s = gsc s"
definition get_snake_body_part_radius :: "Snake \<Rightarrow> flt" where "get_snake_body_part_radius s = sbpr s"

text \<open>The tables behind the score.\<close>

definition get_fmlts :: "libc \<Rightarrow> flt list" where
  "get_fmlts m = map (\<lambda>i. m_powf m (fl 1 - fl 1 * fl (int i) / fl max_snake_parts) (lit 225 100))
     [0..<nat max_snake_parts]"

fun fpsls_from :: "flt \<Rightarrow> flt list \<Rightarrow> flt list" where
  "fpsls_from acc [] = []"
| "fpsls_from acc (f # fs) = acc # fpsls_from (acc + fl 1 / f) fs"

definition get_fpsls :: "flt list \<Rightarrow> flt list" where
  "get_fpsls fmlts = fpsls_from (fl 0) fmlts"

definition get_snake_score :: "libc \<Rightarrow> Snake \<Rightarrow> u16 option" where
  "get_snake_score m s =
    (let fmlts = get_fmlts m; fpsls = get_fpsls fmlts;
         n = size_of (int (length (parts s)) - 1);
         sct = nat (if n \<ge> int (length fmlts) then int (length fmlts) - 1 else n)
     in to_u16 (fl 15 * (fpsls ! sct + fl (uint (fullness s)) / fl 100 / fmlts ! sct - fl 1) - fl 5))"

section \<open>Food the snake drops and the changes of its length\<close>

text \<open>
  \<open>SpawnFood\<close> looks for the sector among those of the snake's box only; elsewhere the food is lost.
\<close>

definition SpawnFood :: "Food \<Rightarrow> Snake \<times> SectorSeq \<Rightarrow> Snake \<times> SectorSeq" where
  "SpawnFood f st = (case st of (s, ss) \<Rightarrow>
    (case List.find (\<lambda>k. uint (sec_x (ss ! k)) = uint (food_x f) div sector_size \<and>
                         uint (sec_y (ss ! k)) = uint (food_y f) div sector_size) (bb_sectors (sbb s)) of
       None \<Rightarrow> (s, ss)
     | Some k \<Rightarrow> (s\<lparr>spawn := spawn s @ [f]\<rparr>, ss[k := Sector_Insert f (ss ! k)])))"

text \<open>\<open>parts.back()\<close> of an empty vector is undefined.\<close>

definition IncreaseSnake :: "u16 \<Rightarrow> Snake \<Rightarrow> Snake option" where
  "IncreaseSnake volume s = do {
     let full = fullness s + volume;
     s \<leftarrow> (if full \<ge> 100 then
            (if parts s = [] then None
             else Some (s\<lparr>fullness := full - 100, parts := parts s @ [last (parts s)]\<rparr>))
          else Some (s\<lparr>fullness := full\<rparr>));
     Some (UpdateSnakeConsts (s\<lparr>update := update s OR change_fullness\<rparr>)) }"

definition drop_tail :: "Snake \<times> SectorSeq \<Rightarrow> (Snake \<times> SectorSeq) option" where
  "drop_tail st = (case st of (s, ss) \<Rightarrow>
     if length (parts s) > 3 then do {
       x \<leftarrow> to_u16 (body_x (last (parts s)));
       y \<leftarrow> to_u16 (body_y (last (parts s)));
       let (s, ss) = SpawnFood (mk_food x y 100 (skin s)) (s, ss);
       Some (s\<lparr>parts := butlast (parts s)\<rparr>, ss) }
     else Some (s, ss))"

definition DecreaseSnake :: "u16 \<Rightarrow> Snake \<times> SectorSeq \<Rightarrow> (Snake \<times> SectorSeq) option" where
  "DecreaseSnake volume st = do {
     (s, ss) \<leftarrow> (if volume > fullness (fst st) then do {
         let volume = volume - fullness (fst st);
         let reduce = 1 + volume div 100;
         (s, ss) \<leftarrow> fold_opt (\<lambda>_. drop_tail) [0..<unat reduce] st;
         Some (s\<lparr>fullness := 100 - volume mod 100\<rparr>, ss) }
       else Some ((fst st)\<lparr>fullness := fullness (fst st) - volume\<rparr>, snd st));
     Some (UpdateSnakeConsts (s\<lparr>update := update s OR change_fullness\<rparr>), ss) }"

definition on_food_eaten :: "Food \<Rightarrow> Snake \<Rightarrow> Snake option" where
  "on_food_eaten f s = do {
     s \<leftarrow> IncreaseSnake (ucast (food_size f)) s;
     Some (s\<lparr>eaten := eaten s @ [f]\<rparr>) }"

section \<open>Eating\<close>

text \<open>
  The two walks from the head's place in the sector's sorted food. \<open>eat_left i\<close> looks at position
  \<open>i - 1\<close>; \<open>Remove\<close> moves the food behind it one place down. At position 0 the source still forms the
  iterator \<open>begin() - 1\<close> (snake.cc:245, and \<open>left--\<close> after the last piece) and compares it with \<open>begin()\<close>.
  The standard leaves that undefined; with the pointers that vector iterators are, the comparison ends the
  walk and the iterator is never read. The model counts only the reading of a place outside a vector as
  undefined, so the walk ends with \<open>Some\<close> at position 0.
\<close>

fun eat_left :: "u16 \<Rightarrow> u16 \<Rightarrow> int \<Rightarrow> nat \<Rightarrow> Snake \<Rightarrow> Sector \<Rightarrow> (nat \<times> Snake \<times> Sector) option" where
  "eat_left hx hy r2 0 s sec = Some (0, s, sec)"
| "eat_left hx hy r2 (Suc i) s sec = do {
     let f = sec_food sec ! i;
     d \<leftarrow> distance_squared_u16 (food_x f) (food_y f) hx hy;
     if d \<le> r2 then do {
       s \<leftarrow> on_food_eaten f s;
       eat_left hx hy r2 i s (Sector_Remove i sec) }
     else Some (Suc i, s, sec) }"

function eat_right :: "u16 \<Rightarrow> u16 \<Rightarrow> int \<Rightarrow> nat \<Rightarrow> Snake \<Rightarrow> Sector \<Rightarrow> (Snake \<times> Sector) option" where
  "eat_right hx hy r2 i s sec =
    (if i < length (sec_food sec) then do {
       let f = sec_food sec ! i;
       d \<leftarrow> distance_squared_u16 (food_x f) (food_y f) hx hy;
       if d \<le> r2 then do {
         s \<leftarrow> on_food_eaten f s;
         eat_right hx hy r2 i s (Sector_Remove i sec) }
       else Some (s, sec) }
     else Some (s, sec))"
  by pat_completeness auto
termination
  by (relation "measure (\<lambda>(hx, hy, r2, i, s, sec). length (sec_food sec) - i)")
    (auto simp: Sector_Remove_def erase_at_def)

declare eat_right.simps [simp del]

definition UpdateEatenFood :: "Snake \<times> SectorSeq \<Rightarrow> (Snake \<times> SectorSeq) option" where
  "UpdateEatenFood st = (case st of (s, ss) \<Rightarrow> do {
     hx \<leftarrow> to_u16 (get_head_x s);
     hy \<leftarrow> to_u16 (get_head_y s);
     r \<leftarrow> to_u16 (fl 14 + get_snake_body_part_radius s + fl move_step_distance);
     r2 \<leftarrow> i32 (uint r * uint r);
     k \<leftarrow> get_sector ss (of_int (uint hx div sector_size)) (of_int (uint hy div sector_size));
     let i = FindClosestFood hx (ss ! k);
     (i, s, sec) \<leftarrow> eat_left hx hy r2 i s (ss ! k);
     (s, sec) \<leftarrow> eat_right hx hy r2 i s sec;
     Some (s, ss[k := sec]) })"

section \<open>Dying\<close>

definition NextRandomf :: "libc \<Rightarrow> nat \<Rightarrow> flt \<times> nat" where
  "NextRandomf m rs = (fl 1 * fl (m_rand m rs) / fl (m_rand_max m), rs + 1)"

definition dead_food :: "libc \<Rightarrow> Body \<Rightarrow> flt \<Rightarrow> u16 \<Rightarrow> u8 \<Rightarrow> nat
    \<Rightarrow> Snake \<times> SectorSeq \<times> nat \<Rightarrow> (Snake \<times> SectorSeq \<times> nat) option" where
  "dead_food m p r r2 food_sz k st = (case st of (s, ss, rs) \<Rightarrow> do {
     let (rx, rs) = NextRandomf m rs;
     x \<leftarrow> to_u16 (body_x p + r - rx * fl (uint r2));
     let (ry, rs) = NextRandomf m rs;
     y \<leftarrow> to_u16 (body_y p + r - ry * fl (uint r2));
     let (rc, rs) = NextRandomf m rs;
     c \<leftarrow> to_u8 (fl 29 * rc);
     let f = mk_food x y food_sz c;
     Some (s\<lparr>spawn := spawn s @ [f]\<rparr>, ss[k := Sector_Insert f (ss ! k)], rs) })"

definition dead_part :: "libc \<Rightarrow> flt \<Rightarrow> u16 \<Rightarrow> nat \<Rightarrow> u8 \<Rightarrow> Body
    \<Rightarrow> Snake \<times> SectorSeq \<times> nat \<Rightarrow> (Snake \<times> SectorSeq \<times> nat) option" where
  "dead_part m r r2 cnt food_sz p st = do {
     sx \<leftarrow> to_u16 (body_x p / fl sector_size);
     sy \<leftarrow> to_u16 (body_y p / fl sector_size);
     if 0 < sx \<and> uint sx < sector_count_along_edge - 1 \<and> 0 < sy \<and> uint sy < sector_count_along_edge - 1
     then do {
       k \<leftarrow> get_sector (fst (snd st)) sx sy;
       fold_opt (\<lambda>_. dead_food m p r r2 food_sz k) [0..<cnt] st }
     else Some st }"

text \<open>The division by \<open>count\<close> is undefined for a count of 0.\<close>

definition on_dead_food_spawn :: "libc \<Rightarrow> Snake \<times> SectorSeq \<times> nat \<Rightarrow> (Snake \<times> SectorSeq \<times> nat) option" where
  "on_dead_food_spawn m st = do {
     let r = get_snake_body_part_radius (fst st);
     r2 \<leftarrow> to_u16 (r * fl 3);
     cnt \<leftarrow> to_size (sc (fst st) * fl 2);
     food_sz \<leftarrow> (if cnt = 0 then None else Some (of_nat (100 div cnt)));
     fold_opt (dead_part m r r2 cnt food_sz) (parts (fst st)) st }"

section \<open>The box\<close>

definition UpdateBoxCenter :: "Snake \<Rightarrow> Snake" where
  "UpdateBoxCenter s =
    (let (x, y) = fold (\<lambda>p (x, y). (x + body_x p, y + body_y p)) (parts s) (fl 0, fl 0);
         n = fl (int (length (parts s)))
     in s\<lparr>sbb := (sbb s)\<lparr>pos_x := x / n, pos_y := y / n\<rparr>,
          vp := (vp s)\<lparr>pos_x := get_head_x s, pos_y := get_head_y s\<rparr>\<rparr>)"

definition UpdateBoxRadius :: "Snake \<Rightarrow> Snake" where
  "UpdateBoxRadius s =
    (let n = int (length (parts s));
         d = fl 42 + fl 42 + fl 42 + lit 377 10 + lit 377 10 + fl 33 + lit 285 10;
         d = (if n > 8 then d + tail_step_distance * fl (n - 8) else d)
     in s\<lparr>sbb := (sbb s)\<lparr>pos_r := (d + fl move_step_distance) / fl 2\<rparr>,
          vp := (vp s)\<lparr>pos_r := fl sector_diag_size * fl 3\<rparr>\<rparr>)"

definition get_new_box :: "addr \<Rightarrow> Snake \<Rightarrow> BoundBox" where
  "get_new_box a s = \<lparr>pos_x = get_head_x s, pos_y = get_head_y s, pos_r = fl 0,
     bb_id = sn_id s, bb_snake = a, bb_sectors = []\<rparr>"

definition mk_ViewPort :: "BoundBox \<Rightarrow> ViewPort" where
  "mk_ViewPort b = BoundBox.extend b \<lparr>new_sectors = [], old_sectors = []\<rparr>"

definition sbb_new_sectors :: "flt \<Rightarrow> flt \<Rightarrow> flt \<Rightarrow> flt \<Rightarrow> Snake \<times> SectorSeq \<Rightarrow> (Snake \<times> SectorSeq) option" where
  "sbb_new_sectors nx ny ox oy st = do {
     (b, ss) \<leftarrow> SnakeBoundBox_UpdateBoxNewSectors (fl (sector_size div 2)) nx ny ox oy (sbb (fst st), snd st);
     Some ((fst st)\<lparr>sbb := b\<rparr>, ss) }"

definition vp_new_sectors :: "flt \<Rightarrow> flt \<Rightarrow> flt \<Rightarrow> flt \<Rightarrow> Snake \<times> SectorSeq \<Rightarrow> (Snake \<times> SectorSeq) option" where
  "vp_new_sectors nx ny ox oy st =
    (if bot (fst st) then Some st
     else do {
       v \<leftarrow> ViewPort_UpdateBoxNewSectors (snd st) nx ny ox oy (vp (fst st));
       Some ((fst st)\<lparr>vp := v\<rparr>, snd st) })"

text \<open>The body parts \<open>3, 3 + step, 3 + 2 step, ...\<close> below \<open>len\<close>.\<close>

definition stepped :: "nat \<Rightarrow> nat \<Rightarrow> nat \<Rightarrow> nat list" where
  "stepped start step len = filter (\<lambda>i. (i - start) mod step = 0) [start..<len]"

definition InitBoxNewSectors :: "Snake \<times> SectorSeq \<Rightarrow> (Snake \<times> SectorSeq) option" where
  "InitBoxNewSectors st = do {
     let hx = get_head_x (fst st);
     let hy = get_head_y (fst st);
     st \<leftarrow> sbb_new_sectors hx hy (fl 0) (fl 0) st;
     st \<leftarrow> vp_new_sectors hx hy (fl 0) (fl 0) st;
     fold_opt (\<lambda>i st. let p = parts (fst st) ! i in
         sbb_new_sectors (body_x p) (body_y p) (fl 0) (fl 0) st)
       (stepped 3 tail_step (length (parts (fst st)))) st }"

section \<open>Collisions\<close>

text \<open>One body part against the foe: \<open>prev\<close>, the part itself and the middle between them.\<close>

definition hits_part :: "Snake \<Rightarrow> BoundBoxPos \<Rightarrow> Body \<Rightarrow> Body \<Rightarrow> bool" where
  "hits_part s foe prev iter =
    (intersect_circle (body_x iter) (body_y iter) (pos_x foe) (pos_y foe) (fl (move_step_distance * 2)) \<and>
     (let r = pos_r foe + get_snake_body_part_radius s
      in intersect_circle (body_x iter) (body_y iter) (pos_x foe) (pos_y foe) r \<or>
         intersect_circle (body_x prev) (body_y prev) (pos_x foe) (pos_y foe) r \<or>
         intersect_circle (body_x iter + (body_x prev - body_x iter) / fl 2)
           (body_y iter + (body_y prev - body_y iter) / fl 2) (pos_x foe) (pos_y foe) r))"

text \<open>\<open>Intersect(foe, prev, prev + 1, end)\<close> on the parts from \<open>prev\<close> to \<open>end\<close>.\<close>

fun Intersect_range :: "Snake \<Rightarrow> BoundBoxPos \<Rightarrow> BodySeq \<Rightarrow> bool" where
  "Intersect_range s foe (prev # iter # rest) =
    (hits_part s foe prev iter \<or> Intersect_range s foe (iter # rest))"
| "Intersect_range s foe _ = False"

definition slice :: "nat \<Rightarrow> nat \<Rightarrow> 'a list \<Rightarrow> 'a list" where
  "slice a b xs = take (b - a) (drop a xs)"

definition near_part :: "BoundBoxPos \<Rightarrow> Body \<Rightarrow> bool" where
  "near_part foe p = intersect_circle (body_x p) (body_y p) (pos_x foe) (pos_y foe) (fl (sector_size div 2))"

text \<open>
  In the loop over the tail the source steps \<open>i\<close>, and \<open>last = i + tail_step_half\<close>, beyond \<open>end()\<close> before it
  compares them with \<open>end\<close> (snake.cc:333-337), which the standard leaves undefined; no part outside the
  vector is read. As in \<open>eat_left\<close>, the model lets such an iterator pass and has the indices the
  comparisons leave.
\<close>

definition Snake_Intersect :: "BoundBoxPos \<Rightarrow> Snake \<Rightarrow> bool" where
  "Snake_Intersect foe s =
    (let head_size = 8; tail_step_half = tail_step div 2; len = length (parts s)
     in if len \<le> head_size + tail_step then Intersect_range s foe (parts s)
        else near_part foe (parts s ! 3) \<and> Intersect_range s foe (slice 0 9 (parts s)) \<or>
          (\<exists>i \<in> set (stepped (7 + tail_step_half) tail_step len).
             near_part foe (parts s ! i) \<and>
             Intersect_range s foe (slice (i - tail_step_half) (min (i + tail_step_half) len) (parts s))))"

end
