(* ===== verification/SnakeFood.thy ===== *)
theory SnakeFood
  imports Snakes
begin

text \<open>
  Growing, shrinking, dropping and eating food: the snake's mass (100 per part plus its fullness)
  and the food of the grid are accounted for exactly.
\<close>

section \<open>What the food operations leave alone\<close>

definition snake_core :: "Snake \<Rightarrow> u16 \<times> u8 \<times> bool \<times> u16 \<times> flt \<times> flt \<times> SnakeBoundBox \<times> ViewPort \<times> nat \<times> int \<times> int \<times> int" where
  "snake_core s = (sn_id s, skin s, bot s, speed s, angle s, wangle s, sbb s, vp s, clientPartsIndex s,
     mov_ticks s, rot_ticks s, ai_ticks s)"

definition mass :: "Snake \<Rightarrow> int" where
  "mass s = 100 * int (length (parts s)) + uint (fullness s)"

definition body_in :: "int \<Rightarrow> int \<Rightarrow> BodySeq \<Rightarrow> bool" where
  "body_in lo hi ps \<longleftrightarrow> (\<forall>p \<in> set ps. between lo hi (body_x p) \<and> between lo hi (body_y p))"

lemma UpdateSnakeConsts_keeps [simp]:
  "parts (UpdateSnakeConsts s) = parts s" "fullness (UpdateSnakeConsts s) = fullness s"
  "update (UpdateSnakeConsts s) = update s" "eaten (UpdateSnakeConsts s) = eaten s"
  "spawn (UpdateSnakeConsts s) = spawn s" "acceleration (UpdateSnakeConsts s) = acceleration s"
  "sbb (UpdateSnakeConsts s) = sbb s" "skin (UpdateSnakeConsts s) = skin s"
  "snake_core (UpdateSnakeConsts s) = snake_core s" "mass (UpdateSnakeConsts s) = mass s"
  by (simp_all add: UpdateSnakeConsts_def Let_def snake_core_def mass_def)

lemma snake_core_simps [simp]:
  "snake_core (s\<lparr>parts := ps\<rparr>) = snake_core s" "snake_core (s\<lparr>fullness := n\<rparr>) = snake_core s"
  "snake_core (s\<lparr>update := u\<rparr>) = snake_core s" "snake_core (s\<lparr>eaten := fs\<rparr>) = snake_core s"
  "snake_core (s\<lparr>spawn := fs\<rparr>) = snake_core s" "snake_core (s\<lparr>acceleration := b\<rparr>) = snake_core s"
  by (simp_all add: snake_core_def)

lemma mass_simps [simp]:
  "mass (s\<lparr>update := u\<rparr>) = mass s" "mass (s\<lparr>eaten := fs\<rparr>) = mass s" "mass (s\<lparr>spawn := fs\<rparr>) = mass s"
  by (simp_all add: mass_def)

lemma body_in_simps [simp]: "body_in lo hi (xs @ ys) = (body_in lo hi xs \<and> body_in lo hi ys)"
  "body_in lo hi (p # ps) = (between lo hi (body_x p) \<and> between lo hi (body_y p) \<and> body_in lo hi ps)"
  "body_in lo hi []"
  by (auto simp: body_in_def)

lemma body_in_last: "body_in lo hi ps \<Longrightarrow> ps \<noteq> [] \<Longrightarrow>
  between lo hi (body_x (last ps)) \<and> between lo hi (body_y (last ps))"
  by (simp add: body_in_def)

lemma body_in_butlast: "body_in lo hi ps \<Longrightarrow> body_in lo hi (butlast ps)"
  by (simp add: body_in_def in_set_butlastD)

lemma to_u16_between:
  assumes "between a b x" "0 \<le> a" "b \<le> 65535"
  shows "\<exists>w. to_u16 x = Some w \<and> a \<le> uint w \<and> uint w \<le> b"
proof -
  from cast_range_between [OF assms] obtain n where "cast_range 0 65535 x = Some n" "a \<le> n" "n \<le> b"
    by blast
  then show ?thesis using assms by (auto simp: to_u16_def uint_of_int_u16)
qed

section \<open>All the food of the grid\<close>

definition all_food :: "SectorSeq \<Rightarrow> Food multiset" where
  "all_food ss = mset (concat (map sec_food ss))"

lemma all_food_update:
  assumes "k < length ss"
  shows "all_food (ss[k := sec]) + mset (sec_food (ss ! k)) = all_food ss + mset (sec_food sec)"
proof -
  have "ss = take k ss @ ss ! k # drop (Suc k) ss" using assms by (simp add: id_take_nth_drop)
  then have "all_food ss = all_food (take k ss) + mset (sec_food (ss ! k)) + all_food (drop (Suc k) ss)"
    by (simp add: all_food_def) (metis concat.simps(2) concat_append list.simps(9) map_append mset_append union_assoc)
  moreover have "all_food (ss[k := sec]) = all_food (take k ss) + mset (sec_food sec) + all_food (drop (Suc k) ss)"
    using assms by (simp add: all_food_def upd_conv_take_nth_drop)
  ultimately show ?thesis by simp
qed

text \<open>
  The invariant of a sector's food: sorted, no piece above 100, none further than 1000 from the
  sector's centre on either axis.
\<close>

definition near_sector :: "Sector \<Rightarrow> Food \<Rightarrow> bool" where
  "near_sector sec f \<longleftrightarrow> \<bar>uint (food_x f) - (300 * uint (sec_x sec) + 150)\<bar> \<le> 1000 \<and>
     \<bar>uint (food_y f) - (300 * uint (sec_y sec) + 150)\<bar> \<le> 1000"

definition foods_ok :: "Sector \<Rightarrow> bool" where
  "foods_ok sec \<longleftrightarrow> sorted (map food_x (sec_food sec)) \<and>
     (\<forall>f \<in> set (sec_food sec). food_size f \<le> 100 \<and> near_sector sec f)"

definition grid_step :: "u16 \<Rightarrow> SectorSeq \<Rightarrow> SectorSeq \<Rightarrow> bool" where
  "grid_step i ss ss' \<longleftrightarrow> length ss' = length ss \<and>
    (\<forall>k < length ss. sec_x (ss' ! k) = sec_x (ss ! k) \<and> sec_y (ss' ! k) = sec_y (ss ! k) \<and>
       sec_box (ss' ! k) = sec_box (ss ! k) \<and>
       filter (\<lambda>r. ref_id r \<noteq> i) (sec_snakes (ss' ! k)) = filter (\<lambda>r. ref_id r \<noteq> i) (sec_snakes (ss ! k)) \<and>
       (foods_ok (ss ! k) \<longrightarrow> foods_ok (ss' ! k)))"

definition food_step :: "SectorSeq \<Rightarrow> SectorSeq \<Rightarrow> bool" where
  "food_step ss ss' \<longleftrightarrow> length ss' = length ss \<and>
    (\<forall>k < length ss. sec_x (ss' ! k) = sec_x (ss ! k) \<and> sec_y (ss' ! k) = sec_y (ss ! k) \<and>
       sec_box (ss' ! k) = sec_box (ss ! k) \<and> sec_snakes (ss' ! k) = sec_snakes (ss ! k) \<and>
       (foods_ok (ss ! k) \<longrightarrow> foods_ok (ss' ! k)))"

lemma grid_step_refl [simp]: "grid_step i ss ss" and food_step_refl [simp]: "food_step ss ss"
  by (simp_all add: grid_step_def food_step_def)

lemma grid_step_trans: "grid_step i a b \<Longrightarrow> grid_step i b c \<Longrightarrow> grid_step i a c"
  by (simp add: grid_step_def)

lemma food_step_trans: "food_step a b \<Longrightarrow> food_step b c \<Longrightarrow> food_step a c"
  by (simp add: food_step_def)

lemma food_step_grid: "food_step ss ss' \<Longrightarrow> grid_step i ss ss'"
  by (simp add: food_step_def grid_step_def)

lemma same_but_grid: "same_but i ss ss' \<Longrightarrow> grid_step i ss ss'"
  by (simp add: same_but_def grid_step_def foods_ok_def near_sector_def)

lemma food_step_registered: "food_step ss ss' \<Longrightarrow> registered b ss' = registered b ss"
  by (auto simp: food_step_def registered_def)

lemma food_step_box_ok: "food_step ss ss' \<Longrightarrow> box_ok (b, ss') = box_ok (b, ss)"
  by (simp add: box_ok_def food_step_registered)

lemma grid_step_vp_ok: "grid_step i ss ss' \<Longrightarrow> vp_ok ss' v = vp_ok ss v"
  by (simp add: grid_step_def vp_ok_def)

lemma grid_step_ok: "grid_step i ss ss' \<Longrightarrow> grid_ok ss \<Longrightarrow> grid_ok ss'"
  by (auto simp: grid_ok_def grid_step_def)

lemma foods_ok_insert:
  "foods_ok sec \<Longrightarrow> food_size f \<le> 100 \<Longrightarrow> near_sector sec f \<Longrightarrow> foods_ok (Sector_Insert f sec)"
  using food_vec.ins_sorted [of "sec_food sec" f]
  by (auto simp: foods_ok_def Sector_Insert_def near_sector_def food_vec.ins_set)

lemma foods_ok_erase: "foods_ok sec \<Longrightarrow> foods_ok (Sector_Remove i sec)"
  using sorted_erase_at [of food_x "sec_food sec" i]
  by (auto simp: foods_ok_def Sector_Remove_def near_sector_def erase_at_def dest: in_set_takeD in_set_dropD)

lemma food_step_update:
  assumes "sec_x sec = sec_x (ss ! k)" "sec_y sec = sec_y (ss ! k)" "sec_box sec = sec_box (ss ! k)"
    and "sec_snakes sec = sec_snakes (ss ! k)" "foods_ok (ss ! k) \<longrightarrow> foods_ok sec"
  shows "food_step ss (ss[k := sec])"
proof -
  have eq: "ss[k := sec] ! j = (if j = k then sec else ss ! j)" if "j < length ss" for j
    using that by simp
  show ?thesis using assms by (simp add: food_step_def eq)
qed

section \<open>The constants stay in range\<close>

lemma size_of_bounds: "0 \<le> size_of n \<and> size_of n < 18446744073709551616"
  by (simp add: size_of_def)

text \<open>Any \<open>size_t\<close>, converted to \<open>float\<close>, is far from overflow.\<close>

lemma pow_top: "j \<le> 127 \<Longrightarrow> (2::real) powi j \<le> top_pow single"
proof -
  assume "j \<le> 127"
  then have "(2::real) powi j \<le> 2 powi 127" by (simp only: powi_le_iff)
  then show ?thesis by (simp add: top_pow_def single_def)
qed

lemma grid_powi: "- 149 \<le> j \<Longrightarrow> grid single (2 powi j)"
  using grid_single_dyadic [of 1 j] by simp

lemma fl_size:
  assumes "0 \<le> n" "n < 18446744073709551616"
  shows "isfin (fl n) \<and> 0 \<le> fval (fl n) \<and> fval (fl n) \<le> 2 powi 64"
proof -
  have r: "0 \<le> (of_int n :: real)" "of_int n \<le> (2::real) powi 64"
    using assms by (simp_all add: power_int_def)
  have t: "of_int n \<le> top_pow single" using r pow_top [of 64] by linarith
  have "isfin (fl n) \<and> rnd_of single (of_int n) (fval (fl n))"
    unfolding fl_def of_int_fmt_def by (rule round_frac_value) (use r t assms in auto)
  then show ?thesis using rnd_of_ge [of single _ _ 0] rnd_of_le [OF _ grid_powi [of 64]] r by auto
qed

text \<open>Non-negative values below a power of two, through the operators of the constants.\<close>

definition small :: "int \<Rightarrow> flt \<Rightarrow> bool" where
  "small j x \<longleftrightarrow> isfin x \<and> 0 \<le> fval x \<and> fval x \<le> 2 powi j"

lemma small_mult:
  assumes "small i x" "small j y" "- 149 \<le> i + j" "i + j \<le> 127"
  shows "small (i + j) (x * y)"
proof -
  have xy: "isfin x" "isfin y" "0 \<le> fval x * fval y" using assms(1,2) by (simp_all add: small_def)
  have le: "fval x * fval y \<le> 2 powi (i + j)"
    unfolding powi_split using assms(1,2) by (intro mult_mono) (simp_all add: small_def)
  have t: "\<bar>fval x * fval y\<bar> \<le> top_pow single" using xy le pow_top [OF assms(4)] by simp
  note m = mult_value [OF xy(1,2) t]
  show ?thesis using m(1) rnd_of_ge [OF m(2) grid_0 xy(3)] rnd_of_le [OF m(2) grid_powi le] assms(3)
    by (simp add: small_def)
qed

lemma small_div:
  assumes "small i x" "isfin y" "1 \<le> fval y" "- 149 \<le> i" "i \<le> 127"
  shows "small i (x / y)"
proof -
  have x: "isfin x" "0 \<le> fval x" "fval x \<le> 2 powi i" using assms(1) by (simp_all add: small_def)
  have "fval x / fval y \<le> fval x / 1" using x(2) assms(3) by (intro divide_left_mono) auto
  then have q: "0 \<le> fval x / fval y" "fval x / fval y \<le> 2 powi i" using x assms(3) by auto
  have t: "\<bar>fval x / fval y\<bar> \<le> top_pow single" using q pow_top [OF assms(5)] by linarith
  have nz: "fval y \<noteq> 0" using assms(3) by auto
  note d = divide_value [OF x(1) assms(2) nz t]
  show ?thesis using d(1) rnd_of_ge [OF d(2) grid_0 q(1)] rnd_of_le [OF d(2) grid_powi [OF assms(4)] q(2)]
    by (simp add: small_def)
qed

lemma sc_range: "between 1 6 (sc (UpdateSnakeConsts s))"
proof -
  let ?n = "size_of (int (length (parts s)) - 1 - 2)"
  let ?q = "fl 1 * fl ?n / fl 106"
  have n: "small 64 (fl ?n)" using fl_size [of ?n] size_of_bounds by (simp add: small_def)
  have one: "small 0 (fl 1)" using fl_value [of 1] by (simp add: small_def)
  have "small (0 + 64) (fl 1 * fl ?n)" by (rule small_mult [OF one n]) simp_all
  then have q: "small 64 ?q" using fl_value [of 106] by (intro small_div) simp_all
  have f1: "isfin (fl 1)" "fval (fl 1) = 1" using fl_value [of 1] by simp_all
  have "fval ?q \<le> 2 powi 64" "0 \<le> fval ?q" using q by (simp_all add: small_def)
  then have t: "\<bar>fval (fl 1) + fval ?q\<bar> \<le> top_pow single"
    using pow_top [of 65] f1(2) by (simp add: power_int_def)
  note s = add_value [OF f1(1) _ t]
  have fq: "isfin ?q" using q by (simp add: small_def)
  have "of_int 1 \<le> fval (fl 1 + ?q)"
    using rnd_of_ge [OF s(2) [OF fq] grid_single_int [of 1]] f1(2) q by (simp add: small_def)
  moreover have "sc (UpdateSnakeConsts s) = fminf (fl 6) (fl 1 + ?q)"
    by (simp add: UpdateSnakeConsts_def Let_def)
  moreover have "isfin (fl 6)" "fval (fl 6) = 6" using fl_value [of 6] by simp_all
  ultimately show ?thesis using s(1) [OF fq] by (auto simp: between_def fminf_def less_value)
qed

text \<open>The scale: the divisor is at least 1, so the quotient is at most \<open>0.4f\<close>.\<close>

lemma gsc_range:
  fixes s :: Snake
  defines "g \<equiv> gsc (UpdateSnakeConsts s)"
  shows "isfin g \<and> 1 / 2 \<le> fval g \<and> fval g \<le> 901 / 1000"
proof -
  let ?n = "size_of (int (length (parts s)) - 1 + 16)"
  let ?q = "fl 1 * fl ?n / fl 36"
  let ?d = "fmaxf (fl 1) ?q" and ?f = "lit 4 10"
  have n: "small 64 (fl ?n)" using fl_size [of ?n] size_of_bounds by (simp add: small_def)
  have one: "small 0 (fl 1)" using fl_value [of 1] by (simp add: small_def)
  have "small (0 + 64) (fl 1 * fl ?n)" by (rule small_mult [OF one n]) simp_all
  then have "small 64 ?q" using fl_value [of 36] by (intro small_div) simp_all
  then have d: "isfin ?d" "1 \<le> fval ?d"
    using fl_value [of 1] by (auto simp: small_def fmaxf_def less_value)
  have c: "?f = Fin False 13421773 (- 25)" "lit 1 2 = Fin False 8388608 (- 24)" by code_simp+
  have f: "isfin ?f" "fval ?f = 13421773 / 33554432" "isfin (lit 1 2)" "fval (lit 1 2) = 1 / 2"
    unfolding c by (simp_all add: power_int_def power_divide)
  have "fval ?f / fval ?d \<le> fval ?f / 1" using d(2) f(2) by (intro divide_left_mono) auto
  then have q: "0 \<le> fval ?f / fval ?d" "fval ?f / fval ?d \<le> 13421773 / 33554432" using d(2) f(2) by auto
  have "\<bar>fval ?f / fval ?d\<bar> \<le> top_pow single" using q top_single by linarith
  moreover have "fval ?d \<noteq> 0" using d(2) by auto
  ultimately have qv: "isfin (?f / ?d)" "rnd_of single (fval ?f / fval ?d) (fval (?f / ?d))"
    using divide_value [OF f(1) d(1)] by blast+
  have "grid single (13421773 / 33554432)"
    using grid_single_dyadic [of 13421773 "- 25"] by (simp add: power_int_def power_divide)
  note b = rnd_of_ge [OF qv(2) grid_0 q(1)] rnd_of_le [OF qv(2) this q(2)]
  have s: "1 / 2 \<le> fval (lit 1 2) + fval (?f / ?d)" "fval (lit 1 2) + fval (?f / ?d) \<le> 15099495 / 16777216"
    using b unfolding f(4) by linarith+
  then have "\<bar>fval (lit 1 2) + fval (?f / ?d)\<bar> \<le> top_pow single" using top_single by linarith
  note a = add_value [OF f(3) qv(1) this]
  have "grid single (1 / 2)" "grid single (15099495 / 16777216)"
    using grid_single_dyadic [of 1 "- 1"] grid_single_dyadic [of 15099495 "- 24"] by (simp_all add: power_int_def power_divide)
  from rnd_of_ge [OF a(2) this(1) s(1)] rnd_of_le [OF a(2) this(2) s(2)] a(1)
  have "isfin (lit 1 2 + ?f / ?d) \<and> 1 / 2 \<le> fval (lit 1 2 + ?f / ?d) \<and> fval (lit 1 2 + ?f / ?d) \<le> 901 / 1000" by simp
  moreover have "g = lit 1 2 + ?f / ?d" by (simp add: g_def UpdateSnakeConsts_def Let_def)
  ultimately show ?thesis by simp
qed

lemma sbpr_range: "between 14 87 (sbpr (UpdateSnakeConsts s))"
proof -
  have e: "fl 29 * lit 1 2 = Fin False 15204352 (- 20)" by code_simp
  let ?k = "fl 29 * lit 1 2" and ?sc = "sc (UpdateSnakeConsts s)"
  have k: "isfin ?k" "fval ?k = 29 / 2" unfolding e by (simp_all add: power_int_def power_divide)
  have sc: "isfin ?sc" "1 \<le> fval ?sc" "fval ?sc \<le> 6" using sc_range [of s] by (simp_all add: between_def)
  have r: "of_int 14 \<le> fval ?k * fval ?sc" "fval ?k * fval ?sc \<le> of_int 87" using sc by (simp_all add: k)
  have t: "\<bar>fval ?k * fval ?sc\<bar> \<le> top_pow single" using small_le_top [OF r] by simp
  note m = mult_value [OF k(1) sc(1) t]
  have "between 14 87 (?k * ?sc)"
    using m(1) rnd_between [OF m(2) r] by (simp add: between_def)
  then show ?thesis by (simp add: UpdateSnakeConsts_def Let_def)
qed

definition consts_ok :: "Snake \<Rightarrow> bool" where
  "consts_ok s \<longleftrightarrow> between 14 87 (sbpr s) \<and> between 1 6 (sc s)"

lemma consts_ok_simps [simp]:
  "consts_ok (UpdateSnakeConsts s)" "consts_ok (s\<lparr>parts := ps\<rparr>) = consts_ok s"
  "consts_ok (s\<lparr>fullness := n\<rparr>) = consts_ok s" "consts_ok (s\<lparr>update := u\<rparr>) = consts_ok s"
  "consts_ok (s\<lparr>eaten := fs\<rparr>) = consts_ok s" "consts_ok (s\<lparr>spawn := fs\<rparr>) = consts_ok s"
  "consts_ok (s\<lparr>acceleration := b\<rparr>) = consts_ok s"
  using sbpr_range [of s] sc_range [of s] by (simp_all add: consts_ok_def)

section \<open>Growing\<close>

lemma IncreaseSnake_spec:
  assumes "fullness s < 100" "volume \<le> 100" "parts s \<noteq> []"
  shows "\<exists>s'. IncreaseSnake volume s = Some s' \<and> mass s' = mass s + uint volume \<and> fullness s' < 100 \<and>
    snake_core s' = snake_core s \<and> eaten s' = eaten s \<and> spawn s' = spawn s \<and>
    acceleration s' = acceleration s \<and> consts_ok s' \<and>
    update s' = update s OR change_fullness \<and>
    (parts s' = parts s \<or> parts s' = parts s @ [last (parts s)])"
proof -
  have u: "uint (fullness s) < 100" "uint volume \<le> 100"
    using assms(1,2) by (simp_all add: word_less_def word_le_def)
  have sum: "uint (fullness s + volume) = uint (fullness s) + uint volume"
    using u by (simp add: uint_plus_if_size word_size)
  show ?thesis
  proof (cases "fullness s + volume \<ge> 100")
    case True
    then have ge: "100 \<le> uint (fullness s) + uint volume" by (simp add: word_le_def sum)
    let ?t = "s\<lparr>fullness := fullness s + volume - 100, parts := parts s @ [last (parts s)],
      update := update s OR change_fullness\<rparr>"
    have d: "uint (fullness s + volume - 100) = uint (fullness s) + uint volume - 100"
      using True by (simp add: uint_sub_if_size word_size sum word_le_def)
    have "IncreaseSnake volume s = Some (UpdateSnakeConsts ?t)"
      using True assms(3) by (simp add: IncreaseSnake_def)
    moreover have "mass ?t = mass s + uint volume" by (simp add: mass_def d)
    moreover have "fullness ?t < 100" using u by (simp add: word_less_def d)
    ultimately show ?thesis by simp
  next
    case False
    let ?t = "s\<lparr>fullness := fullness s + volume, update := update s OR change_fullness\<rparr>"
    have "IncreaseSnake volume s = Some (UpdateSnakeConsts ?t)"
      using False by (simp add: IncreaseSnake_def)
    moreover have "mass ?t = mass s + uint volume" by (simp add: mass_def sum)
    moreover have "fullness ?t < 100" using False by simp
    ultimately show ?thesis by simp
  qed
qed

section \<open>Shrinking\<close>

text \<open>What dropping tail parts does to the snake and to the grid.\<close>

definition dropped :: "nat \<Rightarrow> Snake \<times> SectorSeq \<Rightarrow> Snake \<times> SectorSeq \<Rightarrow> bool" where
  "dropped n st st' \<longleftrightarrow> snake_core (fst st') = snake_core (fst st) \<and> fullness (fst st') = fullness (fst st) \<and>
     acceleration (fst st') = acceleration (fst st) \<and> eaten (fst st') = eaten (fst st) \<and>
     update (fst st') = update (fst st) \<and>
     parts (fst st') = take (length (parts (fst st)) - n) (parts (fst st)) \<and>
     (\<exists>fs. spawn (fst st') = spawn (fst st) @ fs \<and> length fs \<le> n \<and> (\<forall>f \<in> set fs. food_size f = 100) \<and>
        ((\<forall>k \<in> set (bb_sectors (sbb (fst st))). k < length (snd st)) \<longrightarrow>
           all_food (snd st') = all_food (snd st) + mset fs)) \<and>
     food_step (snd st) (snd st')"

lemma dropped_refl: "dropped 0 st st"
  by (auto simp: dropped_def)

lemma dropped_trans:
  assumes "dropped n a b" "dropped m b c"
  shows "dropped (n + m) a c"
proof -
  from assms obtain fs gs where
    "spawn (fst b) = spawn (fst a) @ fs" "length fs \<le> n" "\<forall>f \<in> set fs. food_size f = 100"
    "(\<forall>k \<in> set (bb_sectors (sbb (fst a))). k < length (snd a)) \<Longrightarrow> all_food (snd b) = all_food (snd a) + mset fs"
    "spawn (fst c) = spawn (fst b) @ gs" "length gs \<le> m" "\<forall>f \<in> set gs. food_size f = 100"
    "(\<forall>k \<in> set (bb_sectors (sbb (fst b))). k < length (snd b)) \<Longrightarrow> all_food (snd c) = all_food (snd b) + mset gs"
    unfolding dropped_def by blast
  moreover have "sbb (fst b) = sbb (fst a)" "length (snd b) = length (snd a)"
    using assms(1) by (simp_all add: dropped_def snake_core_def food_step_def)
  ultimately have "\<exists>fs. spawn (fst c) = spawn (fst a) @ fs \<and> length fs \<le> n + m \<and> (\<forall>f \<in> set fs. food_size f = 100) \<and>
        ((\<forall>k \<in> set (bb_sectors (sbb (fst a))). k < length (snd a)) \<longrightarrow>
           all_food (snd c) = all_food (snd a) + mset fs)"
    by (intro exI [of _ "fs @ gs"]) auto
  moreover have "take (length (take (length (parts (fst a)) - n) (parts (fst a))) - m)
      (take (length (parts (fst a)) - n) (parts (fst a))) = take (length (parts (fst a)) - (n + m)) (parts (fst a))"
  proof -
    have l: "length (take (length (parts (fst a)) - n) (parts (fst a))) = length (parts (fst a)) - n" by simp
    show ?thesis unfolding l take_take by (intro arg_cong2 [of _ _ _ _ take]) auto
  qed
  moreover have "snake_core (fst c) = snake_core (fst a)" "fullness (fst c) = fullness (fst a)"
    "acceleration (fst c) = acceleration (fst a)" "eaten (fst c) = eaten (fst a)"
    "update (fst c) = update (fst a)" "parts (fst b) = take (length (parts (fst a)) - n) (parts (fst a))"
    "parts (fst c) = take (length (parts (fst b)) - m) (parts (fst b))"
    using assms by (simp_all add: dropped_def)
  moreover have "food_step (snd a) (snd c)"
    using assms food_step_trans by (auto simp: dropped_def)
  ultimately show ?thesis by (simp add: dropped_def)
qed

lemma find_Some_set: "List.find P xs = Some k \<Longrightarrow> k \<in> set xs \<and> P k"
  by (auto simp: find_Some_iff)

lemma Sector_Insert_keeps [simp]:
  "sec_x (Sector_Insert f sec) = sec_x sec" "sec_y (Sector_Insert f sec) = sec_y sec"
  "sec_box (Sector_Insert f sec) = sec_box sec" "sec_snakes (Sector_Insert f sec) = sec_snakes sec"
  "sec_food (Sector_Insert f sec) = insert_food f (sec_food sec)"
  by (simp_all add: Sector_Insert_def)

lemma SpawnFood_spec:
  assumes "SpawnFood f (s, ss) = (s', ss')" "food_size f = 100"
  shows "\<exists>fs. s' = s\<lparr>spawn := spawn s @ fs\<rparr> \<and> length fs \<le> 1 \<and> (\<forall>f \<in> set fs. food_size f = 100) \<and>
    ((\<forall>k \<in> set (bb_sectors (sbb s)). k < length ss) \<longrightarrow> all_food ss' = all_food ss + mset fs) \<and> food_step ss ss'"
proof (cases "List.find (\<lambda>k. uint (sec_x (ss ! k)) = uint (food_x f) div sector_size \<and>
    uint (sec_y (ss ! k)) = uint (food_y f) div sector_size) (bb_sectors (sbb s))")
  case None
  with assms(1) have "s' = s" "ss' = ss" by (simp_all add: SpawnFood_def)
  then show ?thesis by (intro exI [of _ "[]"]) simp
next
  case (Some k)
  with assms(1) have e: "s' = s\<lparr>spawn := spawn s @ [f]\<rparr>" "ss' = ss[k := Sector_Insert f (ss ! k)]"
    by (simp_all add: SpawnFood_def)
  have cell: "uint (sec_x (ss ! k)) = uint (food_x f) div 300" "uint (sec_y (ss ! k)) = uint (food_y f) div 300"
    using find_Some_set [OF Some] by (simp_all add: sector_size_def)
  have in_cell: "\<bar>n - (300 * (n div 300) + 150)\<bar> \<le> 1000" for n :: int
    using pos_mod_sign [of 300 n] pos_mod_bound [of 300 n] mult_div_mod_eq [of 300 n] by linarith
  have "near_sector (ss ! k) f" unfolding near_sector_def cell using in_cell by blast
  then have "food_step ss ss'" unfolding e
    by (intro food_step_update) (use assms(2) in \<open>simp_all add: foods_ok_insert\<close>)
  moreover have "all_food ss' = all_food ss + {#f#}" if "k < length ss"
    using all_food_update [OF that, of "Sector_Insert f (ss ! k)"] by (simp add: e(2) food_vec.ins_mset)
  moreover have "k \<in> set (bb_sectors (sbb s))" using find_Some_set [OF Some] by simp
  ultimately show ?thesis using assms(2) by (intro exI [of _ "[f]"]) (simp add: e(1))
qed

lemma drop_tail_partial:
  assumes "drop_tail (s, ss) = Some st'"
  shows "dropped (if 3 < length (parts s) then 1 else 0) (s, ss) st'"
proof (cases "3 < length (parts s)")
  case False
  with assms show ?thesis by (simp add: drop_tail_def dropped_refl)
next
  case True
  with assms obtain x y where xy: "to_u16 (body_x (last (parts s))) = Some x" "to_u16 (body_y (last (parts s))) = Some y"
    by (auto simp: drop_tail_def bind_eq_Some_conv)
  obtain s' ss' where sp: "SpawnFood (mk_food x y 100 (skin s)) (s, ss) = (s', ss')" by (metis surj_pair)
  with True assms xy have st': "st' = (s'\<lparr>parts := butlast (parts s')\<rparr>, ss')"
    by (simp add: drop_tail_def)
  have "food_size (mk_food x y 100 (skin s)) = 100" by (simp add: mk_food_def)
  from SpawnFood_spec [OF sp this] obtain fs where
    fs: "s' = s\<lparr>spawn := spawn s @ fs\<rparr>" "length fs \<le> 1" "\<forall>f \<in> set fs. food_size f = 100"
    "(\<forall>k \<in> set (bb_sectors (sbb s)). k < length ss) \<longrightarrow> all_food ss' = all_food ss + mset fs" "food_step ss ss'"
    by blast
  have "dropped 1 (s, ss) st'" using fs by (auto simp: st' dropped_def butlast_conv_take)
  then show ?thesis using True by simp
qed

lemma drop_tail_total:
  assumes "body_in 0 65535 (parts s)"
  shows "\<exists>st'. drop_tail (s, ss) = Some st'"
proof (cases "3 < length (parts s)")
  case False
  then show ?thesis by (simp add: drop_tail_def)
next
  case True
  then have "parts s \<noteq> []" by auto
  from body_in_last [OF assms this] obtain x y where
    "to_u16 (body_x (last (parts s))) = Some x" "to_u16 (body_y (last (parts s))) = Some y"
    using to_u16_between [of 0 65535] by fastforce
  then show ?thesis using True by (simp add: drop_tail_def split: prod.splits)
qed

lemma dropped_body_in: "dropped n st st' \<Longrightarrow> body_in lo hi (parts (fst st)) \<Longrightarrow> body_in lo hi (parts (fst st'))"
  by (auto simp: dropped_def body_in_def dest: in_set_takeD)

lemma drop_tails_partial:
  assumes "fold_opt (\<lambda>_. drop_tail) [0..<n] st = Some st'" "n + 3 \<le> length (parts (fst st))"
  shows "dropped n st st'"
  using assms
proof (induction n arbitrary: st')
  case 0
  then show ?case using dropped_refl by auto
next
  case (Suc n)
  then obtain t where t: "fold_opt (\<lambda>_. drop_tail) [0..<n] st = Some t" "drop_tail t = Some st'"
    by (auto simp: fold_opt_append bind_eq_Some_conv)
  then have d: "dropped n st t" using Suc by simp
  have "length (parts (fst t)) = length (parts (fst st)) - n" using d by (auto simp: dropped_def)
  then have "3 < length (parts (fst t))" using Suc.prems(2) by simp
  then have "dropped 1 t st'" using drop_tail_partial [of "fst t" "snd t"] t(2) by simp
  with dropped_trans [OF d, of 1 st'] show ?case by simp
qed

lemma drop_tails_total:
  assumes "body_in 0 65535 (parts (fst st))" "n + 3 \<le> length (parts (fst st))"
  shows "\<exists>st'. fold_opt (\<lambda>_. drop_tail) [0..<n] st = Some st'"
  using assms(2)
proof (induction n)
  case 0
  then show ?case by simp
next
  case (Suc n)
  then obtain t where t: "fold_opt (\<lambda>_. drop_tail) [0..<n] st = Some t" by auto
  then have "body_in 0 65535 (parts (fst t))"
    using dropped_body_in [OF drop_tails_partial assms(1)] Suc.prems by auto
  with drop_tail_total [of "fst t" "snd t"] t show ?case by (auto simp: fold_opt_append)
qed

text \<open>How many parts a decrease takes.\<close>

definition lost_parts :: "u16 \<Rightarrow> Snake \<Rightarrow> nat" where
  "lost_parts volume s =
    (if fullness s < volume then nat (1 + (uint volume - uint (fullness s)) div 100) else 0)"

lemma unat_reduce:
  assumes "fullness s < volume"
  shows "unat (1 + (volume - fullness s) div 100) = lost_parts volume s"
proof -
  let ?v = "volume - fullness s"
  have v: "uint ?v = uint volume - uint (fullness s)"
    using assms by (simp add: uint_sub_if_size word_less_def)
  have "0 \<le> uint ?v" "uint ?v < 65536" using uint_lt2p [of ?v] by simp_all
  then have "uint (1 + ?v div 100) = 1 + uint ?v div 100"
    by (simp add: uint_plus_if_size word_size uint_div)
  then show ?thesis using assms by (simp add: lost_parts_def v unat_eq_nat_uint)
qed

lemma DecreaseSnake_partial:
  assumes "DecreaseSnake volume (s, ss) = Some (s', ss')" "lost_parts volume s + 3 \<le> length (parts s)"
  shows "mass s' = mass s - uint volume \<and>
    (fullness s < volume \<longrightarrow> uint (fullness s') = 100 - (uint volume - uint (fullness s)) mod 100) \<and>
    (volume \<le> fullness s \<longrightarrow> fullness s' \<le> fullness s) \<and>
    update s' = update s OR change_fullness \<and> consts_ok s' \<and>
    (\<exists>t. dropped (lost_parts volume s) (s, ss) (t, ss') \<and> snake_core s' = snake_core t \<and> parts s' = parts t \<and>
       spawn s' = spawn t \<and> eaten s' = eaten t \<and> acceleration s' = acceleration t)"
proof (cases "fullness s < volume")
  case False
  then have le: "volume \<le> fullness s" by simp
  let ?t = "s\<lparr>fullness := fullness s - volume, update := update s OR change_fullness\<rparr>"
  have e: "s' = UpdateSnakeConsts ?t" "ss' = ss"
    using False assms(1) by (simp_all add: DecreaseSnake_def)
  have sub: "uint (fullness s - volume) = uint (fullness s) - uint volume"
    using le by (simp add: uint_sub_if_size word_le_def)
  then have "mass (UpdateSnakeConsts ?t) = mass s - uint volume" by (simp add: mass_def)
  moreover have "fullness s - volume \<le> fullness s" using sub by (simp add: word_le_def)
  ultimately show ?thesis using False dropped_refl by (auto simp: e lost_parts_def intro!: exI [of _ s])
next
  case True
  let ?v = "volume - fullness s"
  have v: "uint ?v = uint volume - uint (fullness s)"
    using True by (simp add: uint_sub_if_size word_less_def)
  have vr: "0 \<le> uint ?v" "uint ?v < 65536" using uint_lt2p [of ?v] by simp_all
  have q: "uint (?v div 100) = uint ?v div 100" and r: "uint (?v mod 100) = uint ?v mod 100"
    by (simp_all add: uint_div uint_mod)
  have n: "unat (1 + ?v div 100) = lost_parts volume s" by (rule unat_reduce [OF True])
  have f: "uint (100 - ?v mod 100) = 100 - uint ?v mod 100"
    using r pos_mod_bound [of 100 "uint ?v"] by (simp add: uint_sub_if_size)
  have len: "length (parts s) \<ge> lost_parts volume s" using assms(2) by simp
  obtain t where t: "fold_opt (\<lambda>_. drop_tail) [0..<lost_parts volume s] (s, ss) = Some (t, ss')"
    and s': "s' = UpdateSnakeConsts (t\<lparr>fullness := 100 - ?v mod 100, update := update t OR change_fullness\<rparr>)"
    using True assms(1) by (auto simp: DecreaseSnake_def Let_def n bind_eq_Some_conv)
  have d: "dropped (lost_parts volume s) (s, ss) (t, ss')"
    using drop_tails_partial [OF t] assms(2) by simp
  let ?t = "t\<lparr>fullness := 100 - ?v mod 100, update := update t OR change_fullness\<rparr>"
  have "mass ?t = mass s - uint volume"
  proof -
    have dv: "0 \<le> uint ?v div 100" using vr(1) by (simp add: pos_imp_zdiv_nonneg_iff)
    have "int (length (parts t)) = int (length (parts s)) - (1 + uint ?v div 100)"
      using d len True by (simp add: dropped_def lost_parts_def v [symmetric] dv)
    then show ?thesis using f v by (simp add: mass_def) (simp add: minus_mod_eq_mult_div [symmetric])
  qed
  then show ?thesis using True d f v by (auto simp: s' dropped_def intro!: exI [of _ t])
qed

lemma DecreaseSnake_total:
  assumes "body_in 0 65535 (parts s)" "lost_parts volume s + 3 \<le> length (parts s)"
  shows "\<exists>s' ss'. DecreaseSnake volume (s, ss) = Some (s', ss')"
proof (cases "fullness s < volume")
  case False
  then show ?thesis by (simp add: DecreaseSnake_def)
next
  case True
  have n: "unat (1 + (volume - fullness s) div 100) = lost_parts volume s"
    using True by (simp add: unat_reduce)
  obtain t where "fold_opt (\<lambda>_. drop_tail) [0..<lost_parts volume s] (s, ss) = Some t"
    using drop_tails_total [of "(s, ss)" "lost_parts volume s"] assms by auto
  then show ?thesis using True n by (cases t) (simp add: DecreaseSnake_def Let_def)
qed

section \<open>Eating\<close>

text \<open>
  What a run of eating does to the snake and the sector: the foods \<open>fs\<close> go from one to the other.
\<close>

definition ate :: "FoodSeq \<Rightarrow> Snake \<times> Sector \<Rightarrow> Snake \<times> Sector \<Rightarrow> bool" where
  "ate fs a b \<longleftrightarrow> snake_core (fst b) = snake_core (fst a) \<and> spawn (fst b) = spawn (fst a) \<and>
     acceleration (fst b) = acceleration (fst a) \<and> fullness (fst b) < 100 \<and>
     eaten (fst b) = eaten (fst a) @ fs \<and>
     mass (fst b) = mass (fst a) + sum_list (map (\<lambda>f. uint (food_size f)) fs) \<and>
     length (parts (fst a)) \<le> length (parts (fst b)) \<and> parts (fst b) \<noteq> [] \<and>
     set (parts (fst b)) \<subseteq> set (parts (fst a)) \<and> hd (parts (fst b)) = hd (parts (fst a)) \<and>
     sec_x (snd b) = sec_x (snd a) \<and> sec_y (snd b) = sec_y (snd a) \<and> sec_box (snd b) = sec_box (snd a) \<and>
     sec_snakes (snd b) = sec_snakes (snd a) \<and> foods_ok (snd b) \<and>
     mset (sec_food (snd a)) = mset (sec_food (snd b)) + mset fs \<and>
     update (fst b) AND 0xEF = update (fst a) AND 0xEF \<and> (consts_ok (fst a) \<longrightarrow> consts_ok (fst b))"

lemma ate_refl:
  "fullness s < 100 \<Longrightarrow> parts s \<noteq> [] \<Longrightarrow> foods_ok sec \<Longrightarrow> ate [] (s, sec) (s, sec)"
  by (simp add: ate_def)

lemma ate_trans: "ate fs a b \<Longrightarrow> ate gs b c \<Longrightarrow> ate (fs @ gs) a c"
  by (auto simp: ate_def)

lemma or_fullness: "(u OR change_fullness) AND 0xEF = u AND (0xEF :: u8)"
proof -
  have "change_fullness AND (0xEF :: u8) = 0" by (simp add: change_fullness_def)
  then show ?thesis by (simp add: bit.conj_disj_distrib2)
qed

lemma eat_one:
  assumes "fullness s < 100" "parts s \<noteq> []" "foods_ok sec" "i < length (sec_food sec)"
  shows "\<exists>s'. on_food_eaten (sec_food sec ! i) s = Some s' \<and> ate [sec_food sec ! i] (s, sec) (s', Sector_Remove i sec)"
proof -
  let ?f = "sec_food sec ! i"
  have "food_size ?f \<le> 100" using assms(3,4) by (simp add: foods_ok_def)
  then have fs: "uint (food_size ?f) \<le> 100" by (simp add: word_le_def)
  have u: "uint (ucast (food_size ?f) :: u16) = uint (food_size ?f)"
    using uint_lt2p [of "food_size ?f"] by (simp add: unsigned_ucast_eq take_bit_int_eq_self)
  then have "(ucast (food_size ?f) :: u16) \<le> 100" using fs by (simp add: word_le_def)
  from IncreaseSnake_spec [OF assms(1) this assms(2)] obtain s' where
    s': "IncreaseSnake (ucast (food_size ?f)) s = Some s'" "mass s' = mass s + uint (food_size ?f)"
    "fullness s' < 100" "snake_core s' = snake_core s" "eaten s' = eaten s" "spawn s' = spawn s"
    "acceleration s' = acceleration s" "update s' = update s OR change_fullness" "consts_ok s'"
    "parts s' = parts s \<or> parts s' = parts s @ [last (parts s)]"
    by (auto simp: u)
  have p: "length (parts s) \<le> length (parts s')" "parts s' \<noteq> []" "set (parts s') \<subseteq> set (parts s)"
    "hd (parts s') = hd (parts s)"
    using s'(10) assms(2) by auto
  have "mset (sec_food sec) = add_mset ?f (mset (erase_at i (sec_food sec)))"
    using mset_erase_at [OF assms(4)] by simp
  then have "ate [?f] (s, sec) (s'\<lparr>eaten := eaten s' @ [?f]\<rparr>, Sector_Remove i sec)"
    using s' p foods_ok_erase [OF assms(3), of i] by (simp add: ate_def or_fullness) (simp add: Sector_Remove_def)
  then show ?thesis using s'(1) by (simp add: on_food_eaten_def)
qed

lemma ate_ok: "ate fs a (s, sec) \<Longrightarrow> fullness s < 100 \<and> parts s \<noteq> [] \<and> foods_ok sec"
  by (simp add: ate_def)

lemma eat_left_spec:
  assumes "eat_left hx hy r2 i s sec = Some (j, s', sec')" "i \<le> length (sec_food sec)"
    and "fullness s < 100" "parts s \<noteq> []" "foods_ok sec"
  shows "\<exists>fs. ate fs (s, sec) (s', sec') \<and> j \<le> length (sec_food sec') \<and> j \<le> i"
  using assms
proof (induction i arbitrary: s sec)
  case 0
  then show ?case using ate_refl [of s sec] by auto
next
  case (Suc i)
  let ?f = "sec_food sec ! i"
  from Suc.prems obtain d where d: "distance_squared_u16 (food_x ?f) (food_y ?f) hx hy = Some d"
    by (auto simp: Let_def bind_eq_Some_conv)
  show ?case
  proof (cases "d \<le> r2")
    case False
    with Suc.prems d show ?thesis using ate_refl [of s sec] by auto
  next
    case True
    have i: "i < length (sec_food sec)" using Suc.prems by simp
    from eat_one [OF Suc.prems(3-5) i] obtain t where
      t: "on_food_eaten ?f s = Some t" "ate [?f] (s, sec) (t, Sector_Remove i sec)" by blast
    have "eat_left hx hy r2 i t (Sector_Remove i sec) = Some (j, s', sec')"
      using Suc.prems(1) d True t(1) by simp
    moreover have "i \<le> length (sec_food (Sector_Remove i sec))"
      using i by (simp add: Sector_Remove_def erase_at_def)
    ultimately obtain fs where "ate fs (t, Sector_Remove i sec) (s', sec')" "j \<le> length (sec_food sec')" "j \<le> i"
      using Suc.IH ate_ok [OF t(2)] by blast
    with ate_trans [OF t(2)] show ?thesis by (metis le_Suc_eq)
  qed
qed

lemma eat_right_spec:
  assumes "eat_right hx hy r2 i s sec = Some (s', sec')"
    and "fullness s < 100" "parts s \<noteq> []" "foods_ok sec"
  shows "\<exists>fs. ate fs (s, sec) (s', sec')"
  using assms
proof (induction hx hy r2 i s sec rule: eat_right.induct)
  case (1 hx hy r2 i s sec)
  show ?case
  proof (cases "i < length (sec_food sec)")
    case False
    with 1 show ?thesis using ate_refl [of s sec] by (auto simp: eat_right.simps)
  next
    case i: True
    let ?f = "sec_food sec ! i"
    from "1.prems"(1) i obtain d where d: "distance_squared_u16 (food_x ?f) (food_y ?f) hx hy = Some d"
      by (subst (asm) eat_right.simps) (auto simp: Let_def bind_eq_Some_conv)
    show ?thesis
    proof (cases "d \<le> r2")
      case False
      with "1.prems" d i show ?thesis using ate_refl [of s sec] by (auto simp: eat_right.simps)
    next
      case True
      from eat_one [OF "1.prems"(2-4) i] obtain t where
        t: "on_food_eaten ?f s = Some t" "ate [?f] (s, sec) (t, Sector_Remove i sec)" by blast
      have "eat_right hx hy r2 i t (Sector_Remove i sec) = Some (s', sec')"
        using "1.prems"(1) d True t(1) i by (subst (asm) eat_right.simps) simp
      with "1.IH" [OF i refl d True t(1)] ate_ok [OF t(2)] obtain fs where
        "ate fs (t, Sector_Remove i sec) (s', sec')" by blast
      with ate_trans [OF t(2)] show ?thesis by blast
    qed
  qed
qed

text \<open>Eating as a whole: only the sector of the head changes.\<close>

lemma UpdateEatenFood_spec:
  assumes "UpdateEatenFood (s, ss) = Some (s', ss')"
    and "fullness s < 100" "parts s \<noteq> []" "\<forall>k < length ss. foods_ok (ss ! k)"
  shows "\<exists>k fs. k < length ss \<and> ate fs (s, ss ! k) (s', ss' ! k) \<and> ss' = ss[k := ss' ! k] \<and>
    food_step ss ss' \<and> all_food ss = all_food ss' + mset fs"
proof -
  from assms(1) obtain hx hy r2 k i t sec sec' where
    k: "get_sector ss (of_int (uint hx div sector_size)) (of_int (uint hy div sector_size)) = Some k"
    and l: "eat_left hx hy r2 (FindClosestFood hx (ss ! k)) s (ss ! k) = Some (i, t, sec)"
    and r: "eat_right hx hy r2 i t sec = Some (s', sec')" and ss': "ss' = ss[k := sec']"
    by (auto simp: UpdateEatenFood_def Let_def bind_eq_Some_conv split: prod.splits)
  have kl: "k < length ss" using get_sector_lt [OF k] .
  have ok: "foods_ok (ss ! k)" using assms(4) kl by simp
  have "FindClosestFood hx (ss ! k) \<le> length (sec_food (ss ! k))" by (simp add: FindClosestFood_def)
  from eat_left_spec [OF l this assms(2,3) ok] obtain fs where fs: "ate fs (s, ss ! k) (t, sec)" by blast
  from eat_right_spec [OF r] ate_ok [OF fs] obtain gs where gs: "ate gs (t, sec) (s', sec')" by blast
  note a = ate_trans [OF fs gs]
  have "food_step ss ss'" unfolding ss'
    by (rule food_step_update) (use a in \<open>simp_all add: ate_def\<close>)
  moreover have "all_food ss = all_food ss' + mset (fs @ gs)"
    using all_food_update [OF kl, of sec'] a by (simp add: ate_def ss')
  ultimately show ?thesis using kl a ss' by (intro exI [of _ k] exI [of _ "fs @ gs"]) simp
qed

section \<open>Properties\<close>

text \<open>
  C19: eating moves food from the grid to the snake and nothing else: what the grid loses is what
  \<open>eaten\<close> gains, the mass grows by the sizes eaten, \<open>fullness\<close> stays below 100, and every
  sector keeps its food sorted and its registered boxes.
\<close>

theorem eating_conserves:
  assumes "UpdateEatenFood (s, ss) = Some (s', ss')"
    and "fullness s < 100" "parts s \<noteq> []" "\<forall>k < length ss. foods_ok (ss ! k)"
  shows "\<exists>fs. eaten s' = eaten s @ fs \<and> all_food ss = all_food ss' + mset fs \<and>
      mass s' = mass s + (\<Sum>f \<leftarrow> fs. uint (food_size f)) \<and> fullness s' < 100 \<and>
      (\<forall>k < length ss. foods_ok (ss' ! k) \<and> sec_snakes (ss' ! k) = sec_snakes (ss ! k))"
proof -
  from UpdateEatenFood_spec [OF assms] obtain k fs where
    "ate fs (s, ss ! k) (s', ss' ! k)" "food_step ss ss'" "all_food ss = all_food ss' + mset fs" by blast
  with assms(4) show ?thesis by (intro exI [of _ fs]) (simp add: ate_def food_step_def)
qed

text \<open>
  C20: \<open>DecreaseSnake\<close> is defined wherever the body is on the map and long enough, takes exactly
  \<open>volume\<close> from the mass, never leaves fewer than three parts, and drops at most one piece of
  food per lost part, each of size 100, all of it accounted for in the grid and in \<open>spawn\<close>.
\<close>

theorem decrease_mass:
  assumes "body_in 0 65535 (parts s)" "lost_parts volume s + 3 \<le> length (parts s)"
    and "\<forall>k \<in> set (bb_sectors (sbb s)). k < length ss"
  shows "\<exists>s' ss' fs. DecreaseSnake volume (s, ss) = Some (s', ss') \<and> mass s' = mass s - uint volume \<and>
    parts s' = take (length (parts s) - lost_parts volume s) (parts s) \<and> 3 \<le> length (parts s') \<and>
    spawn s' = spawn s @ fs \<and> length fs \<le> lost_parts volume s \<and> (\<forall>f \<in> set fs. food_size f = 100) \<and>
    all_food ss' = all_food ss + mset fs"
proof -
  obtain s' ss' where r: "DecreaseSnake volume (s, ss) = Some (s', ss')"
    using DecreaseSnake_total [OF assms(1,2)] by blast
  from DecreaseSnake_partial [OF r assms(2)] obtain t where "mass s' = mass s - uint volume"
    "dropped (lost_parts volume s) (s, ss) (t, ss')" "parts s' = parts t" "spawn s' = spawn t"
    by blast
  with r assms(2,3) show ?thesis by (auto simp: dropped_def)
qed

text \<open>
  C21: \<open>IncreaseSnake\<close> with a volume of at most 100 adds exactly that to the mass: either the
  fullness rises, or one part is added behind the last one, and the fullness stays below 100.
\<close>

theorem increase_mass:
  assumes "fullness s < 100" "volume \<le> 100" "parts s \<noteq> []"
  shows "\<exists>s'. IncreaseSnake volume s = Some s' \<and> mass s' = mass s + uint volume \<and> fullness s' < 100 \<and>
    (parts s' = parts s \<or> parts s' = parts s @ [last (parts s)])"
  using IncreaseSnake_spec [OF assms] by blast

text \<open>
  C35: whatever the snake, even where the \<open>size_t\<close> arithmetic on a short body wraps,
  \<open>UpdateSnakeConsts\<close> puts the scale \<open>gsc\<close> into \<open>[0.5, 0.901]\<close> (it falls from \<open>0.9\<close> towards \<open>0.5\<close> with
  the length), the width factor \<open>sc\<close> into \<open>[1, 6]\<close> and the radius of a body part into \<open>[14, 87]\<close>.
\<close>

theorem consts_range:
  "isfin (get_snake_scale (UpdateSnakeConsts s)) \<and> 1 / 2 \<le> fval (get_snake_scale (UpdateSnakeConsts s)) \<and>
   fval (get_snake_scale (UpdateSnakeConsts s)) \<le> 901 / 1000 \<and>
   between 1 6 (sc (UpdateSnakeConsts s)) \<and>
   between 14 87 (get_snake_body_part_radius (UpdateSnakeConsts s))"
  using gsc_range [of s] sc_range [of s] sbpr_range [of s] by (simp add: get_snake_body_part_radius_def get_snake_scale_def)

text \<open>Witnesses.\<close>

definition sample_snake :: Snake where
  "sample_snake = \<lparr>sn_id = 7, skin = 9, update = 0, acceleration = False, bot = False, sn_name = [],
     speed = 185, angle = fl 0, wangle = fl 0, fullness = 20, sbb = sample_box\<lparr>bb_sectors := [0]\<rparr>, vp = sample_port,
     parts = map (\<lambda>i. \<lparr>body_x = fl (290 - 42 * i), body_y = fl 100\<rparr>) [0..4], eaten = [], spawn = [],
     clientPartsIndex = 5, mov_ticks = 0, rot_ticks = 0, ai_ticks = 0, gsc = fl 1, sc = fl 1, scang = fl 1,
     ssp = fl 1, fsp = fl 1, sbpr = fl 14\<rparr>"

definition food_grid :: SectorSeq where
  "food_grid = [(mk_Sector 0 0)\<lparr>sec_food :=
     [mk_food 250 100 10 1, mk_food 280 110 80 2, mk_food 295 299 5 3, mk_food 299 100 5 3]\<rparr>]"

lemma sample_snake_parts: "body_in 0 65535 (parts sample_snake)" "length (parts sample_snake) = 5"
  "parts sample_snake \<noteq> []"
  by (simp_all add: sample_snake_def upto_rec1 between_def fl_value)

theorem eating_conserves_witness:
  "\<exists>s' ss'. UpdateEatenFood (sample_snake, food_grid) = Some (s', ss') \<and> mass s' = 610 \<and>
     (\<exists>fs. eaten s' = fs \<and> all_food food_grid = all_food ss' + mset fs \<and> map food_size fs = [80, 10])"
proof -
  have "map_option (\<lambda>(s, ss). (map food_size (eaten s), mass s)) (UpdateEatenFood (sample_snake, food_grid)) =
    Some ([80, 10], 610)" by code_simp
  then obtain s' ss' where r: "UpdateEatenFood (sample_snake, food_grid) = Some (s', ss')"
    and e: "map food_size (eaten s') = [80, 10]" "mass s' = 610" by auto
  have 1: "fullness sample_snake < 100" "eaten sample_snake = []" by (simp_all add: sample_snake_def)
  have "foods_ok (food_grid ! 0)" by (simp add: food_grid_def foods_ok_def near_sector_def mk_food_def mk_Sector_def Let_def)
  then have "\<forall>k < length food_grid. foods_ok (food_grid ! k)" by (simp add: food_grid_def)
  from eating_conserves [OF r 1(1) sample_snake_parts(3) this] r e 1(2) show ?thesis by auto
qed

theorem decrease_mass_witness:
  "\<exists>s' ss'. DecreaseSnake 33 (sample_snake, food_grid) = Some (s', ss') \<and> mass s' = 487"
proof -
  have "lost_parts 33 sample_snake + 3 \<le> length (parts sample_snake)"
    by (simp add: lost_parts_def sample_snake_parts(2)) (simp add: sample_snake_def)
  moreover have "\<forall>k \<in> set (bb_sectors (sbb sample_snake)). k < length food_grid"
    by (simp add: sample_snake_def food_grid_def sample_box_def)
  moreover have "mass sample_snake = 520" by (simp add: mass_def sample_snake_parts(2)) (simp add: sample_snake_def)
  ultimately show ?thesis using decrease_mass [OF sample_snake_parts(1), of 33 food_grid] by auto
qed

theorem increase_mass_witness:
  "\<exists>s'. IncreaseSnake 90 sample_snake = Some s' \<and> mass s' = 610 \<and> fullness s' < 100"
proof -
  have "fullness sample_snake < 100" "mass sample_snake = 520"
    by (simp add: sample_snake_def, simp add: mass_def sample_snake_parts(2), simp add: sample_snake_def)
  then show ?thesis using increase_mass [of sample_snake 90] sample_snake_parts(3) by auto
qed

end
