(* ===== verification/SnakeTick.thy ===== *)
theory SnakeTick
  imports SnakeFood
begin

text \<open>
  \<open>Snake::Tick\<close> and \<open>Snake::TickAI\<close> (\<open>snake.cc\<close>). \<open>Tick\<close> is one function in the source; here each
  of its blocks is a definition, in the order the source has them, and \<open>Tick\<close> composes them.
  Elapsed times (\<open>long\<close>) are integers.
\<close>

section \<open>The AI\<close>

definition ai_step :: "libc \<Rightarrow> Snake \<Rightarrow> Snake" where
  "ai_step m s =
    (let ai_angle = m_atan2f m (get_head_y s - fl game_radius) (get_head_x s - fl game_radius);
         ai_angle = normalize_angle (ai_angle + f_pi / fl 2)
     in if lit 1 100 < fabsf (wangle s - ai_angle)
        then s\<lparr>wangle := ai_angle, update := update s OR change_wangle\<rparr> else s)"

definition TickAI :: "libc \<Rightarrow> int \<Rightarrow> Snake \<Rightarrow> Snake" where
  "TickAI m frames s = fold (\<lambda>_. ai_step m) [0..<nat frames] s"

definition tick_bot :: "libc \<Rightarrow> int \<Rightarrow> Snake \<Rightarrow> Snake" where
  "tick_bot m dt s =
    (if bot s then
       let s = s\<lparr>ai_ticks := ai_ticks s + dt\<rparr>
       in if ai_ticks s > ai_step_interval then
            let frames = ai_ticks s div ai_step_interval; frames_ticks = frames * ai_step_interval;
                s = TickAI m frames s
            in s\<lparr>ai_ticks := ai_ticks s - frames_ticks\<rparr>
          else s
     else s)"

section \<open>Rotation\<close>

text \<open>The new angle after \<open>frames_ticks\<close> milliseconds of turning the shorter way.\<close>

definition rotated_angle :: "int \<Rightarrow> Snake \<Rightarrow> flt" where
  "rotated_angle frames_ticks s =
    (let rotation = snake_angular_speed * fl frames_ticks / fl 1000;
         dAngle = normalize_angle (wangle s - angle s);
         dAngle = (if f_pi < dAngle then dAngle - f_2pi else dAngle)
     in normalize_angle (if fabsf dAngle < rotation then wangle s
          else angle s + rotation * (if fl 0 < dAngle then fl 1 else fl (- 1))))"

text \<open>The flag is whether \<open>change_angle\<close> is set.\<close>

definition tick_rotate :: "int \<Rightarrow> Snake \<Rightarrow> bool \<times> Snake" where
  "tick_rotate dt s =
    (if \<not> feq (angle s) (wangle s) then
       let s = s\<lparr>rot_ticks := rot_ticks s + dt\<rparr>
       in if rot_ticks s \<ge> rot_step_interval then
            let frames = rot_ticks s div rot_step_interval;
                frames_ticks = frames * rot_step_interval
            in (True, s\<lparr>angle := rotated_angle frames_ticks s, rot_ticks := rot_ticks s - frames_ticks\<rparr>)
          else (False, s)
     else (False, s))"

section \<open>Movement\<close>

text \<open>The parts, the previous position of the part before, and the sums for the box centre.\<close>

record mover =
  mv_parts :: BodySeq
  mv_prev :: Body
  mv_bbx :: flt
  mv_bby :: flt

text \<open>The parts right behind the head take the place of the one before.\<close>

definition shift_part :: "nat \<Rightarrow> mover \<Rightarrow> mover" where
  "shift_part i v =
    v\<lparr>mv_parts := (mv_parts v)[i := mv_prev v], mv_bbx := mv_bbx v + body_x (mv_prev v),
      mv_bby := mv_bby v + body_y (mv_prev v), mv_prev := mv_parts v ! i\<rparr>"

text \<open>The others are drawn towards the part before by a coefficient.\<close>

definition pull_part :: "flt \<Rightarrow> nat \<Rightarrow> mover \<Rightarrow> mover" where
  "pull_part k i v =
    (let lst = mv_parts v ! (i - 1); old = mv_parts v ! i; pt = mv_prev v;
         pt = Offset (k * (body_x lst - body_x pt)) (k * (body_y lst - body_y pt)) pt
     in v\<lparr>mv_parts := (mv_parts v)[i := pt], mv_bbx := mv_bbx v + body_x pt,
          mv_bby := mv_bby v + body_y pt, mv_prev := old\<rparr>)"

text \<open>In the intermediate loop \<open>++j\<close> counts from 1, so that \<open>j = i - 2\<close>.\<close>

definition move_coeff :: "nat \<Rightarrow> flt" where
  "move_coeff i = snake_tail_k * fl (int i - 2) / fl (int parts_start_move_count)"

text \<open>A tail part also updates the sectors of the box; \<open>j\<close> is the last part that did.\<close>

definition tail_part :: "nat \<Rightarrow> mover \<times> nat \<times> Snake \<times> SectorSeq \<Rightarrow> (mover \<times> nat \<times> Snake \<times> SectorSeq) option" where
  "tail_part i st = (case st of (v, j, s, ss) \<Rightarrow> do {
     let old = mv_parts v ! i;
     let v = pull_part snake_tail_k i v;
     let pt = mv_parts v ! i;
     if j + tail_step \<ge> i then do {
       (s, ss) \<leftarrow> sbb_new_sectors (body_x pt) (body_y pt) (body_x old) (body_y old) (s, ss);
       Some (v, i, s, ss) }
     else Some (v, j, s, ss) })"

definition move_parts :: "libc \<Rightarrow> flt \<Rightarrow> Snake \<times> SectorSeq \<Rightarrow> (Snake \<times> SectorSeq) option" where
  "move_parts m move_dist st = do {
     (if parts (fst st) = [] then None else Some ());
     let s = fst st;
     let len = length (parts s);
     let prev = parts s ! 0;
     let hx = body_x prev + m_cosf m (angle s) * move_dist;
     let hy = body_y prev + m_sinf m (angle s) * move_dist;
     let s = s\<lparr>parts := (parts s)[0 := \<lparr>body_x = hx, body_y = hy\<rparr>]\<rparr>;
     st \<leftarrow> sbb_new_sectors hx hy (body_x prev) (body_y prev) (s, snd st);
     (s, ss) \<leftarrow> vp_new_sectors hx hy (body_x prev) (body_y prev) st;
     let v = \<lparr>mv_parts = parts s, mv_prev = prev, mv_bbx = hx, mv_bby = hy\<rparr>;
     let v = fold shift_part [1..<min len parts_skip_count] v;
     let v = fold (\<lambda>i. pull_part (move_coeff i) i)
       [parts_skip_count..<min len (parts_skip_count + parts_start_move_count)] v;
     (v, _, s, ss) \<leftarrow> fold_opt tail_part [parts_skip_count + parts_start_move_count..<len] (v, 0, s, ss);
     Some (s\<lparr>parts := mv_parts v,
             sbb := (sbb s)\<lparr>pos_x := mv_bbx v / fl (int len), pos_y := mv_bby v / fl (int len)\<rparr>,
             vp := (vp s)\<lparr>pos_x := hx, pos_y := hy\<rparr>\<rparr>, ss) }"

definition leave_sectors :: "Snake \<times> SectorSeq \<Rightarrow> Snake \<times> SectorSeq" where
  "leave_sectors st =
    (let (s, ss) = st; (b, ss) = SnakeBoundBox_UpdateBoxOldSectors (sbb s, ss); s = s\<lparr>sbb := b\<rparr>
     in (if bot s then s else s\<lparr>vp := ViewPort_UpdateBoxOldSectors ss (vp s)\<rparr>, ss))"

section \<open>Speed\<close>

definition tick_boost :: "Snake \<times> SectorSeq \<Rightarrow> (Snake \<times> SectorSeq) option" where
  "tick_boost st =
    (if acceleration (fst st) then
       if length (parts (fst st)) \<le> 3 then Some ((fst st)\<lparr>acceleration := False\<rparr>, snd st)
       else DecreaseSnake 33 st
     else Some st)"

definition tick_speed :: "int \<Rightarrow> Snake \<Rightarrow> (bool \<times> Snake) option" where
  "tick_speed frames_ticks s =
    (let wanted = (if acceleration s then boost_speed else base_move_speed)
     in if speed s \<noteq> wanted then do {
          let sgn = (if wanted > speed s then fl 1 else fl (- 1));
          acc \<leftarrow> to_u16 (fl (speed_acceleration * frames_ticks) / fl 1000);
          sp \<leftarrow> (if \<bar>uint wanted - uint (speed s)\<bar> \<le> uint acc then Some wanted
                else to_u16 (fl (uint (speed s)) + sgn * fl (uint acc)));
          Some (True, s\<lparr>speed := sp\<rparr>) }
        else Some (False, s))"

section \<open>The tick\<close>

text \<open>The frames of movement that are due, in one step of \<open>frames_ticks\<close> milliseconds.\<close>

definition move_once :: "libc \<Rightarrow> int \<Rightarrow> Snake \<times> SectorSeq \<Rightarrow> (u8 \<times> Snake \<times> SectorSeq) option" where
  "move_once m frames_ticks st = do {
     let move_dist = fl (uint (speed (fst st)) * frames_ticks) / fl 1000;
     (s, ss) \<leftarrow> move_parts m move_dist st;
     st \<leftarrow> UpdateEatenFood (leave_sectors (UpdateBoxRadius s, ss));
     (s, ss) \<leftarrow> tick_boost st;
     (sp, s) \<leftarrow> tick_speed frames_ticks s;
     Some (change_pos OR (if sp then change_speed else 0),
       s\<lparr>mov_ticks := mov_ticks s - frames_ticks\<rparr>, ss) }"

text \<open>The divisions by \<open>speed\<close> and by the interval it gives are undefined for 0.\<close>

definition tick_move :: "libc \<Rightarrow> int \<Rightarrow> Snake \<times> SectorSeq \<Rightarrow> (u8 \<times> Snake \<times> SectorSeq) option" where
  "tick_move m dt st = do {
     let s = (fst st)\<lparr>mov_ticks := mov_ticks (fst st) + dt\<rparr>;
     (if speed s = 0 then None else Some ());
     let mov_frame_interval = 1000 * move_step_distance div uint (speed s);
     if mov_ticks s \<ge> mov_frame_interval then do {
       (if mov_frame_interval = 0 then None else Some ());
       let frames = mov_ticks s div mov_frame_interval;
       move_once m (frames * mov_frame_interval) (s, snd st) }
     else Some (0, s, snd st) }"

definition Tick :: "libc \<Rightarrow> int \<Rightarrow> Snake \<times> SectorSeq \<Rightarrow> (bool \<times> Snake \<times> SectorSeq) option" where
  "Tick m dt st =
    (if update (fst st) AND (change_dying OR change_dead) \<noteq> 0 then Some (False, st)
     else do {
       let s = tick_bot m dt (fst st);
       let (rot, s) = tick_rotate dt s;
       (mov, s, ss) \<leftarrow> tick_move m dt (s, snd st);
       let changes = (if rot then change_angle else 0) OR mov;
       Some (if changes > 0 \<and> changes \<noteq> update s
             then (True, s\<lparr>update := update s OR changes\<rparr>, ss) else (False, s, ss)) })"

end
