(* ===== verification/TickInvariant.thy ===== *)
theory TickInvariant
  imports SnakeTick
begin

text \<open>
  What every tick of a snake keeps: the shape of its body, its speed and fullness, the
  registration of its box and view port in the grid, the food of the grid, and every other
  snake's registration.
\<close>

section \<open>Frames\<close>

text \<open>The snake without its body and boxes: what moving leaves alone.\<close>

definition rest :: "Snake \<Rightarrow> Snake" where
  "rest s = s\<lparr>sbb := sample_box, vp := sample_port, parts := []\<rparr>"

lemma rest_simps [simp]:
  "rest (s\<lparr>sbb := b\<rparr>) = rest s" "rest (s\<lparr>vp := v\<rparr>) = rest s" "rest (s\<lparr>parts := ps\<rparr>) = rest s"
  by (simp_all add: rest_def)

lemma rest_eqD:
  assumes "rest s' = rest s"
  shows "sn_id s' = sn_id s" "skin s' = skin s" "update s' = update s" "acceleration s' = acceleration s"
    "bot s' = bot s" "speed s' = speed s" "angle s' = angle s" "wangle s' = wangle s" "fullness s' = fullness s"
    "eaten s' = eaten s" "spawn s' = spawn s" "mov_ticks s' = mov_ticks s" "rot_ticks s' = rot_ticks s"
    "ai_ticks s' = ai_ticks s" "sbpr s' = sbpr s" "sc s' = sc s"
  using assms by (cases s; cases s'; simp add: rest_def)+

definition boxes_ok :: "Snake \<times> SectorSeq \<Rightarrow> bool" where
  "boxes_ok st \<longleftrightarrow> box_ok (sbb (fst st), snd st) \<and> vp_ok (snd st) (vp (fst st)) \<and>
     bb_id (sbb (fst st)) = sn_id (fst st)"

text \<open>A step that only moves the boxes of the snake over the grid.\<close>

definition box_move :: "Snake \<times> SectorSeq \<Rightarrow> Snake \<times> SectorSeq \<Rightarrow> bool" where
  "box_move st st' \<longleftrightarrow> rest (fst st') = rest (fst st) \<and> bb_snake (sbb (fst st')) = bb_snake (sbb (fst st)) \<and>
     boxes_ok st' \<and> grid_step (sn_id (fst st)) (snd st) (snd st')"

lemma box_move_refl: "boxes_ok st \<Longrightarrow> box_move st st"
  by (simp add: box_move_def)

lemma box_move_trans: "box_move a b \<Longrightarrow> box_move b c \<Longrightarrow> box_move a c"
  unfolding box_move_def using grid_step_trans rest_eqD(1) by metis

lemma box_ok_pos [simp]:
  "box_ok (b\<lparr>pos_x := x\<rparr>, ss) = box_ok (b, ss)" "box_ok (b\<lparr>pos_y := x\<rparr>, ss) = box_ok (b, ss)"
  "box_ok (b\<lparr>pos_r := x\<rparr>, ss) = box_ok (b, ss)"
  by (simp_all add: box_ok_def registered_def this_ref_def)

lemma vp_ok_pos [simp]:
  "vp_ok ss (v\<lparr>pos_x := x\<rparr>) = vp_ok ss v" "vp_ok ss (v\<lparr>pos_y := x\<rparr>) = vp_ok ss v"
  "vp_ok ss (v\<lparr>pos_r := x\<rparr>) = vp_ok ss v"
  by (simp_all add: vp_ok_def)

lemma same_but_vp_ok: "same_but i ss ss' \<Longrightarrow> vp_ok ss' v = vp_ok ss v"
  by (simp add: same_but_def vp_ok_def)

lemma sbb_new_sectors_move:
  assumes "boxes_ok st" "sbb_new_sectors nx ny ox oy st = Some st'"
  shows "box_move st st' \<and> parts (fst st') = parts (fst st) \<and> vp (fst st') = vp (fst st)"
proof -
  obtain s ss where st: "st = (s, ss)" by (cases st)
  from assms(2) obtain b ss' where
    r: "SnakeBoundBox_UpdateBoxNewSectors (fl (sector_size div 2)) nx ny ox oy (sbb s, ss) = Some (b, ss')"
    and st': "st' = (s\<lparr>sbb := b\<rparr>, ss')"
    by (auto simp: st sbb_new_sectors_def bind_eq_Some_conv)
  have "box_ok (sbb s, ss)" using assms(1) by (simp add: st boxes_ok_def)
  from UpdateBoxNewSectors_step [OF this r] have
    "box_ok (b, ss')" "bb_id b = bb_id (sbb s)" "bb_snake b = bb_snake (sbb s)" "same_but (bb_id (sbb s)) ss ss'"
    by (simp_all add: box_step_def)
  with assms(1) show ?thesis
    by (simp add: st st' box_move_def boxes_ok_def same_but_vp_ok same_but_grid)
qed

lemma vp_new_sectors_move:
  assumes "boxes_ok st" "vp_new_sectors nx ny ox oy st = Some st'"
  shows "box_move st st' \<and> parts (fst st') = parts (fst st) \<and> sbb (fst st') = sbb (fst st) \<and> snd st' = snd st"
proof (cases "bot (fst st)")
  case True
  with assms show ?thesis by (simp add: vp_new_sectors_def box_move_refl)
next
  case False
  with assms(2) obtain v where r: "ViewPort_UpdateBoxNewSectors (snd st) nx ny ox oy (vp (fst st)) = Some v"
    and st': "st' = ((fst st)\<lparr>vp := v\<rparr>, snd st)"
    by (auto simp: vp_new_sectors_def bind_eq_Some_conv)
  have "vp_ok (snd st) (vp (fst st))" using assms(1) by (simp add: boxes_ok_def)
  from vp_new_step [OF this r] assms(1) show ?thesis
    by (simp add: st' box_move_def boxes_ok_def)
qed

section \<open>Movement\<close>

lemma shift_length [simp]: "length (mv_parts (shift_part i v)) = length (mv_parts v)"
  by (simp add: shift_part_def)

lemma pull_length [simp]: "length (mv_parts (pull_part k i v)) = length (mv_parts v)"
  by (simp add: pull_part_def Let_def)

lemma fold_length:
  assumes "\<And>i v. length (mv_parts (f i v)) = length (mv_parts v)"
  shows "length (mv_parts (fold f is v)) = length (mv_parts v)"
  by (induction "is" arbitrary: v) (simp_all add: assms)

lemma tail_part_move:
  assumes "tail_part i (v, j, s, ss) = Some (v', j', s', ss')" "boxes_ok (s, ss)"
  shows "box_move (s, ss) (s', ss') \<and> parts s' = parts s \<and> vp s' = vp s \<and> length (mv_parts v') = length (mv_parts v)"
proof (cases "j + tail_step \<ge> i")
  case False
  with assms show ?thesis by (auto simp: tail_part_def box_move_refl)
next
  case True
  with assms(1) have "\<exists>nx ny ox oy. sbb_new_sectors nx ny ox oy (s, ss) = Some (s', ss')"
    "length (mv_parts v') = length (mv_parts v)"
    by (auto simp: tail_part_def Let_def bind_eq_Some_conv)
  with sbb_new_sectors_move [OF assms(2)] show ?thesis by fastforce
qed

lemma tail_parts_move:
  assumes "fold_opt tail_part is (v, j, s, ss) = Some (v', j', s', ss')" "boxes_ok (s, ss)"
  shows "box_move (s, ss) (s', ss') \<and> parts s' = parts s \<and> vp s' = vp s \<and> length (mv_parts v') = length (mv_parts v)"
  using assms
proof (induction "is" arbitrary: v j s ss)
  case Nil
  then show ?case by (simp add: box_move_refl)
next
  case (Cons i "is")
  from Cons.prems(1) obtain w k t ts where 1: "tail_part i (v, j, s, ss) = Some (w, k, t, ts)"
    and 2: "fold_opt tail_part is (w, k, t, ts) = Some (v', j', s', ss')"
    by (auto simp: bind_eq_Some_conv)
  note a = tail_part_move [OF 1 Cons.prems(2)]
  then have "boxes_ok (t, ts)" by (simp add: box_move_def)
  from Cons.IH [OF 2 this] a box_move_trans show ?case by fastforce
qed

lemma move_parts_move:
  assumes "move_parts m d st = Some st'" "boxes_ok st"
  shows "box_move st st' \<and> length (parts (fst st')) = length (parts (fst st))"
proof -
  obtain s ss where st: "st = (s, ss)" by (cases st)
  let ?p = "parts s ! 0"
  define hx where "hx = body_x ?p + m_cosf m (angle s) * d"
  define hy where "hy = body_y ?p + m_sinf m (angle s) * d"
  define s0 where "s0 = s\<lparr>parts := (parts s)[0 := \<lparr>body_x = hx, body_y = hy\<rparr>]\<rparr>"
  from assms(1) obtain st1 s2 ss2 v v' j s3 ss3 "is" where
    1: "sbb_new_sectors hx hy (body_x ?p) (body_y ?p) (s0, ss) = Some st1" and
    2: "vp_new_sectors hx hy (body_x ?p) (body_y ?p) st1 = Some (s2, ss2)" and
    3: "fold_opt tail_part is (v, 0, s2, ss2) = Some (v', j, s3, ss3)" and
    4: "length (mv_parts v) = length (parts s2)" and
    5: "st' = (s3\<lparr>parts := mv_parts v', sbb := (sbb s3)\<lparr>pos_x := mv_bbx v' / fl (int (length (parts s))),
      pos_y := mv_bby v' / fl (int (length (parts s)))\<rparr>, vp := (vp s3)\<lparr>pos_x := hx, pos_y := hy\<rparr>\<rparr>, ss3)"
    by (auto simp: st move_parts_def bind_eq_Some_conv Let_def hx_def hy_def s0_def fold_length split: if_splits)
  have b0: "boxes_ok (s0, ss)" using assms(2) by (simp add: st s0_def boxes_ok_def)
  note a1 = sbb_new_sectors_move [OF b0 1]
  then have b1: "boxes_ok st1" by (simp add: box_move_def)
  note a2 = vp_new_sectors_move [OF b1 2]
  then have b2: "boxes_ok (s2, ss2)" by (simp only: box_move_def)
  note a3 = tail_parts_move [OF 3 b2]
  have "box_move (s0, ss) (s3, ss3)" using a1 a2 a3 box_move_trans by blast
  then have "box_move st st'" by (simp add: 5 st s0_def box_move_def boxes_ok_def)
  then show ?thesis using a1 a2 a3 4 by (simp add: 5 st s0_def)
qed

lemma leave_sectors_move:
  assumes "boxes_ok st"
  shows "box_move st (leave_sectors st) \<and> parts (fst (leave_sectors st)) = parts (fst st)"
proof -
  obtain s ss where st: "st = (s, ss)" by (cases st)
  obtain b ss' where r: "SnakeBoundBox_UpdateBoxOldSectors (sbb s, ss) = (b, ss')"
    by (cases "SnakeBoundBox_UpdateBoxOldSectors (sbb s, ss)")
  have ok: "box_ok (sbb s, ss)" "vp_ok ss (vp s)" "bb_id (sbb s) = sn_id s"
    using assms by (simp_all add: st boxes_ok_def)
  from ok(1) have "registered (sbb s) ss" "sorted (bb_sectors (sbb s))" by (simp_all add: box_ok_def)
  then have b: "box_ok (b, ss')" "bb_id b = sn_id s" "bb_snake b = bb_snake (sbb s)" "same_but (sn_id s) ss ss'"
    using UpdateBoxOldSectors_step [of "sbb s" ss] UpdateBoxOldSectors_sectors [of "sbb s" ss] ok(3)
    by (simp_all add: r box_ok_def box_step_def sorted_wrt_filter)
  have v: "vp_ok ss' (vp s)" using ok(2) b(4) by (simp add: same_but_vp_ok)
  show ?thesis using b v vp_old_ok [OF v]
    by (simp add: st leave_sectors_def Let_def r box_move_def boxes_ok_def same_but_grid)
qed

lemma UpdateBoxRadius_keeps [simp]:
  "boxes_ok (UpdateBoxRadius s, ss) = boxes_ok (s, ss)" "rest (UpdateBoxRadius s) = rest s"
  "parts (UpdateBoxRadius s) = parts s" "bb_snake (sbb (UpdateBoxRadius s)) = bb_snake (sbb s)"
  "sn_id (UpdateBoxRadius s) = sn_id s"
  by (simp_all add: UpdateBoxRadius_def Let_def boxes_ok_def)

section \<open>The invariant\<close>

text \<open>
  What holds of a snake and of the grid between two ticks: at least three parts, fullness below
  100, the speed between the two move speeds, the elapsed times not negative, box and view port
  registered, the food of the grid sorted and of size at most 100.
\<close>

definition snake_ok :: "Snake \<times> SectorSeq \<Rightarrow> bool" where
  "snake_ok st \<longleftrightarrow> 3 \<le> length (parts (fst st)) \<and> fullness (fst st) < 100 \<and>
     base_move_speed \<le> speed (fst st) \<and> speed (fst st) \<le> boost_speed \<and>
     0 \<le> mov_ticks (fst st) \<and> 0 \<le> rot_ticks (fst st) \<and> 0 \<le> ai_ticks (fst st) \<and>
     boxes_ok st \<and> grid_ok (snd st) \<and> (\<forall>k < length (snd st). foods_ok (snd st ! k))"

definition snake_step :: "Snake \<times> SectorSeq \<Rightarrow> Snake \<times> SectorSeq \<Rightarrow> bool" where
  "snake_step st st' \<longleftrightarrow> snake_ok st' \<and> sn_id (fst st') = sn_id (fst st) \<and> skin (fst st') = skin (fst st) \<and>
     bot (fst st') = bot (fst st) \<and> bb_snake (sbb (fst st')) = bb_snake (sbb (fst st)) \<and>
     grid_step (sn_id (fst st)) (snd st) (snd st')"

lemma snake_step_refl: "snake_ok st \<Longrightarrow> snake_step st st"
  by (simp add: snake_step_def)

lemma snake_step_trans: "snake_step a b \<Longrightarrow> snake_step b c \<Longrightarrow> snake_step a c"
  unfolding snake_step_def using grid_step_trans by metis

lemma box_move_snake_step:
  assumes "snake_ok st" "box_move st st'" "length (parts (fst st')) = length (parts (fst st))"
  shows "snake_step st st'"
proof -
  have r: "rest (fst st') = rest (fst st)" and g: "grid_step (sn_id (fst st)) (snd st) (snd st')"
    using assms(2) by (simp_all add: box_move_def)
  have "\<forall>k < length (snd st'). foods_ok (snd st' ! k)"
    using g assms(1) by (simp add: grid_step_def snake_ok_def)
  with assms g grid_step_ok [OF g] show ?thesis
    by (simp add: snake_step_def snake_ok_def box_move_def rest_eqD [OF r])
qed

text \<open>A step of the food operations.\<close>

lemma food_move_snake_step:
  assumes "snake_ok (s, ss)" "snake_core s' = snake_core s" "3 \<le> length (parts s')" "fullness s' < 100"
    and "food_step ss ss'"
  shows "snake_step (s, ss) (s', ss')"
proof -
  have c: "sn_id s' = sn_id s" "skin s' = skin s" "bot s' = bot s" "speed s' = speed s" "sbb s' = sbb s"
    "vp s' = vp s" "mov_ticks s' = mov_ticks s" "rot_ticks s' = rot_ticks s" "ai_ticks s' = ai_ticks s"
    using assms(2) by (simp_all add: snake_core_def)
  note g = food_step_grid [OF assms(5), of "sn_id s"]
  have "boxes_ok (s', ss')" using assms(1) food_step_box_ok [OF assms(5)] grid_step_vp_ok [OF g]
    by (simp add: snake_ok_def boxes_ok_def c)
  moreover have "\<forall>k < length ss'. foods_ok (ss' ! k)"
    using g assms(1) by (simp add: grid_step_def snake_ok_def)
  ultimately show ?thesis using assms g grid_step_ok [OF g]
    by (simp add: snake_step_def snake_ok_def c)
qed

lemma fullness_flag: "(x OR change_fullness) AND 0xEF = x AND (0xEF :: u8)"
  unfolding bit.conj_disj_distrib2 by (simp add: change_fullness_def)

lemma tick_boost_step:
  assumes "tick_boost (s, ss) = Some (s', ss')" "snake_ok (s, ss)"
  shows "snake_step (s, ss) (s', ss') \<and> snake_core s' = snake_core s \<and>
    update s' AND 0xEF = update s AND 0xEF"
proof (cases "acceleration s \<and> 3 < length (parts s)")
  case False
  with assms have "s' = s \<or> s' = s\<lparr>acceleration := False\<rparr>" "ss' = ss"
    by (auto simp: tick_boost_def split: if_splits)
  then show ?thesis using food_move_snake_step [OF assms(2), of s' ss'] assms(2)
    by (auto simp: snake_ok_def)
next
  case True
  with assms(1) have D: "DecreaseSnake 33 (s, ss) = Some (s', ss')" by (simp add: tick_boost_def)
  have l: "lost_parts 33 s + 3 \<le> length (parts s)"
  proof -
    have "(33 - uint (fullness s)) div 100 \<le> 0"
      using zdiv_mono1 [of "33 - uint (fullness s)" 33 100] by simp
    then have "nat (1 + (33 - uint (fullness s)) div 100) \<le> 1" by simp
    then show ?thesis using True by (simp add: lost_parts_def)
  qed
  from DecreaseSnake_partial [OF D l] obtain t where
    f: "fullness s < 33 \<longrightarrow> uint (fullness s') = 100 - (uint (33 :: u16) - uint (fullness s)) mod 100"
      "33 \<le> fullness s \<longrightarrow> fullness s' \<le> fullness s"
    and d: "dropped (lost_parts 33 s) (s, ss) (t, ss')" and c: "snake_core s' = snake_core t" "parts s' = parts t"
    and u: "update s' = update s OR change_fullness"
    by blast
  have "fullness s' < 100"
  proof (cases "fullness s < 33")
    case True
    then have u: "uint (fullness s) < 33" by (simp add: word_less_def)
    have "(33 - uint (fullness s)) mod 100 = 33 - uint (fullness s)"
      using uint_ge_0 [of "fullness s"] u by (intro mod_pos_pos_trivial) linarith+
    then have "uint (fullness s') < 100" using f(1) True u by simp
    then show ?thesis by (simp add: word_less_def)
  next
    case False
    then show ?thesis using f(2) assms(2) by (auto simp: snake_ok_def)
  qed
  moreover have "snake_core s' = snake_core s" "3 \<le> length (parts s')" "food_step ss ss'"
    using d c l by (auto simp: dropped_def)
  ultimately show ?thesis using food_move_snake_step [OF assms(2)] u by (simp add: fullness_flag)
qed

section \<open>Speed\<close>

lemma to_u16_exact:
  assumes "exact n x" "0 \<le> n" "n \<le> 65535"
  shows "\<exists>w. to_u16 x = Some w \<and> uint w = n"
proof -
  have "between n n x" using assms(1) by (simp add: between_def exact_def)
  from to_u16_between [OF this assms(2,3)] show ?thesis by force
qed

lemma speed_bounds: "uint base_move_speed = 185" "uint boost_speed = 448"
  by (simp_all add: base_move_speed_def boost_speed_def)

lemma tick_speed_spec:
  assumes "tick_speed t s = Some (b, s')" "base_move_speed \<le> speed s" "speed s \<le> boost_speed"
  shows "\<exists>v. s' = s\<lparr>speed := v\<rparr> \<and> base_move_speed \<le> v \<and> v \<le> boost_speed \<and> (b \<longleftrightarrow> v \<noteq> speed s \<or> b)"
proof -
  define w where "w = (if acceleration s then boost_speed else base_move_speed)"
  have w: "base_move_speed \<le> w" "w \<le> boost_speed"
    by (simp_all add: w_def base_move_speed_def boost_speed_def)
  show ?thesis
  proof (cases "speed s = w")
    case True
    then have "s' = s" using assms(1) by (simp add: tick_speed_def w_def)
    then show ?thesis using assms(2,3) by (intro exI [of _ "speed s"]) simp
  next
    case False
    define sgn where "sgn = (if w > speed s then 1 else - 1 :: int)"
    obtain acc where acc: "to_u16 (fl (speed_acceleration * t) / fl 1000) = Some acc"
      using assms(1) False by (auto simp: tick_speed_def w_def [symmetric] Let_def bind_eq_Some_conv)
    define e where "e = (if \<bar>uint w - uint (speed s)\<bar> \<le> uint acc then Some w
      else to_u16 (fl (uint (speed s)) + (if w > speed s then fl 1 else fl (- 1)) * fl (uint acc)))"
    have "Option.bind e (\<lambda>sp. Some (True, s\<lparr>speed := sp\<rparr>)) = Some (b, s')"
      using assms(1) False acc by (simp add: tick_speed_def w_def [symmetric] Let_def e_def)
    then obtain sp where a: "e = Some sp" and s': "b" "s' = s\<lparr>speed := sp\<rparr>" by (cases e) auto
    note a = a [unfolded e_def]
    have u: "185 \<le> uint (speed s)" "uint (speed s) \<le> 448" "185 \<le> uint w" "uint w \<le> 448"
      using assms(2,3) w speed_bounds by (simp_all add: word_le_def)
    have "185 \<le> uint sp \<and> uint sp \<le> 448"
    proof (cases "\<bar>uint w - uint (speed s)\<bar> \<le> uint acc")
      case True
      with a u show ?thesis by simp
    next
      case big: False
      define A where "A = uint acc"
      have acc: "0 \<le> A" "A \<le> 448" using big u by (simp_all add: A_def)
      have fs: "(if w > speed s then fl 1 else fl (- 1)) = fl sgn" by (simp add: sgn_def)
      have "exact (sgn * A) (fl sgn * fl (A))"
        using acc by (intro exact_mult exact_fl) (auto simp: sgn_def)
      then have "exact (uint (speed s) + sgn * A) (fl (uint (speed s)) + fl sgn * fl (A))"
        using acc u by (intro exact_add exact_fl) (auto simp: sgn_def)
      moreover have "185 \<le> uint (speed s) + sgn * A" "uint (speed s) + sgn * A \<le> 448"
        using big [folded A_def] u acc by (auto simp: sgn_def word_less_def)
      ultimately obtain x where "to_u16 (fl (uint (speed s)) + fl sgn * fl A) = Some x" "185 \<le> uint x" "uint x \<le> 448"
        using to_u16_exact [of "uint (speed s) + sgn * A" "fl (uint (speed s)) + fl sgn * fl A"] by auto
      then show ?thesis using a big by (simp add: fs A_def)
    qed
    then have "base_move_speed \<le> sp" "sp \<le> boost_speed" using speed_bounds by (simp_all add: word_le_def)
    then show ?thesis using s' by blast
  qed
qed

section \<open>The whole tick\<close>

lemma get_sector_area: "grid_ok ss \<Longrightarrow> length ss = 20736"
  by (rule grid_ok_length)

lemma UpdateEatenFood_step:
  assumes "UpdateEatenFood (s, ss) = Some (s', ss')" "snake_ok (s, ss)"
  shows "snake_step (s, ss) (s', ss') \<and> snake_core s' = snake_core s \<and>
    update s' AND 0xEF = update s AND 0xEF"
proof -
  have "parts s \<noteq> []" "fullness s < 100" "\<forall>k < length ss. foods_ok (ss ! k)"
    using assms(2) by (auto simp: snake_ok_def)
  from UpdateEatenFood_spec [OF assms(1) this(2,1,3)] obtain k fs where
    a: "ate fs (s, ss ! k) (s', ss' ! k)" and f: "food_step ss ss'" by blast
  have "3 \<le> length (parts s')" using a assms(2) by (simp add: ate_def snake_ok_def)
  with a show ?thesis using food_move_snake_step [OF assms(2) _ _ _ f, of s'] by (simp add: ate_def)
qed

lemma move_onceE:
  assumes "move_once m ft (t, ss) = Some (c, s', ss')"
  obtains s1 ss1 s2 ss2 s3 b s4 where
    "move_parts m (fl (uint (speed t) * ft) / fl 1000) (t, ss) = Some (s1, ss1)"
    "UpdateEatenFood (leave_sectors (UpdateBoxRadius s1, ss1)) = Some (s2, ss2)"
    "tick_boost (s2, ss2) = Some (s3, ss')"
    "tick_speed ft s3 = Some (b, s4)"
    "s' = s4\<lparr>mov_ticks := mov_ticks s4 - ft\<rparr>"
    "c = change_pos OR (if b then change_speed else 0)"
  using assms unfolding move_once_def Let_def bind_eq_Some_conv
  by (elim exE conjE) (simp split: prod.splits add: bind_eq_Some_conv, elim exE conjE, blast)

text \<open>The elapsed time pays for the frames: only the remainder stays.\<close>

lemma move_once_step:
  assumes "move_once m ft (t, ss) = Some (c, s', ss')" "snake_ok (t, ss)" "ft \<le> mov_ticks t"
  shows "snake_step (t, ss) (s', ss') \<and> mov_ticks s' = mov_ticks t - ft \<and>
    update s' AND 0xEF = update t AND 0xEF \<and> c AND change_pos = change_pos"
proof -
  obtain s1 ss1 s2 ss2 s3 b s4 where
    1: "move_parts m (fl (uint (speed t) * ft) / fl 1000) (t, ss) = Some (s1, ss1)" and
    2: "UpdateEatenFood (leave_sectors (UpdateBoxRadius s1, ss1)) = Some (s2, ss2)" and
    3: "tick_boost (s2, ss2) = Some (s3, ss')" and
    4: "tick_speed ft s3 = Some (b, s4)" and
    5: "s' = s4\<lparr>mov_ticks := mov_ticks s4 - ft\<rparr>" and
    6: "c = change_pos OR (if b then change_speed else 0)"
    using assms(1) by (rule move_onceE)
  have bt: "boxes_ok (t, ss)" using assms(2) by (simp add: snake_ok_def)
  note m1 = move_parts_move [OF 1 bt]
  have m2: "box_move (t, ss) (UpdateBoxRadius s1, ss1)"
    using m1 by (simp add: box_move_def)
  then have "boxes_ok (UpdateBoxRadius s1, ss1)" by (simp only: box_move_def)
  note m3 = leave_sectors_move [OF this]
  obtain sl ssl where sl: "leave_sectors (UpdateBoxRadius s1, ss1) = (sl, ssl)" by (metis surj_pair)
  have m4: "box_move (t, ss) (sl, ssl)" using box_move_trans [OF m2] m3 by (simp add: sl)
  have "length (parts sl) = length (parts t)" using m3 m1 by (simp add: sl)
  then have l: "snake_step (t, ss) (sl, ssl)" using box_move_snake_step [OF assms(2) m4] by simp
  have lr: "rest sl = rest t" using m4 by (simp add: box_move_def)
  have "snake_ok (sl, ssl)" using l by (simp add: snake_step_def)
  note e2 = UpdateEatenFood_step [OF 2 [unfolded sl] this]
  then have "snake_ok (s2, ss2)" by (simp add: snake_step_def)
  note e3 = tick_boost_step [OF 3 this]
  have ok3: "snake_ok (s3, ss')" using e3 by (simp add: snake_step_def)
  from tick_speed_spec [OF 4] ok3 obtain v where v: "s4 = s3\<lparr>speed := v\<rparr>" "base_move_speed \<le> v" "v \<le> boost_speed"
    by (auto simp: snake_ok_def)
  have t: "mov_ticks s3 = mov_ticks t"
    using e2 e3 rest_eqD(12) [OF lr] by (simp add: snake_core_def)
  have "snake_step (t, ss) (s3, ss')" using snake_step_trans [OF snake_step_trans [OF l]] e2 e3 by blast
  moreover have "c AND change_pos = change_pos" by (simp add: 6 change_pos_def change_speed_def)
  moreover have "update s3 AND 0xEF = update t AND 0xEF" using e2 e3 rest_eqD(3) [OF lr] by simp
  ultimately show ?thesis using v ok3 t assms(3) by (simp add: 5 snake_step_def snake_ok_def boxes_ok_def)
qed

lemma tick_move_step:
  assumes "tick_move m dt (s, ss) = Some (c, s', ss')" "snake_ok (s, ss)" "0 \<le> dt"
  shows "snake_step (s, ss) (s', ss') \<and>
    mov_ticks s' = (mov_ticks s + dt) mod (1000 * move_step_distance div uint (speed s)) \<and>
    update s' AND 0xEF = update s AND 0xEF \<and> (c = 0 \<and> parts s' = parts s \<or> c AND change_pos = change_pos)"
proof -
  define t where "t = s\<lparr>mov_ticks := mov_ticks s + dt\<rparr>"
  define iv where "iv = 1000 * move_step_distance div uint (speed t)"
  have ok: "snake_ok (t, ss)" using assms(2,3) by (simp add: t_def snake_ok_def boxes_ok_def)
  have st: "snake_step (s, ss) (t, ss)" using ok by (simp add: t_def snake_step_def)
  have u: "185 \<le> uint (speed t)" "uint (speed t) \<le> 448"
    using ok speed_bounds by (simp_all add: snake_ok_def word_le_def)
  then have nz: "speed t \<noteq> 0" by auto
  have "42000 div 448 \<le> 42000 div uint (speed t)" using u by (intro zdiv_mono2) simp_all
  then have iv0: "93 \<le> iv" by (simp add: iv_def move_step_distance_def)
  have t0: "0 \<le> mov_ticks t" using ok by (simp add: snake_ok_def)
  have ivs: "1000 * move_step_distance div uint (speed s) = iv" "mov_ticks t = mov_ticks s + dt"
    by (simp_all add: iv_def t_def)
  show ?thesis
  proof (cases "iv \<le> mov_ticks t")
    case False
    with assms(1) nz have "s' = t" "ss' = ss" "c = 0"
      by (auto simp: tick_move_def t_def [symmetric] iv_def Let_def)
    moreover have "update t = update s" "parts t = parts s" by (simp_all add: t_def)
    ultimately show ?thesis using st t0 False by (simp add: ivs)
  next
    case True
    with assms(1) nz iv0 have m: "move_once m (mov_ticks t div iv * iv) (t, ss) = Some (c, s', ss')"
      by (simp add: tick_move_def t_def [symmetric] iv_def [symmetric] Let_def)
    have "mov_ticks t div iv * iv \<le> mov_ticks t" using iv0 pos_mod_sign [of iv "mov_ticks t"]
      by (simp add: minus_mod_eq_div_mult [symmetric])
    moreover have "update t = update s" by (simp add: t_def)
    ultimately show ?thesis using move_once_step [OF m ok] snake_step_trans [OF st]
      unfolding ivs by (auto simp: minus_div_mult_eq_mod)
  qed
qed

lemma ai_step_keeps: "rest (ai_step m s) = (rest s)\<lparr>wangle := wangle (ai_step m s), update := update (ai_step m s)\<rparr> \<and>
    sbb (ai_step m s) = sbb s \<and> vp (ai_step m s) = vp s \<and> parts (ai_step m s) = parts s"
  by (simp add: ai_step_def Let_def rest_def)

lemma TickAI_keeps:
  "\<exists>w u. TickAI m n s = s\<lparr>wangle := w, update := u\<rparr>"
proof -
  have "\<exists>w u. fold (\<lambda>_. ai_step m) is s = s\<lparr>wangle := w, update := u\<rparr>" for "is" :: "nat list"
  proof (induction "is" arbitrary: s)
    case Nil
    then show ?case by (intro exI [of _ "wangle s"] exI [of _ "update s"]) simp
  next
    case (Cons i "is")
    obtain w u where a: "ai_step m s = s\<lparr>wangle := w, update := u\<rparr>"
    proof (cases "ai_step m s = s")
      case True
      then show thesis by (intro that [of "update s" "wangle s"]) simp
    next
      case False
      then show thesis using that by (auto simp: ai_step_def Let_def split: if_splits)
    qed
    with Cons [of "ai_step m s"] show ?case by auto
  qed
  then show ?thesis by (simp add: TickAI_def)
qed

lemma tick_bot_keeps:
  assumes "0 \<le> ai_ticks s" "0 \<le> dt"
  shows "\<exists>w u t. tick_bot m dt s = s\<lparr>wangle := w, update := u, ai_ticks := t\<rparr> \<and> 0 \<le> t"
proof (cases "bot s")
  case False
  then have "tick_bot m dt s = s\<lparr>wangle := wangle s, update := update s, ai_ticks := ai_ticks s\<rparr>"
    by (simp add: tick_bot_def)
  with assms(1) show ?thesis by blast
next
  case b: True
  show ?thesis
  proof (cases "1000 < ai_ticks s + dt")
    case False
    with b have "tick_bot m dt s = s\<lparr>wangle := wangle s, update := update s, ai_ticks := ai_ticks s + dt\<rparr>"
      by (simp add: tick_bot_def ai_step_interval_def)
    moreover have "0 \<le> ai_ticks s + dt" using assms by simp
    ultimately show ?thesis by blast
  next
    case True
    let ?n = "(ai_ticks s + dt) div 1000"
    obtain w u where a: "TickAI m ?n (s\<lparr>ai_ticks := ai_ticks s + dt\<rparr>) =
        s\<lparr>ai_ticks := ai_ticks s + dt\<rparr>\<lparr>wangle := w, update := u\<rparr>"
      using TickAI_keeps by blast
    have "tick_bot m dt s = s\<lparr>wangle := w, update := u, ai_ticks := ai_ticks s + dt - ?n * 1000\<rparr>"
      using b True by (simp add: tick_bot_def ai_step_interval_def Let_def a)
    moreover have "0 \<le> ai_ticks s + dt - ?n * 1000"
      using pos_mod_sign [of 1000 "ai_ticks s + dt"] by (simp add: minus_div_mult_eq_mod)
    ultimately show ?thesis by blast
  qed
qed

lemma rot_step_interval_value: "rot_step_interval = 93"
  by code_simp

lemma rotated_angle_clock [simp]: "rotated_angle ft (s\<lparr>rot_ticks := t\<rparr>) = rotated_angle ft s"
  by (simp add: rotated_angle_def Let_def)

lemma tick_rotate_cases:
  assumes "0 \<le> rot_ticks s" "0 \<le> dt"
  obtains "snd (tick_rotate dt s) = s"
  | "snd (tick_rotate dt s) = s\<lparr>rot_ticks := rot_ticks s + dt\<rparr>" "rot_ticks s + dt < 93"
  | ft where "snd (tick_rotate dt s) = s\<lparr>angle := rotated_angle ft s, rot_ticks := rot_ticks s + dt - ft\<rparr>"
      "0 \<le> ft" "ft \<le> rot_ticks s + dt" "rot_ticks s + dt - ft < 93"
proof (cases "feq (angle s) (wangle s)")
  case True
  then show thesis using that(1) by (simp add: tick_rotate_def)
next
  case n: False
  show thesis
  proof (cases "93 \<le> rot_ticks s + dt")
    case False
    with n show thesis using that(2) by (simp add: tick_rotate_def rot_step_interval_value)
  next
    case True
    let ?ft = "(rot_ticks s + dt) div 93 * 93"
    have "0 \<le> ?ft" "?ft \<le> rot_ticks s + dt" "rot_ticks s + dt - ?ft < 93"
      using True pos_mod_sign [of 93 "rot_ticks s + dt"] pos_mod_bound [of 93 "rot_ticks s + dt"]
      by (simp_all add: pos_imp_zdiv_nonneg_iff minus_mod_eq_div_mult [symmetric])
    with n True show thesis using that(3) [of ?ft]
      by (simp add: tick_rotate_def rot_step_interval_value Let_def)
  qed
qed

lemma tick_rotate_keeps:
  assumes "0 \<le> rot_ticks s" "0 \<le> dt"
  shows "\<exists>a t. snd (tick_rotate dt s) = s\<lparr>angle := a, rot_ticks := t\<rparr> \<and> 0 \<le> t"
proof (rule tick_rotate_cases [OF assms])
  assume e: "snd (tick_rotate dt s) = s"
  show ?thesis using assms(1) unfolding e by (intro exI [of _ "angle s"] exI [of _ "rot_ticks s"]) simp
next
  assume e: "snd (tick_rotate dt s) = s\<lparr>rot_ticks := rot_ticks s + dt\<rparr>"
  show ?thesis using assms unfolding e
    by (intro exI [of _ "angle s"] exI [of _ "rot_ticks s + dt"]) simp
next
  fix ft assume e: "snd (tick_rotate dt s) = s\<lparr>angle := rotated_angle ft s, rot_ticks := rot_ticks s + dt - ft\<rparr>"
    and "ft \<le> rot_ticks s + dt"
  then show ?thesis unfolding e
    by (intro exI [of _ "rotated_angle ft s"] exI [of _ "rot_ticks s + dt - ft"]) simp
qed

lemma snake_ok_fields:
  "snake_ok (s\<lparr>wangle := w, update := u, ai_ticks := t\<rparr>, ss) \<longleftrightarrow> snake_ok (s\<lparr>ai_ticks := t\<rparr>, ss)"
  "snake_ok (s\<lparr>angle := a, rot_ticks := r\<rparr>, ss) \<longleftrightarrow> snake_ok (s\<lparr>rot_ticks := r\<rparr>, ss)"
  "snake_ok (s\<lparr>update := u\<rparr>, ss) \<longleftrightarrow> snake_ok (s, ss)"
  by (simp_all add: snake_ok_def boxes_ok_def)

lemma tick_bot_step:
  assumes "snake_ok (s, ss)" "0 \<le> dt"
  shows "snake_step (s, ss) (tick_bot m dt s, ss) \<and> mov_ticks (tick_bot m dt s) = mov_ticks s \<and>
    speed (tick_bot m dt s) = speed s"
proof -
  have "0 \<le> ai_ticks s" using assms(1) by (simp add: snake_ok_def)
  from tick_bot_keeps [OF this assms(2)] obtain w u t where
    e: "tick_bot m dt s = s\<lparr>wangle := w, update := u, ai_ticks := t\<rparr>" and t: "0 \<le> t" by blast
  have "snake_ok (s\<lparr>ai_ticks := t\<rparr>, ss)" using assms(1) t by (simp add: snake_ok_def boxes_ok_def)
  then have "snake_ok (s\<lparr>wangle := w, update := u, ai_ticks := t\<rparr>, ss)" by (simp only: snake_ok_fields)
  then show ?thesis unfolding e by (simp add: snake_step_def)
qed

lemma tick_rotate_step:
  assumes "snake_ok (s, ss)" "0 \<le> dt"
  shows "snake_step (s, ss) (snd (tick_rotate dt s), ss) \<and> mov_ticks (snd (tick_rotate dt s)) = mov_ticks s \<and>
    speed (snd (tick_rotate dt s)) = speed s"
proof -
  have "0 \<le> rot_ticks s" using assms(1) by (simp add: snake_ok_def)
  from tick_rotate_keeps [OF this assms(2)] obtain a t where
    e: "snd (tick_rotate dt s) = s\<lparr>angle := a, rot_ticks := t\<rparr>" and t: "0 \<le> t" by blast
  have "snake_ok (s\<lparr>rot_ticks := t\<rparr>, ss)" using assms(1) t by (simp add: snake_ok_def boxes_ok_def)
  then have "snake_ok (s\<lparr>angle := a, rot_ticks := t\<rparr>, ss)" by (simp only: snake_ok_fields)
  then show ?thesis unfolding e by (simp add: snake_step_def)
qed

lemma TickE:
  assumes "Tick m dt (s, ss) = Some (b, s', ss')"
  obtains (dead) "update s AND (change_dying OR change_dead) \<noteq> 0" "b = False" "s' = s" "ss' = ss"
  | (alive) c t where "update s AND (change_dying OR change_dead) = 0"
      "tick_move m dt (snd (tick_rotate dt (tick_bot m dt s)), ss) = Some (c, t, ss')"
      "s' = t \<or> (\<exists>u. s' = t\<lparr>update := u\<rparr>)"
proof (cases "update s AND (change_dying OR change_dead) = 0")
  case False
  with assms have "b = False" "s' = s" "ss' = ss" by (simp_all add: Tick_def)
  with False show thesis by (rule dead)
next
  case True
  obtain rot r where r: "tick_rotate dt (tick_bot m dt s) = (rot, r)" by (metis surj_pair)
  have E: "Option.bind (tick_move m dt (r, ss)) (\<lambda>(mov, s, ss). let changes = (if rot then change_angle else 0) OR mov
     in Some (if changes > 0 \<and> changes \<noteq> update s
             then (True, s\<lparr>update := update s OR changes\<rparr>, ss) else (False, s, ss))) = Some (b, s', ss')"
    using assms True by (simp add: Tick_def r)
  then obtain c t ss2 where m: "tick_move m dt (r, ss) = Some (c, t, ss2)"
    by (cases "tick_move m dt (r, ss)") auto
  define ch where "ch = (if rot then change_angle else 0) OR c"
  have "(if ch > 0 \<and> ch \<noteq> update t then (True, t\<lparr>update := update t OR ch\<rparr>, ss2) else (False, t, ss2)) = (b, s', ss')"
    using E by (cases rot) (simp_all add: m ch_def Let_def split: if_splits)
  then have "ss2 = ss'" "s' = t \<or> (\<exists>u. s' = t\<lparr>update := u\<rparr>)"
    by (auto split: if_splits)
  with m r True show thesis by (intro alive) simp_all
qed

lemma Tick_step:
  assumes "snake_ok (s, ss)" "0 \<le> dt" "Tick m dt (s, ss) = Some (b, s', ss')"
  shows "snake_step (s, ss) (s', ss')"
  using assms(3)
proof (cases rule: TickE)
  case dead
  with assms(1) show ?thesis by (simp add: snake_step_refl)
next
  case (alive c t)
  note 1 = tick_bot_step [OF assms(1,2), of m]
  then have "snake_ok (tick_bot m dt s, ss)" by (simp add: snake_step_def)
  note 2 = tick_rotate_step [OF this assms(2)]
  then have "snake_ok (snd (tick_rotate dt (tick_bot m dt s)), ss)" by (simp add: snake_step_def)
  note 3 = tick_move_step [OF alive(2) this assms(2)]
  have "snake_step (s, ss) (t, ss')"
    using snake_step_trans [OF snake_step_trans] 1 2 3 by blast
  then show ?thesis using alive(3) by (auto simp: snake_step_def snake_ok_fields)
qed

section \<open>Properties\<close>

text \<open>
  C7: a tick keeps the snake in shape. From a state that satisfies \<open>snake_ok\<close> (at least three parts,
  fullness below 100, speed between 185 and 448, box and view port registered, food sorted) every
  tick that returns ends in such a state; the identity of the snake stays, the registrations
  of all other snakes stay, and the movement clock keeps exactly the time not yet paid for.
\<close>

theorem Tick_invariant:
  assumes "snake_ok (s, ss)" "0 \<le> dt" "Tick m dt (s, ss) = Some (b, s', ss')"
  shows "snake_ok (s', ss') \<and> sn_id s' = sn_id s \<and> bot s' = bot s \<and> grid_step (sn_id s) ss ss' \<and>
    (update s AND (change_dying OR change_dead) = 0 \<longrightarrow>
       mov_ticks s' = (mov_ticks s + dt) mod (1000 * move_step_distance div uint (speed s)))"
  using assms(3)
proof (cases rule: TickE)
  case dead
  with assms(1) show ?thesis by simp
next
  case (alive c t)
  let ?r = "snd (tick_rotate dt (tick_bot m dt s))"
  note 1 = tick_bot_step [OF assms(1,2), of m]
  then have "snake_ok (tick_bot m dt s, ss)" by (simp add: snake_step_def)
  note 2 = tick_rotate_step [OF this assms(2)]
  then have "snake_ok (?r, ss)" by (simp add: snake_step_def)
  note 3 = tick_move_step [OF alive(2) this assms(2)]
  have 4: "snake_step (s, ss) (t, ss')"
    using snake_step_trans [OF snake_step_trans] 1 2 3 by blast
  have "snake_ok (s', ss') \<and> sn_id s' = sn_id t \<and> bot s' = bot t \<and> mov_ticks s' = mov_ticks t"
    using alive(3) 4 by (auto simp: snake_step_def snake_ok_fields)
  with 1 2 3 4 show ?thesis by (auto simp: snake_step_def)
qed

end
