(* ===== verification/TickSafety.thy ===== *)
theory TickSafety
  imports TickInvariant
begin

text \<open>
  The tick of a snake never runs into undefined behaviour: every conversion of a float to an
  integer is in range, every index inside its vector. The bounds of the coordinates survive the
  rounding of the float arithmetic because a part moves at most half the way to the one before
  (\<open>half_step\<close>); the angles stay in \<open>[-1, 7]\<close> because \<open>normalize_angle\<close> is accurate
  to a thousandth; the movement clock stays below its interval.
\<close>

section \<open>Rounding within fixed bounds\<close>

lemma between_div:
  assumes "between a b x" "exact d y" "0 < d" "lo * d \<le> a" "b \<le> hi * d" "\<bar>lo\<bar> \<le> 16777216" "\<bar>hi\<bar> \<le> 16777216"
  shows "between lo hi (x / y)"
proof -
  have x: "isfin x" "of_int a \<le> fval x" "fval x \<le> of_int b" and y: "isfin y" "fval y = of_int d"
    using assms(1,2) by (simp_all add: between_def exact_def)
  have d: "0 < real_of_int d" using assms(3) by simp
  have "real_of_int (lo * d) \<le> of_int a" "real_of_int b \<le> of_int (hi * d)"
    using assms(4,5) by (simp_all only: of_int_le_iff)
  then have q: "of_int lo \<le> fval x / fval y" "fval x / fval y \<le> of_int hi"
    using x d unfolding y(2) by (simp_all add: pos_le_divide_eq pos_divide_le_eq)
  have nz: "fval y \<noteq> 0" using y d by simp
  note t = small_le_top [OF q assms(6,7)]
  note v = divide_value [OF x(1) y(1) nz t]
  show ?thesis using v(1) rnd_between [OF v(2) q assms(6,7)] by (simp add: between_def)
qed

text \<open>A rounded value below 256 is off by at most \<open>1/65536\<close>.\<close>

lemma rnd_close:
  assumes "rnd_of single r v" "\<bar>r\<bar> \<le> 255"
  shows "\<bar>v - r\<bar> \<le> 1 / 65536"
proof -
  let ?u = "of_int \<lceil>r * 65536\<rceil> / 65536 :: real" and ?l = "of_int \<lfloor>r * 65536\<rfloor> / 65536 :: real"
  have "\<lceil>r * 65536\<rceil> \<le> 16777216" "- 16777216 \<le> \<lceil>r * 65536\<rceil>"
    "\<lfloor>r * 65536\<rfloor> \<le> 16777216" "- 16777216 \<le> \<lfloor>r * 65536\<rfloor>"
    using assms(2) by (auto simp: abs_le_iff ceiling_le_iff le_ceiling_iff le_floor_iff floor_le_iff)
  then have b: "\<bar>\<lceil>r * 65536\<rceil>\<bar> \<le> 16777216" "\<bar>\<lfloor>r * 65536\<rfloor>\<bar> \<le> 16777216"
    by linarith+
  have g: "grid single (of_int k / 65536)" if "\<bar>k\<bar> \<le> 16777216" for k
    using grid_single_dyadic [OF that, of "- 16"] by (simp add: power_int_def power_divide)
  have "r \<le> ?u" "?l \<le> r" by (simp_all add: le_divide_eq divide_le_eq)
  then have "v \<le> ?u" "?l \<le> v"
    using rnd_of_le [OF assms(1) g [OF b(1)]] rnd_of_ge [OF assms(1) g [OF b(2)]] by blast+
  moreover have "?u \<le> r + 1 / 65536" "r - 1 / 65536 \<le> ?l"
    using ceiling_correct [of "r * 65536"] floor_correct [of "r * 65536"] by (simp_all add: field_simps)
  ultimately show ?thesis by linarith
qed

lemma small255_le_top: "\<bar>r\<bar> \<le> 255 \<Longrightarrow> \<bar>r\<bar> \<le> top_pow single"
  using top_single by linarith

lemma f_2pi_value: "isfin f_2pi" "fval f_2pi = 13176795 / 2097152"
proof -
  have e: "f_2pi = Fin False 13176795 (- 21)" by code_simp
  show "isfin f_2pi" "fval f_2pi = 13176795 / 2097152"
    unfolding e by (simp_all add: power_int_def power_divide)
qed

text \<open>The angles of a snake: at most a rounding error below 0, and below 7.\<close>

definition angle_ok :: "flt \<Rightarrow> bool" where
  "angle_ok x \<longleftrightarrow> between (- 1) 7 x \<and> - 1 / 64 \<le> fval x"

lemma angle_ok_between: "angle_ok x \<Longrightarrow> between (- 1) 7 x"
  by (simp add: angle_ok_def)

lemma angle_ok_pos: "between 0 7 x \<Longrightarrow> angle_ok x"
  by (simp add: angle_ok_def between_def)

text \<open>An angle of moderate size is normalised into \<open>[0, 2 pi]\<close> up to rounding.\<close>

lemma normalize_range:
  assumes "between (- 32) 32 a"
  shows "angle_ok (normalize_angle a)"
proof -
  let ?p = "13176795 / 2097152 :: real"
  have a: "isfin a" "- 32 \<le> fval a" "fval a \<le> 32" using assms by (simp_all add: between_def)
  have "\<bar>fval a / ?p\<bar> \<le> 6" using a(2,3) by (simp add: abs_le_iff)
  then have q6: "\<bar>fval a / fval f_2pi\<bar> \<le> 6" by (simp only: f_2pi_value)
  have q255: "\<bar>fval a / fval f_2pi\<bar> \<le> 255" using q6 by linarith
  have nz: "fval f_2pi \<noteq> 0" by (simp add: f_2pi_value)
  note d = divide_value [OF a(1) f_2pi_value(1) nz small255_le_top [OF q255]]
  have qc: "\<bar>fval (a / f_2pi) - fval a / ?p\<bar> \<le> 1 / 65536"
    using rnd_close [OF d(2) q255] by (simp only: f_2pi_value)
  define q where "q = fval (a / f_2pi)"
  define n where "n = \<lfloor>q\<rfloor>"
  have q: "\<bar>q - fval a / ?p\<bar> \<le> 1 / 65536" using qc by (simp add: q_def)
  have q7: "\<bar>q\<bar> \<le> 7" using q6 q unfolding f_2pi_value by linarith
  have fl: "isfin (floorf (a / f_2pi))" "fval (floorf (a / f_2pi)) = of_int n"
    using floorf_value [OF d(1)] q7 by (simp_all add: n_def q_def)
  have n: "of_int n \<le> q" "q < of_int n + 1" by (simp_all add: n_def)
  have np: "\<bar>of_int n * ?p\<bar> \<le> 255" using q7 n by (simp add: abs_le_iff)
  then have np': "\<bar>fval f_2pi * fval (floorf (a / f_2pi))\<bar> \<le> 255"
    by (simp only: fl f_2pi_value mult.commute)
  note m = mult_value [OF f_2pi_value(1) fl(1) small255_le_top [OF np']]
  define w where "w = fval (f_2pi * floorf (a / f_2pi))"
  have w: "\<bar>w - of_int n * ?p\<bar> \<le> 1 / 65536"
    using rnd_close [OF m(2) np'] unfolding w_def by (simp only: fl f_2pi_value mult.commute)
  have qp: "\<bar>q * ?p - fval a\<bar> \<le> 1 / 65536 * ?p"
  proof -
    have "q * ?p - fval a = (q - fval a / ?p) * ?p" by simp
    then show ?thesis using q by (simp only: abs_mult) simp
  qed
  have lo: "of_int n * ?p - 1 / 1000 \<le> fval a" and hi: "fval a \<le> of_int n * ?p + ?p + 1 / 1000"
    using qp n by linarith+
  have r: "of_int (- 1) \<le> fval a - w" "fval a - w \<le> of_int 7"
    unfolding of_int_minus of_int_1 of_int_numeral using lo hi w by linarith+
  have t: "\<bar>fval a - fval (f_2pi * floorf (a / f_2pi))\<bar> \<le> top_pow single"
    using small_le_top [OF r] by (simp add: w_def)
  note s = diff_value [OF a(1) m(1) t]
  have "grid single (of_int (- 1) * 2 powi (- 6))" by (rule grid_single_dyadic) simp_all
  then have "grid single (- 1 / 64)" by (simp add: power_int_def power_divide)
  moreover have "- 1 / 64 \<le> fval a - fval (f_2pi * floorf (a / f_2pi))"
    using lo w unfolding w_def [symmetric] by linarith
  ultimately have "- 1 / 64 \<le> fval (normalize_angle a)"
    unfolding normalize_angle_def by (rule rnd_of_ge [OF s(2)])
  then show ?thesis using s(1) rnd_between [OF s(2), of "- 1" 7] r
    by (simp add: angle_ok_def between_def normalize_angle_def w_def)
qed

section \<open>Values are multiples of the least one\<close>

definition on_unit :: "flt \<Rightarrow> bool" where
  "on_unit x \<longleftrightarrow> (\<exists>z. fval x = of_int z * 2 powi (- 149))"

lemma round_frac_exp: "round_frac F s a b = Fin t m e \<Longrightarrow> qmin F \<le> e"
  by (auto simp: round_frac_def pack_def quantum_def Let_def split: if_splits)

lemma least_unit: "2 ^ 149 * (2::real) powi (- 149) = 1"
proof -
  have "(2::real) powi (- 149) = inverse (2 powi 149)" by (rule power_int_minus)
  moreover have "(2::real) powi 149 = 2 ^ 149" by (simp add: power_int_def)
  ultimately show ?thesis by simp
qed

lemma unit_exp: "- 149 \<le> e \<Longrightarrow> on_unit (Fin s m e)"
proof -
  assume e: "- 149 \<le> e"
  have "(2::real) powi e = 2 powi (e + 149) * 2 powi (- 149)"
    using powi_split [of "e + 149" "- 149"] by simp
  also have "(2::real) powi (e + 149) = of_int (2 ^ nat (e + 149))" using e by (simp add: power_int_def)
  finally have "fval (Fin s m e) = of_int (sgn_man s m * 2 ^ nat (e + 149)) * 2 powi (- 149)"
    unfolding fval_sgn_man by simp
  then show ?thesis unfolding on_unit_def by blast
qed

lemma unit_round: "isfin (round_frac single s a b) \<Longrightarrow> on_unit (round_frac single s a b)"
  using round_frac_exp [of single s a b] unit_exp
  by (cases "round_frac single s a b") (auto simp: single_def)

lemma unit_add: "isfin (x + y) \<Longrightarrow> on_unit (x + y)"
  by (cases x; cases y) (auto simp: plus_flt_def Let_def unit_round single_def [THEN arg_cong, of qmin]
      intro: unit_exp split: if_splits)

text \<open>
  A part is drawn towards another by at most half the way. Rounding cannot carry it past the
  bound the other respects: below the bound there is a power of two that no step exceeds.
\<close>

lemma half_step:
  assumes "rnd_of single r d" "rnd_of single (k * d) t" "0 \<le> k" "k \<le> 1 / 2"
    and "g = of_int z * 2 powi (- 149)" "0 \<le> g" "r \<le> g" "g \<le> 2 powi 100"
  shows "t \<le> g"
proof (cases "z \<le> 0")
  case True
  then have "g \<le> 0" unfolding assms(5) by (simp add: mult_nonpos_nonneg)
  then have g: "g = 0" using assms(6) by simp
  then have "d \<le> 0" using rnd_of_le [OF assms(1) grid_0] assms(7) by simp
  then have "k * d \<le> 0" using assms(3) by (simp add: mult_nonneg_nonpos)
  then show ?thesis using rnd_of_le [OF assms(2) grid_0] g by simp
next
  case False
  then have z: "0 < z" by simp
  define j where "j = flog2 z (2 ^ 149)"
  have gz: "of_int z / of_int (2 ^ 149) = g"
  proof -
    have "g * 2 ^ 149 = of_int z" unfolding assms(5) using least_unit by (simp only: mult.assoc mult.commute) simp
    then show ?thesis by (simp only: of_int_power of_int_numeral) (simp add: field_simps)
  qed
  have pos: "0 < (2::int) ^ 149" by simp
  have j: "2 powi j \<le> g" "g < 2 powi (j + 1)"
    using flog2_bounds [OF z pos] unfolding gz j_def [symmetric] by blast+
  have "(2::real) powi (- 149) \<le> g" unfolding assms(5) using z by simp
  then have "(2::real) powi (- 149) < 2 powi (j + 1)" using j(2) by linarith
  then have "- 149 < j + 1" by (metis not_le powi_le_iff)
  then have j149: "- 149 \<le> j" by simp
  have "d \<le> 2 powi (j + 1)"
    using rnd_of_le [OF assms(1) grid_powi [of "j + 1"]] j149 j(2) assms(7) by simp
  also have "(2::real) powi (j + 1) = 2 * 2 powi j" by (simp add: powi_split)
  finally have d: "d / 2 \<le> 2 powi j" by simp
  have "k * d \<le> 2 powi j"
  proof (cases "0 \<le> d")
    case True
    then have "k * d \<le> 1 / 2 * d" using assms(4) by (intro mult_right_mono) auto
    with d show ?thesis by simp
  next
    case False
    then have "k * d \<le> 0" using assms(3) by (simp add: mult_nonneg_nonpos)
    also have "0 \<le> (2::real) powi j" by simp
    finally show ?thesis .
  qed
  then have "t \<le> 2 powi j" using rnd_of_le [OF assms(2) grid_powi [OF j149]] by simp
  with j(1) show ?thesis by simp
qed

definition coord_ok :: "flt \<Rightarrow> bool" where
  "coord_ok x \<longleftrightarrow> between 0 43200 x \<and> on_unit x"

lemma coord_step:
  assumes p: "coord_ok p" and l: "coord_ok l" and k: "0 \<le> k" "k \<le> 1 / 2"
    and t: "isfin t" "rnd_of single (k * fval (l - p)) (fval t)"
  shows "coord_ok (p + t)"
proof -
  have pl: "isfin p" "isfin l" "0 \<le> fval p" "fval p \<le> 43200" "0 \<le> fval l" "fval l \<le> 43200"
    using p l by (simp_all add: coord_ok_def between_def)
  have t0: "\<bar>fval l - fval p\<bar> \<le> top_pow single" using top_single pl by linarith
  note d = diff_value [OF pl(2,1) t0]
  obtain z where z: "fval p = of_int z * 2 powi (- 149)" using p by (auto simp: coord_ok_def on_unit_def)
  have hi: "43200 - fval p = of_int (43200 * 2 ^ 149 - z) * 2 powi (- 149)"
      proof -
    have "43200 = 43200 * (2 ^ 149 * (2::real) powi (- 149))" unfolding least_unit by simp
    then show ?thesis unfolding z of_int_diff of_int_mult of_int_power of_int_numeral left_diff_distrib
      by (simp only: mult.assoc)
  qed
  have big: "43200 \<le> (2::real) powi 100" by (simp add: power_int_def)
  have "fval t \<le> 43200 - fval p"
    by (rule half_step [OF d(2) t(2) k hi]) (use pl big in linarith)+
  moreover have "- fval t \<le> fval p"
  proof (rule half_step [OF rnd_of_uminus [OF d(2)] _ k z])
    show "rnd_of single (k * - fval (l - p)) (- fval t)"
      using rnd_of_uminus [OF t(2)] by simp
  qed (use pl big in linarith)+
  ultimately have s: "of_int 0 \<le> fval p + fval t" "fval p + fval t \<le> of_int 43200"
    by simp_all
  have t2: "\<bar>fval p + fval t\<bar> \<le> top_pow single" using small_le_top [OF s] by simp
  note r = add_value [OF pl(1) t(1) t2]
  show ?thesis using r(1) rnd_between [OF r(2) s] unit_add [OF r(1)]
    by (simp add: coord_ok_def between_def)
qed

lemma coord_diff: "coord_ok p \<Longrightarrow> coord_ok l \<Longrightarrow> between (- 43200) 43200 (l - p)"
  using between_diff [of 0 43200 l 0 43200 p] by (simp add: coord_ok_def)

lemma coord_pull:
  assumes p: "coord_ok p" and l: "coord_ok l" and k: "isfin k" "0 \<le> fval k" "fval k \<le> 1 / 2"
  shows "coord_ok (p + k * (l - p))"
proof -
  note d = coord_diff [OF p l]
  have "\<bar>fval k * fval (l - p)\<bar> \<le> 1 * 43200"
    unfolding abs_mult using k d by (intro mult_mono) (auto simp: between_def)
  then have "\<bar>fval k * fval (l - p)\<bar> \<le> top_pow single" using top_single by linarith
  note t = mult_value [OF k(1) _ this]
  show ?thesis by (rule coord_step [OF p l k(2,3) t]) (use d in \<open>simp_all add: between_def\<close>)
qed

text \<open>The middle of two coordinates.\<close>

lemma coord_middle:
  assumes p: "coord_ok p" and l: "coord_ok l"
  shows "coord_ok (p + (l - p) / fl 2)"
proof -
  note d = coord_diff [OF p l]
  have two: "isfin (fl 2)" "fval (fl 2) = 2" using fl_value [of 2] by simp_all
  have "\<bar>fval (l - p) / fval (fl 2)\<bar> \<le> 43200" using d unfolding two(2) between_def by (simp add: abs_le_iff)
  then have t: "\<bar>fval (l - p) / fval (fl 2)\<bar> \<le> top_pow single" using top_single by linarith
  have fin: "isfin (l - p)" using d by (simp add: between_def)
  have "fval (fl 2) \<noteq> 0" by (simp add: two(2))
  from divide_value [OF fin two(1) this t] have q: "isfin ((l - p) / fl 2)"
    "rnd_of single (1 / 2 * fval (l - p)) (fval ((l - p) / fl 2))" by (simp_all add: two(2))
  show ?thesis by (rule coord_step [OF p l _ _ q]) simp_all
qed

section \<open>Bodies on the map\<close>

definition body_ok :: "BodySeq \<Rightarrow> bool" where
  "body_ok ps \<longleftrightarrow> (\<forall>p \<in> set ps. coord_ok (body_x p) \<and> coord_ok (body_y p))"

lemma body_ok_nth: "body_ok ps \<Longrightarrow> i < length ps \<Longrightarrow> coord_ok (body_x (ps ! i)) \<and> coord_ok (body_y (ps ! i))"
  by (simp add: body_ok_def)

lemma body_ok_update:
  "body_ok ps \<Longrightarrow> coord_ok (body_x p) \<Longrightarrow> coord_ok (body_y p) \<Longrightarrow> body_ok (ps[i := p])"
  unfolding body_ok_def by (metis insertE set_update_subset_insert subsetD)

lemma body_ok_subset: "body_ok ps \<Longrightarrow> set qs \<subseteq> set ps \<Longrightarrow> body_ok qs"
  by (auto simp: body_ok_def)

lemma body_ok_in: "body_ok ps \<Longrightarrow> body_in 0 65535 ps"
  unfolding body_ok_def body_in_def coord_ok_def using between_weaken [of 0 43200 _ 0 65535] by simp

definition mover_ok :: "nat \<Rightarrow> Body \<Rightarrow> mover \<Rightarrow> bool" where
  "mover_ok n h v \<longleftrightarrow> length (mv_parts v) = n \<and> body_ok (mv_parts v) \<and> mv_parts v ! 0 = h \<and>
     coord_ok (body_x (mv_prev v)) \<and> coord_ok (body_y (mv_prev v))"

lemma shift_ok: "mover_ok n h v \<Longrightarrow> 1 \<le> i \<Longrightarrow> i < n \<Longrightarrow> mover_ok n h (shift_part i v)"
  using body_ok_nth [of "mv_parts v" i] by (simp add: mover_ok_def shift_part_def body_ok_update)

lemma pull_ok:
  assumes "mover_ok n h v" "1 \<le> i" "i < n" "isfin k" "0 \<le> fval k" "fval k \<le> 1 / 2"
  shows "mover_ok n h (pull_part k i v)"
  using assms body_ok_nth [of "mv_parts v" i] body_ok_nth [of "mv_parts v" "i - 1"]
  by (simp add: mover_ok_def pull_part_def Let_def Offset_def body_ok_update coord_pull)

lemma half_range: "k = Fin False m e \<Longrightarrow> 0 \<le> m \<Longrightarrow> e = - 26 \<Longrightarrow> m \<le> 33554432 \<Longrightarrow>
    isfin k \<and> 0 \<le> fval k \<and> fval k \<le> 1 / 2"
  by (simp add: power_int_def power_divide)

lemma tail_k_ok: "isfin snake_tail_k \<and> 0 \<le> fval snake_tail_k \<and> fval snake_tail_k \<le> 1 / 2"
proof -
  have e: "snake_tail_k = Fin False 14428406 (- 25)" by code_simp
  show ?thesis unfolding e by (simp add: power_int_def power_divide)
qed

lemma move_coeff_ok:
  assumes "3 \<le> i" "i < 7"
  shows "isfin (move_coeff i) \<and> 0 \<le> fval (move_coeff i) \<and> fval (move_coeff i) \<le> 1 / 2"
proof -
  have e: "move_coeff 3 = Fin False 14428406 (- 27)" "move_coeff 4 = Fin False 14428406 (- 26)"
    "move_coeff 5 = Fin False 10821304 (- 25)" "move_coeff 6 = Fin False 14428406 (- 25)"
    by code_simp+
  have "i = 3 \<or> i = 4 \<or> i = 5 \<or> i = 6" using assms by auto
  then show ?thesis by (elim disjE) (simp_all add: e power_int_def power_divide)
qed

lemma fold_inv:
  assumes "\<And>i v. i \<in> set is \<Longrightarrow> P v \<Longrightarrow> P (f i v)" "P v"
  shows "P (fold f is v)"
  using assms by (induction "is" arbitrary: v) auto

section \<open>Moving is defined\<close>

lemma coord_sector:
  assumes "coord_ok c"
  shows "\<exists>i. sector_coord c = Some i"
proof -
  have b: "between 0 43200 c" using assms by (simp add: coord_ok_def)
  have "exact 300 (fl 300)" by (rule exact_fl) simp
  from between_div [OF b this, of 0 144] have "between 0 144 (c / fl 300)" by simp
  from cast_range_between [OF this, of "- 32768" 32767] show ?thesis
    by (auto simp: sector_coord_def to_i16_def sector_size_def)
qed

lemma sbb_new_sectors_total:
  assumes "grid_ok (snd st)" "\<forall>c \<in> {nx, ny, ox, oy}. coord_ok c"
  shows "\<exists>st'. sbb_new_sectors nx ny ox oy st = Some st'"
proof -
  have "\<forall>c \<in> {nx, ny, ox, oy}. sector_coord c \<noteq> None" using assms(2) coord_sector by fastforce
  from UpdateBoxNewSectors_total [of "(sbb (fst st), snd st)", OF _ this] assms(1) obtain b ss' where
    "SnakeBoundBox_UpdateBoxNewSectors (fl (sector_size div 2)) nx ny ox oy (sbb (fst st), snd st) = Some (b, ss')"
    by fastforce
  then show ?thesis by (simp add: sbb_new_sectors_def)
qed

lemma vp_new_sectors_total:
  assumes "grid_ok (snd st)" "\<forall>c \<in> {nx, ny, ox, oy}. coord_ok c"
  shows "\<exists>st'. vp_new_sectors nx ny ox oy st = Some st'"
proof -
  have "\<forall>c \<in> {nx, ny, ox, oy}. sector_coord c \<noteq> None" using assms(2) coord_sector by fastforce
  from vp_new_total [OF _ this, of "snd st" "vp (fst st)"] assms(1)
  show ?thesis by (auto simp: vp_new_sectors_def)
qed

lemma tail_part_total:
  assumes "mover_ok n h v" "1 \<le> i" "i < n" "boxes_ok (s, ss)" "grid_ok ss"
  shows "\<exists>v' j' s' ss'. tail_part i (v, j, s, ss) = Some (v', j', s', ss') \<and> mover_ok n h v' \<and>
    boxes_ok (s', ss') \<and> grid_ok ss'"
proof -
  let ?v = "pull_part snake_tail_k i v"
  have v: "mover_ok n h ?v" using pull_ok [OF assms(1-3)] tail_k_ok by blast
  show ?thesis
  proof (cases "j + tail_step \<ge> i")
    case False
    with v assms show ?thesis by (simp add: tail_part_def Let_def)
  next
    case True
    have "\<forall>c \<in> {body_x (mv_parts ?v ! i), body_y (mv_parts ?v ! i), body_x (mv_parts v ! i), body_y (mv_parts v ! i)}. coord_ok c"
      using v assms(1,3) body_ok_nth by (auto simp: mover_ok_def)
    from sbb_new_sectors_total [of "(s, ss)", OF _ this] assms(5) obtain s' ss' where
      r: "sbb_new_sectors (body_x (mv_parts ?v ! i)) (body_y (mv_parts ?v ! i)) (body_x (mv_parts v ! i))
        (body_y (mv_parts v ! i)) (s, ss) = Some (s', ss')" by auto
    from sbb_new_sectors_move [OF assms(4) r] have m: "box_move (s, ss) (s', ss')" by simp
    then have "boxes_ok (s', ss')" "grid_ok ss'" using assms(5) grid_step_ok by (auto simp: box_move_def)
    with True v r show ?thesis by (simp add: tail_part_def Let_def)
  qed
qed

lemma tail_parts_total:
  assumes "\<forall>i \<in> set is. 1 \<le> i \<and> i < n" "mover_ok n h v" "boxes_ok (s, ss)" "grid_ok ss"
  shows "\<exists>v' j' s' ss'. fold_opt tail_part is (v, j, s, ss) = Some (v', j', s', ss') \<and> mover_ok n h v'"
  using assms
proof (induction "is" arbitrary: v j s ss)
  case Nil
  then show ?case by simp
next
  case (Cons i "is")
  from tail_part_total [of n h v i s ss j] Cons.prems obtain w k t ts where
    "tail_part i (v, j, s, ss) = Some (w, k, t, ts)" "mover_ok n h w" "boxes_ok (t, ts)" "grid_ok ts" by auto
  with Cons.IH [of w t ts k] Cons.prems(1) show ?case by simp
qed

lemma coord_between: "coord_ok c \<Longrightarrow> between 0 43200 c"
  by (simp add: coord_ok_def)

lemma head_step:
  assumes "between 300 42900 x" "between (- 1) 1 u" "between 0 224 d"
  shows "coord_ok (x + u * d) \<and> between 76 43124 (x + u * d)"
proof -
  have "between (- 224) 224 d" by (rule between_weaken [OF assms(3)]) simp_all
  from between_mult_sym [OF assms(2) this] have "between (- 224) 224 (u * d)" by simp
  from between_add [OF assms(1) this] have b: "between 76 43124 (x + u * d)" by simp
  then have "isfin (x + u * d)" by (simp add: between_def)
  from unit_add [OF this] b between_weaken [OF b, of 0 43200] show ?thesis by (simp add: coord_ok_def)
qed

lemma move_parts_total:
  assumes ok: "boxes_ok (s, ss)" "grid_ok ss" "3 \<le> length (parts s)" "body_ok (parts s)"
    and head: "between 300 42900 (get_head_x s)" "between 300 42900 (get_head_y s)"
    and c: "between (- 1) 1 (m_cosf m (angle s))" "between (- 1) 1 (m_sinf m (angle s))" and d: "between 0 224 d"
  shows "\<exists>s' ss'. move_parts m d (s, ss) = Some (s', ss') \<and> body_ok (parts s') \<and>
    between 76 43124 (get_head_x s') \<and> between 76 43124 (get_head_y s')"
proof -
  let ?p = "parts s ! 0" and ?n = "length (parts s)"
  define hx where "hx = body_x ?p + m_cosf m (angle s) * d"
  define hy where "hy = body_y ?p + m_sinf m (angle s) * d"
  define h where "h = \<lparr>body_x = hx, body_y = hy\<rparr>"
  define s0 where "s0 = s\<lparr>parts := (parts s)[0 := h]\<rparr>"
  have ne: "parts s \<noteq> []" using ok(3) by auto
  have hx: "coord_ok hx" "between 76 43124 hx" and hy: "coord_ok hy" "between 76 43124 hy"
    using head_step [OF _ c(1) d] head_step [OF _ c(2) d] head
    by (simp_all add: get_head_x_def get_head_y_def hx_def hy_def)
  have p: "coord_ok (body_x ?p)" "coord_ok (body_y ?p)"
    using body_ok_nth [OF ok(4), of 0] ok(3) ne by (simp_all add: Suc_le_eq)
  have cs: "\<forall>c \<in> {hx, hy, body_x ?p, body_y ?p}. coord_ok c" using hx hy p by simp
  have b0: "boxes_ok (s0, ss)" using ok(1) by (simp add: s0_def boxes_ok_def)
  obtain st1 where r1: "sbb_new_sectors hx hy (body_x ?p) (body_y ?p) (s0, ss) = Some st1"
    using sbb_new_sectors_total [of "(s0, ss)", OF _ cs] ok(2) by auto
  note m1 = sbb_new_sectors_move [OF b0 r1]
  then have b1: "boxes_ok st1" "grid_ok (snd st1)" using ok(2) grid_step_ok by (auto simp: box_move_def)
  obtain s2 ss2 where r2: "vp_new_sectors hx hy (body_x ?p) (body_y ?p) st1 = Some (s2, ss2)"
    using vp_new_sectors_total [OF b1(2) cs] by auto
  note m2 = vp_new_sectors_move [OF b1(1) r2]
  then have b2: "boxes_ok (s2, ss2)" "grid_ok ss2" using b1(2) by (simp only: box_move_def, simp)
  have ps: "parts s2 = (parts s)[0 := h]" using m1 m2 by (simp add: s0_def)
  define v0 where "v0 = \<lparr>mv_parts = parts s2, mv_prev = ?p, mv_bbx = hx, mv_bby = hy\<rparr>"
  have v0: "mover_ok ?n h v0"
    using body_ok_update [OF ok(4), of h 0] hx hy p ne by (simp add: mover_ok_def v0_def ps h_def)
  define v1 where "v1 = fold shift_part [Suc 0..<min ?n parts_skip_count] v0"
  have v1: "mover_ok ?n h v1" unfolding v1_def
    by (rule fold_inv [where P = "mover_ok ?n h"]) (use v0 shift_ok in auto)
  define v2 where "v2 = fold (\<lambda>i. pull_part (move_coeff i) i)
       [parts_skip_count..<min ?n (parts_skip_count + parts_start_move_count)] v1"
  have v2: "mover_ok ?n h v2" unfolding v2_def
  proof (rule fold_inv [where P = "mover_ok ?n h", OF _ v1])
    fix i v assume "i \<in> set [parts_skip_count..<min ?n (parts_skip_count + parts_start_move_count)]" "mover_ok ?n h v"
    then show "mover_ok ?n h (pull_part (move_coeff i) i v)"
      using move_coeff_ok [of i] by (intro pull_ok) (auto simp: parts_skip_count_def parts_start_move_count_def)
  qed
  obtain v3 j s3 ss3 where
    r3: "fold_opt tail_part [parts_skip_count + parts_start_move_count..<?n] (v2, 0, s2, ss2) = Some (v3, j, s3, ss3)"
    and v3: "mover_ok ?n h v3"
    using tail_parts_total [OF _ v2 b2, of "[parts_skip_count + parts_start_move_count..<?n]" 0]
    by (auto simp: parts_skip_count_def)
  have "move_parts m d (s, ss) = Some (s3\<lparr>parts := mv_parts v3,
      sbb := (sbb s3)\<lparr>pos_x := mv_bbx v3 / fl (int ?n), pos_y := mv_bby v3 / fl (int ?n)\<rparr>,
      vp := (vp s3)\<lparr>pos_x := hx, pos_y := hy\<rparr>\<rparr>, ss3)"
    using ne r1 r2 r3
    by (simp add: move_parts_def Let_def hx_def [symmetric] hy_def [symmetric] h_def [symmetric]
        s0_def [symmetric] v0_def [symmetric] v1_def [symmetric] v2_def [symmetric])
  then show ?thesis using v3 hx hy by (auto simp: mover_ok_def get_head_x_def get_head_y_def h_def)
qed

section \<open>Eating is defined\<close>

text \<open>Food near a sector is within reach of the integer distance from a head inside it.\<close>

lemma near_distance:
  assumes "near_sector sec f" "uint (sec_x sec) = uint hx div 300" "uint (sec_y sec) = uint hy div 300"
  shows "\<exists>d. distance_squared_u16 (food_x f) (food_y f) hx hy = Some d"
proof -
  have in_cell: "\<bar>n - (300 * (n div 300) + 150)\<bar> \<le> 150" for n :: int
    using pos_mod_sign [of 300 n] pos_mod_bound [of 300 n] mult_div_mod_eq [of 300 n] by linarith
  have c: "\<bar>uint hx - (300 * uint (sec_x sec) + 150)\<bar> \<le> 150" "\<bar>uint hy - (300 * uint (sec_y sec) + 150)\<bar> \<le> 150"
    using in_cell assms(2,3) by simp_all
  have d: "\<bar>uint (food_x f) - uint hx\<bar> \<le> 1150" "\<bar>uint (food_y f) - uint hy\<bar> \<le> 1150"
    using c assms(1) unfolding near_sector_def by linarith+
  have "(uint (food_x f) - uint hx)\<^sup>2 \<le> 1150\<^sup>2" "(uint (food_y f) - uint hy)\<^sup>2 \<le> 1150\<^sup>2"
    using power_mono [OF d(1), of 2] power_mono [OF d(2), of 2] by simp_all
  then have "(uint (food_x f) - uint hx)\<^sup>2 + (uint (food_y f) - uint hy)\<^sup>2 \<le> 2147483647" by simp
  moreover have "0 \<le> (uint (food_x f) - uint hx)\<^sup>2" "0 \<le> (uint (food_y f) - uint hy)\<^sup>2" by simp_all
  moreover have "(uint (food_x f) - uint hx)\<^sup>2 \<le> 2147483647" "(uint (food_y f) - uint hy)\<^sup>2 \<le> 2147483647"
    using calculation by linarith+
  ultimately show ?thesis
    by (simp add: distance_squared_u16_def Let_def i32_nonneg power2_eq_square [symmetric])
qed

definition at_cell :: "u16 \<Rightarrow> u16 \<Rightarrow> Sector \<Rightarrow> bool" where
  "at_cell hx hy sec \<longleftrightarrow> uint (sec_x sec) = uint hx div 300 \<and> uint (sec_y sec) = uint hy div 300"

lemma ate_cell: "ate fs (s, sec) (t, sec') \<Longrightarrow> at_cell hx hy sec \<Longrightarrow> at_cell hx hy sec'"
  by (simp add: ate_def at_cell_def)

lemma food_distance:
  "foods_ok sec \<Longrightarrow> at_cell hx hy sec \<Longrightarrow> i < length (sec_food sec) \<Longrightarrow>
    \<exists>d. distance_squared_u16 (food_x (sec_food sec ! i)) (food_y (sec_food sec ! i)) hx hy = Some d"
  using near_distance [of sec "sec_food sec ! i" hx hy] by (simp add: foods_ok_def at_cell_def)

lemma eat_left_total:
  assumes "i \<le> length (sec_food sec)" "fullness s < 100" "parts s \<noteq> []" "foods_ok sec" "at_cell hx hy sec"
  shows "\<exists>r. eat_left hx hy r2 i s sec = Some r"
  using assms
proof (induction i arbitrary: s sec)
  case (Suc i)
  have i: "i < length (sec_food sec)" using Suc.prems by simp
  obtain d where d: "distance_squared_u16 (food_x (sec_food sec ! i)) (food_y (sec_food sec ! i)) hx hy = Some d"
    using food_distance [OF Suc.prems(4,5) i] by blast
  from eat_one [OF Suc.prems(2-4) i] obtain t where
    t: "on_food_eaten (sec_food sec ! i) s = Some t" "ate [sec_food sec ! i] (s, sec) (t, Sector_Remove i sec)" by blast
  have "i \<le> length (sec_food (Sector_Remove i sec))" using i by (simp add: Sector_Remove_def erase_at_def)
  with Suc.IH [of "Sector_Remove i sec" t] ate_ok [OF t(2)] ate_cell [OF t(2) Suc.prems(5)] d t(1)
  show ?case by simp
qed simp

lemma eat_right_total:
  assumes "fullness s < 100" "parts s \<noteq> []" "foods_ok sec" "at_cell hx hy sec"
  shows "\<exists>r. eat_right hx hy r2 i s sec = Some r"
  using assms
proof (induction hx hy r2 i s sec rule: eat_right.induct)
  case (1 hx hy r2 i s sec)
  show ?case
  proof (cases "i < length (sec_food sec)")
    case False
    then show ?thesis by (simp add: eat_right.simps)
  next
    case i: True
    obtain d where d: "distance_squared_u16 (food_x (sec_food sec ! i)) (food_y (sec_food sec ! i)) hx hy = Some d"
      using food_distance [OF "1.prems"(3,4) i] by blast
    from eat_one [OF "1.prems"(1-3) i] obtain t where
      t: "on_food_eaten (sec_food sec ! i) s = Some t" "ate [sec_food sec ! i] (s, sec) (t, Sector_Remove i sec)" by blast
    show ?thesis
    proof (cases "d \<le> r2")
      case False
      with i d show ?thesis by (simp add: eat_right.simps)
    next
      case True
      with "1.IH" [OF i refl d True t(1)] ate_ok [OF t(2)] ate_cell [OF t(2) "1.prems"(4)] i d t(1)
      show ?thesis by (subst eat_right.simps) simp
    qed
  qed
qed

lemma grid_ok_xy:
  assumes "grid_ok ss" "on_map i j"
  shows "uint (sec_x (ss ! nat (j * 144 + i))) = i" "uint (sec_y (ss ! nat (j * 144 + i))) = j"
proof -
  from assms(2) have ij: "0 \<le> i" "i < 144" "0 \<le> j" "j < 144"
    by (simp_all add: on_map_def count_along_edge)
  then have "nat (j * 144 + i) < 20736" by linarith
  with assms ij show "uint (sec_x (ss ! nat (j * 144 + i))) = i" "uint (sec_y (ss ! nat (j * 144 + i))) = j"
    by (simp_all add: grid_ok_def InitSectors_nth mk_Sector_def Let_def uint_word_of_int_eq take_bit_int_eq_self)
qed

lemma UpdateEatenFood_total:
  assumes ok: "grid_ok ss" "\<forall>k < length ss. foods_ok (ss ! k)" "fullness s < 100" "parts s \<noteq> []" "consts_ok s"
    and head: "between 76 43124 (get_head_x s)" "between 76 43124 (get_head_y s)"
  shows "\<exists>s' ss'. UpdateEatenFood (s, ss) = Some (s', ss')"
proof -
  obtain hx where hx: "to_u16 (get_head_x s) = Some hx" "76 \<le> uint hx" "uint hx \<le> 43124"
    using to_u16_between [OF head(1)] by auto
  obtain hy where hy: "to_u16 (get_head_y s) = Some hy" "76 \<le> uint hy" "uint hy \<le> 43124"
    using to_u16_between [OF head(2)] by auto
  have "between 14 87 (get_snake_body_part_radius s)"
    using ok(5) by (simp add: consts_ok_def get_snake_body_part_radius_def)
  from between_add [OF between_fl [of 14] this] have
    "between 28 101 (fl 14 + get_snake_body_part_radius s)" by simp
  from between_add [OF this between_fl [of 42]] have
    "between 70 143 (fl 14 + get_snake_body_part_radius s + fl move_step_distance)"
    by (simp add: move_step_distance_def)
  then obtain r where r: "to_u16 (fl 14 + get_snake_body_part_radius s + fl move_step_distance) = Some r"
    "uint r \<le> 143" using to_u16_between by fastforce
  have "uint r * uint r \<le> 143 * 143" using r(2) by (intro mult_mono) simp_all
  then have r2: "i32 (uint r * uint r) = Some (uint r * uint r)" by (simp add: i32_nonneg)
  let ?i = "uint hx div 300" and ?j = "uint hy div 300"
  have "0 \<le> ?i" "?i \<le> 43124 div 300" "0 \<le> ?j" "?j \<le> 43124 div 300"
    using hx(2,3) hy(2,3) by (auto intro: zdiv_mono1)
  then have om: "on_map ?i ?j" by (simp add: on_map_def count_along_edge)
  let ?k = "nat (?j * 144 + ?i)"
  have k: "get_sector ss (of_int ?i) (of_int ?j) = Some ?k"
    using get_sector_on_map [OF om] ok(1) by simp
  have kl: "?k < length ss" using get_sector_lt [OF k] .
  have cell: "at_cell hx hy (ss ! ?k)" using grid_ok_xy [OF ok(1) om] by (simp add: at_cell_def)
  have f: "foods_ok (ss ! ?k)" using ok(2) kl by simp
  have le: "FindClosestFood hx (ss ! ?k) \<le> length (sec_food (ss ! ?k))" by (simp add: FindClosestFood_def)
  obtain i t sec where l: "eat_left hx hy (uint r * uint r) (FindClosestFood hx (ss ! ?k)) s (ss ! ?k) = Some (i, t, sec)"
    using eat_left_total [OF le ok(3,4) f cell] by (metis prod_cases3)
  from eat_left_spec [OF l le ok(3,4) f] obtain fs where fs: "ate fs (s, ss ! ?k) (t, sec)" by blast
  obtain s' sec' where "eat_right hx hy (uint r * uint r) i t sec = Some (s', sec')"
    using eat_right_total [of t sec hx hy] ate_ok [OF fs] ate_cell [OF fs cell] by (metis surj_pair)
  with hx(1) hy(1) r(1) r2 k l show ?thesis
    by (simp add: UpdateEatenFood_def Let_def sector_size_def)
qed

section \<open>Speed, boost and the clock\<close>

lemma tick_boost_total:
  assumes "snake_ok (s, ss)" "body_ok (parts s)" "consts_ok s"
  shows "\<exists>s' ss'. tick_boost (s, ss) = Some (s', ss') \<and> body_ok (parts s') \<and> consts_ok s' \<and> snake_core s' = snake_core s"
proof (cases "acceleration s \<and> 3 < length (parts s)")
  case False
  with assms(2,3) show ?thesis by (auto simp: tick_boost_def)
next
  case True
  have "(33 - uint (fullness s)) div 100 \<le> 0"
    using zdiv_mono1 [of "33 - uint (fullness s)" 33 100] by simp
  then have "nat (1 + (33 - uint (fullness s)) div 100) \<le> 1" by simp
  then have l: "lost_parts 33 s + 3 \<le> length (parts s)" using True by (simp add: lost_parts_def)
  obtain s' ss' where D: "DecreaseSnake 33 (s, ss) = Some (s', ss')"
    using DecreaseSnake_total [OF body_ok_in [OF assms(2)] l] by blast
  from DecreaseSnake_partial [OF D l] obtain t where
    d: "dropped (lost_parts 33 s) (s, ss) (t, ss')" and c: "snake_core s' = snake_core t" "parts s' = parts t"
    "consts_ok s'" by blast
  have "set (parts s') \<subseteq> set (parts s)" using d c(2) by (auto simp: dropped_def dest: in_set_takeD)
  with True D d c assms(2) body_ok_subset show ?thesis
    by (intro exI [of _ s'] exI [of _ ss']) (auto simp: tick_boost_def dropped_def)
qed

lemma tick_speed_total:
  assumes "0 \<le> ft" "ft \<le> 500" "base_move_speed \<le> speed s" "speed s \<le> boost_speed"
  shows "\<exists>b v. tick_speed ft s = Some (b, s\<lparr>speed := v\<rparr>)"
proof -
  define w where "w = (if acceleration s then boost_speed else base_move_speed)"
  have w: "base_move_speed \<le> w" "w \<le> boost_speed"
    by (simp_all add: w_def base_move_speed_def boost_speed_def)
  show ?thesis
  proof (cases "speed s = w")
    case True
    then have "tick_speed ft s = Some (False, s\<lparr>speed := speed s\<rparr>)"
      by (simp add: tick_speed_def w_def)
    then show ?thesis by blast
  next
    case False
    have "exact (1000 * ft) (fl (1000 * ft))" using assms(1,2) by (intro exact_fl) simp
    then have b: "between (1000 * ft) (1000 * ft) (fl (1000 * ft))" by (simp add: between_def exact_def)
    have "exact 1000 (fl 1000)" by (rule exact_fl) simp
    from between_div [OF b this, of 0 500] assms(1,2) have "between 0 500 (fl (1000 * ft) / fl 1000)" by simp
    then obtain acc where acc: "to_u16 (fl (speed_acceleration * ft) / fl 1000) = Some acc"
      using to_u16_between [of 0 500] by (auto simp: speed_acceleration_def)
    have u: "185 \<le> uint (speed s)" "uint (speed s) \<le> 448" "185 \<le> uint w" "uint w \<le> 448"
      using assms(3,4) w speed_bounds by (simp_all add: word_le_def)
    have "\<exists>sp. (if \<bar>uint w - uint (speed s)\<bar> \<le> uint acc then Some w
      else to_u16 (fl (uint (speed s)) + (if w > speed s then fl 1 else fl (- 1)) * fl (uint acc))) = Some sp"
    proof (cases "\<bar>uint w - uint (speed s)\<bar> \<le> uint acc")
      case big: False
      define A where "A = uint acc"
      define sgn where "sgn = (if w > speed s then 1 else - 1 :: int)"
      have A: "0 \<le> A" "A \<le> 448" using big u by (simp_all add: A_def)
      have fs: "(if w > speed s then fl 1 else fl (- 1)) = fl sgn" by (simp add: sgn_def)
      have "exact (sgn * A) (fl sgn * fl A)"
        using A by (intro exact_mult exact_fl) (auto simp: sgn_def)
      then have "exact (uint (speed s) + sgn * A) (fl (uint (speed s)) + fl sgn * fl A)"
        using A u by (intro exact_add exact_fl) (auto simp: sgn_def)
      moreover have "0 \<le> uint (speed s) + sgn * A" "uint (speed s) + sgn * A \<le> 65535"
        using big [folded A_def] u A by (auto simp: sgn_def word_less_def)
      ultimately have "\<exists>x. to_u16 (fl (uint (speed s)) + fl sgn * fl A) = Some x" using to_u16_exact by blast
      with big show ?thesis by (simp add: fs A_def)
    qed simp
    then obtain sp where "(if \<bar>uint w - uint (speed s)\<bar> \<le> uint acc then Some w
      else to_u16 (fl (uint (speed s)) + (if w > speed s then fl 1 else fl (- 1)) * fl (uint acc))) = Some sp" ..
    then have "tick_speed ft s = Some (True, s\<lparr>speed := sp\<rparr>)"
      using False acc by (simp add: tick_speed_def w_def [symmetric] Let_def)
    then show ?thesis by blast
  qed
qed

text \<open>The C library's trigonometry stays in its documented ranges.\<close>

definition libm_ok :: "libc \<Rightarrow> bool" where
  "libm_ok m \<longleftrightarrow> (\<forall>x. isfin x \<longrightarrow> between (- 1) 1 (m_cosf m x) \<and> between (- 1) 1 (m_sinf m x)) \<and>
     (\<forall>y x. isfin y \<longrightarrow> isfin x \<longrightarrow> between (- 4) 4 (m_atan2f m y x))"

lemma move_once_total:
  assumes ok: "snake_ok (t, ss)" "body_ok (parts t)" "consts_ok t" "isfin (angle t)" and m: "libm_ok m"
    and head: "between 300 42900 (get_head_x t)" "between 300 42900 (get_head_y t)"
    and ft: "0 \<le> ft" "ft \<le> 500" "ft \<le> mov_ticks t"
  shows "\<exists>c s' ss'. move_once m ft (t, ss) = Some (c, s', ss') \<and> body_ok (parts s') \<and> consts_ok s' \<and>
    angle s' = angle t \<and> wangle s' = wangle t \<and> rot_ticks s' = rot_ticks t"
proof -
  have u: "0 \<le> uint (speed t)" "uint (speed t) \<le> 448" using ok(1) speed_bounds by (simp_all add: snake_ok_def word_le_def)
  then have "0 \<le> uint (speed t) * ft" "uint (speed t) * ft \<le> 448 * 500"
    using ft mult_mono [of "uint (speed t)" 448 ft 500] by simp_all
  then have "between 0 224000 (fl (uint (speed t) * ft))"
    using between_weaken [OF between_fl [of "uint (speed t) * ft"], of 0 224000] by simp
  moreover have "exact 1000 (fl 1000)" by (rule exact_fl) simp
  ultimately have d: "between 0 224 (fl (uint (speed t) * ft) / fl 1000)"
    using between_div [of 0 224000 _ 1000 _ 0 224] by simp
  have bt: "boxes_ok (t, ss)" "grid_ok ss" "3 \<le> length (parts t)" using ok(1) by (simp_all add: snake_ok_def)
  have cs: "between (- 1) 1 (m_cosf m (angle t))" "between (- 1) 1 (m_sinf m (angle t))"
    using m ok(4) by (simp_all add: libm_ok_def)
  obtain s1 ss1 where r1: "move_parts m (fl (uint (speed t) * ft) / fl 1000) (t, ss) = Some (s1, ss1)"
    and s1: "body_ok (parts s1)" "between 76 43124 (get_head_x s1)" "between 76 43124 (get_head_y s1)"
    using move_parts_total [OF bt ok(2) head cs d] by blast
  note m1 = move_parts_move [OF r1 bt(1)]
  have m2: "box_move (t, ss) (UpdateBoxRadius s1, ss1)" using m1 by (simp add: box_move_def)
  then have "boxes_ok (UpdateBoxRadius s1, ss1)" by (simp only: box_move_def)
  note m3 = leave_sectors_move [OF this]
  obtain sl ssl where sl: "leave_sectors (UpdateBoxRadius s1, ss1) = (sl, ssl)" by (metis surj_pair)
  have m4: "box_move (t, ss) (sl, ssl)" using box_move_trans [OF m2] m3 by (simp add: sl)
  have pl: "parts sl = parts s1" using m3 by (simp add: sl)
  then have "length (parts sl) = length (parts t)" using m1 by simp
  then have "snake_step (t, ss) (sl, ssl)" using box_move_snake_step [OF ok(1) m4] by simp
  then have okl: "snake_ok (sl, ssl)" by (simp add: snake_step_def)
  have lr: "rest sl = rest t" using m4 by (simp add: box_move_def)
  have hl: "between 76 43124 (get_head_x sl)" "between 76 43124 (get_head_y sl)"
    using s1 by (simp_all add: get_head_x_def get_head_y_def pl)
  have cl: "consts_ok sl" using ok(3) rest_eqD(15,16) [OF lr] by (simp add: consts_ok_def)
  have pre: "grid_ok ssl" "\<forall>k < length ssl. foods_ok (ssl ! k)" "fullness sl < 100" "parts sl \<noteq> []"
    using okl by (auto simp: snake_ok_def)
  obtain s2 ss2 where r2: "UpdateEatenFood (sl, ssl) = Some (s2, ss2)"
    using UpdateEatenFood_total [OF pre cl hl] by blast
  from UpdateEatenFood_spec [OF r2 pre(3,4,2)] obtain k fs where a: "ate fs (sl, ssl ! k) (s2, ss2 ! k)" by blast
  have b2: "body_ok (parts s2)" "consts_ok s2" "snake_core s2 = snake_core sl"
    using a cl body_ok_subset [of "parts sl" "parts s2"] s1(1) by (simp_all add: ate_def pl)
  have "snake_ok (s2, ss2)" using UpdateEatenFood_step [OF r2 okl] by (simp add: snake_step_def)
  from tick_boost_total [OF this b2(1,2)] obtain s3 ss3 where r3: "tick_boost (s2, ss2) = Some (s3, ss3)"
    and s3: "body_ok (parts s3)" "consts_ok s3" "snake_core s3 = snake_core s2" by blast
  have "snake_ok (s3, ss3)" using tick_boost_step [OF r3 \<open>snake_ok (s2, ss2)\<close>] by (simp add: snake_step_def)
  then have "base_move_speed \<le> speed s3" "speed s3 \<le> boost_speed" by (simp_all add: snake_ok_def)
  from tick_speed_total [OF ft(1,2) this] obtain b v where r4: "tick_speed ft s3 = Some (b, s3\<lparr>speed := v\<rparr>)" by blast
  have "angle s3 = angle t" "wangle s3 = wangle t" "rot_ticks s3 = rot_ticks t"
    using s3(3) b2(3) rest_eqD(7,8,13) [OF lr] by (simp_all add: snake_core_def)
  with r1 r2 r3 r4 s3 show ?thesis
    by (simp add: move_once_def Let_def sl consts_ok_def)
qed

definition tick_ready :: "Snake \<Rightarrow> bool" where
  "tick_ready s \<longleftrightarrow> body_ok (parts s) \<and> consts_ok s \<and> angle_ok (angle s) \<and> angle_ok (wangle s) \<and>
     mov_ticks s < 227 \<and> rot_ticks s < 93"

section \<open>Angles\<close>

lemma ai_step_angle:
  assumes "libm_ok m" "between 0 43200 (get_head_x s)" "between 0 43200 (get_head_y s)" "angle_ok (wangle s)"
  shows "angle_ok (wangle (ai_step m s)) \<and> parts (ai_step m s) = parts s"
proof -
  have f: "between 21600 21600 (fl game_radius)" using between_fl [of 21600] by (simp add: game_radius_def)
  have "isfin (get_head_y s - fl game_radius)" "isfin (get_head_x s - fl game_radius)"
    using between_diff [OF assms(2) f] between_diff [OF assms(3) f] by (simp_all add: between_def)
  then have a: "between (- 4) 4 (m_atan2f m (get_head_y s - fl game_radius) (get_head_x s - fl game_radius))"
    using assms(1) by (simp add: libm_ok_def)
  have e: "f_pi / fl 2 = Fin False 13176795 (- 23)" by code_simp
  have "between 1 2 (f_pi / fl 2)" unfolding e by (simp add: between_def power_int_def power_divide)
  from between_add [OF a this] have
    "between (- 3) 6 (m_atan2f m (get_head_y s - fl game_radius) (get_head_x s - fl game_radius) + f_pi / fl 2)" by simp
  from between_weaken [OF this, of "- 32" 32] normalize_range assms(4) show ?thesis
    by (simp add: ai_step_def Let_def)
qed

lemma tick_bot_angle:
  assumes "libm_ok m" "between 0 43200 (get_head_x s)" "between 0 43200 (get_head_y s)" "angle_ok (wangle s)"
  shows "angle_ok (wangle (tick_bot m dt s))"
proof -
  let ?P = "\<lambda>t. angle_ok (wangle t) \<and> parts t = parts s"
  have "?P (fold (\<lambda>_. ai_step m) is t)" if "?P t" for "is" :: "nat list" and t
    using that
  proof (induction "is" arbitrary: t)
    case (Cons i "is")
    then have "?P (ai_step m t)"
      using ai_step_angle [OF assms(1), of t] assms(2,3) by (simp add: get_head_x_def get_head_y_def)
    with Cons.IH show ?case by simp
  qed simp
  then show ?thesis using assms(4) by (simp add: tick_bot_def Let_def TickAI_def)
qed

lemma rotated_range:
  assumes "angle_ok (angle s)" "angle_ok (wangle s)" "0 \<le> ft" "ft \<le> 343"
  shows "angle_ok (rotated_angle ft s)"
proof -
  let ?rot = "snake_angular_speed * fl ft / fl 1000"
  have e: "snake_angular_speed = Fin False 8650752 (- 21)" by code_simp
  have k: "between (- 5) 5 snake_angular_speed" unfolding e by (simp add: between_def power_int_def power_divide)
  have "between (- 343) 343 (fl ft)" using between_weaken [OF between_fl [of ft]] assms by simp
  from between_mult_sym [OF k this] have p: "between (- 1715) 1715 (snake_angular_speed * fl ft)" by simp
  have "exact 1000 (fl 1000)" by (rule exact_fl) simp
  from between_div [OF p this, of "- 2" 2] have r: "between (- 2) 2 ?rot" by simp
  have one: "between (- 1) 1 (if b then fl 1 else fl (- 1))" for b
    using fl_value [of 1] fl_value [of "- 1"] by (simp add: between_def)
  have step: "between (- 3) 9 (angle s + ?rot * (if b then fl 1 else fl (- 1)))" for b
    using between_add [OF angle_ok_between [OF assms(1)] between_mult_sym [OF r one]] by simp
  have "angle_ok (normalize_angle (if c then wangle s else angle s + ?rot * (if b then fl 1 else fl (- 1))))" for b c
    using normalize_range [OF between_weaken [OF angle_ok_between [OF assms(2)]]] normalize_range [OF between_weaken [OF step]] by simp
  then show ?thesis unfolding rotated_angle_def Let_def by blast
qed

lemma tick_rotate_angle:
  assumes "angle_ok (angle s)" "angle_ok (wangle s)" "0 \<le> rot_ticks s" "rot_ticks s < 93"
    and "0 \<le> dt" "dt \<le> 250"
  shows "angle_ok (angle (snd (tick_rotate dt s))) \<and> rot_ticks (snd (tick_rotate dt s)) < 93"
proof (rule tick_rotate_cases [OF assms(3,5)])
  assume "snd (tick_rotate dt s) = s"
  with assms show ?thesis by simp
next
  assume "snd (tick_rotate dt s) = s\<lparr>rot_ticks := rot_ticks s + dt\<rparr>" "rot_ticks s + dt < 93"
  with assms show ?thesis by simp
next
  fix ft
  assume e: "snd (tick_rotate dt s) = s\<lparr>angle := rotated_angle ft s, rot_ticks := rot_ticks s + dt - ft\<rparr>"
    and ft: "0 \<le> ft" "ft \<le> rot_ticks s + dt" "rot_ticks s + dt - ft < 93"
  have "angle_ok (rotated_angle ft s)"
    using rotated_range [OF assms(1,2) ft(1)] ft assms by simp
  with ft show ?thesis unfolding e by simp
qed


lemma tick_move_total:
  assumes ok: "snake_ok (s, ss)" "body_ok (parts s)" "consts_ok s" "isfin (angle s)" and m: "libm_ok m"
    and head: "between 300 42900 (get_head_x s)" "between 300 42900 (get_head_y s)"
    and dt: "0 \<le> dt" "dt \<le> 250" and mv: "mov_ticks s < 227"
  shows "\<exists>c s' ss'. tick_move m dt (s, ss) = Some (c, s', ss') \<and> body_ok (parts s') \<and> consts_ok s' \<and>
    angle s' = angle s \<and> wangle s' = wangle s \<and> rot_ticks s' = rot_ticks s \<and> mov_ticks s' < 227"
proof -
  define t where "t = s\<lparr>mov_ticks := mov_ticks s + dt\<rparr>"
  define iv where "iv = 1000 * move_step_distance div uint (speed t)"
  have u: "185 \<le> uint (speed t)" "uint (speed t) \<le> 448"
    using ok(1) speed_bounds by (simp_all add: t_def snake_ok_def word_le_def)
  have "42000 div 448 \<le> 42000 div uint (speed t)" using u by (intro zdiv_mono2) simp_all
  moreover have "42000 div uint (speed t) \<le> 42000 div 185" by (rule zdiv_mono2) (use u in simp_all)
  ultimately
  have iv: "93 \<le> iv" "iv \<le> 227" by (simp_all add: iv_def move_step_distance_def)
  have nz: "speed t \<noteq> 0" using u by auto
  have t0: "0 \<le> mov_ticks t" "mov_ticks t < 477" using ok(1) dt mv by (simp_all add: t_def snake_ok_def)
  have ok': "snake_ok (t, ss)" using ok(1) dt by (simp add: t_def snake_ok_def boxes_ok_def)
  have p: "body_ok (parts t)" "consts_ok t" "isfin (angle t)" "between 300 42900 (get_head_x t)"
    "between 300 42900 (get_head_y t)"
    using ok head by (simp_all add: t_def consts_ok_def get_head_x_def get_head_y_def)
  show ?thesis
  proof (cases "iv \<le> mov_ticks t")
    case False
    with nz have "tick_move m dt (s, ss) = Some (0, t, ss)"
      by (simp add: tick_move_def t_def [symmetric] iv_def [symmetric] Let_def)
    moreover have "mov_ticks t < 227" using False iv by simp
    ultimately show ?thesis using p by (simp add: t_def)
  next
    case True
    let ?ft = "mov_ticks t div iv * iv"
    have ft: "0 \<le> ?ft" "?ft \<le> mov_ticks t" "?ft \<le> 500"
    proof -
      have r: "0 \<le> mov_ticks t mod iv" "0 \<le> mov_ticks t div iv" "0 \<le> iv"
        using iv t0 by (simp_all add: pos_imp_zdiv_nonneg_iff)
      show "0 \<le> ?ft" using r by simp
      show "?ft \<le> mov_ticks t" "?ft \<le> 500"
        using r(1) div_mult_mod_eq [of "mov_ticks t" iv] t0 by linarith+
    qed
    from move_once_total [OF ok' p(1-3) m p(4,5) ft(1,3,2)] obtain c s' ss' where
      r: "move_once m ?ft (t, ss) = Some (c, s', ss')" "body_ok (parts s')" "consts_ok s'"
        "angle s' = angle t" "wangle s' = wangle t" "rot_ticks s' = rot_ticks t" by blast
    have e: "tick_move m dt (s, ss) = Some (c, s', ss')"
      using True nz iv r(1) by (simp add: tick_move_def t_def [symmetric] iv_def [symmetric] Let_def)
    have "mov_ticks s' = mov_ticks t mod iv"
      using tick_move_step [OF e ok(1) dt(1)] by (simp add: t_def iv_def)
    also have "\<dots> < iv" using iv by (intro pos_mod_bound) simp
    also have "iv \<le> 227" by (rule iv(2))
    finally show ?thesis using e r by (simp add: t_def)
  qed
qed

lemma head_fields: "parts s' = parts s \<Longrightarrow> get_head_x s' = get_head_x s \<and> get_head_y s' = get_head_y s"
  by (simp add: get_head_x_def get_head_y_def)

lemma Tick_total:
  assumes "snake_ok (s, ss)" "tick_ready s" "between 300 42900 (get_head_x s)" "between 300 42900 (get_head_y s)"
    and "libm_ok m" "0 \<le> dt" "dt \<le> 250"
  shows "\<exists>b s' ss'. Tick m dt (s, ss) = Some (b, s', ss') \<and> tick_ready s'"
proof (cases "update s AND (change_dying OR change_dead) = 0")
  case False
  then have "Tick m dt (s, ss) = Some (False, s, ss)" by (simp add: Tick_def)
  with assms(2) show ?thesis by blast
next
  case True
  have r: "body_ok (parts s)" "consts_ok s" "angle_ok (angle s)" "angle_ok (wangle s)"
    "mov_ticks s < 227" "rot_ticks s < 93" "0 \<le> ai_ticks s" "0 \<le> rot_ticks s"
    using assms(1,2) by (simp_all add: tick_ready_def snake_ok_def)
  from tick_bot_keeps [OF r(7) assms(6), of m] obtain w u a where
    tb: "tick_bot m dt s = s\<lparr>wangle := w, update := u, ai_ticks := a\<rparr>" by blast
  define t where "t = tick_bot m dt s"
  have t: "parts t = parts s" "consts_ok t" "angle t = angle s" "mov_ticks t = mov_ticks s" "rot_ticks t = rot_ticks s"
    using r(2) by (simp_all add: t_def tb consts_ok_def)
  have tw: "angle_ok (wangle t)"
    unfolding t_def using assms(3,4) between_weaken
    by (intro tick_bot_angle [OF assms(5) _ _ r(4)]) force+
  have okt: "snake_ok (t, ss)" using tick_bot_step [OF assms(1,6), of m] by (simp add: t_def snake_step_def)
  obtain f v where fv: "tick_rotate dt t = (f, v)" by (metis surj_pair)
  have v': "snd (tick_rotate dt t) = v" by (simp add: fv)
  have "0 \<le> rot_ticks t" using r(8) by (simp add: t)
  from tick_rotate_keeps [OF this assms(6)] obtain an rt where ve: "v = t\<lparr>angle := an, rot_ticks := rt\<rparr>"
    unfolding v' by blast
  have okv: "snake_ok (v, ss)" using tick_rotate_step [OF okt assms(6)] by (simp add: v' snake_step_def)
  have av: "angle_ok (angle v)" "rot_ticks v < 93"
    using tick_rotate_angle [of t dt] r tw assms(6,7) by (simp_all add: t v')
  have pv: "parts v = parts s" "consts_ok v" "wangle v = wangle t" "mov_ticks v = mov_ticks s"
    using t by (simp_all add: ve consts_ok_def)
  have fin: "isfin (angle v)" using av(1) by (simp add: angle_ok_def between_def)
  from tick_move_total [OF okv _ pv(2) fin assms(5)] obtain c s' ss' where
    mv: "tick_move m dt (v, ss) = Some (c, s', ss')" and s': "body_ok (parts s')" "consts_ok s'"
      "angle s' = angle v" "wangle s' = wangle v" "rot_ticks s' = rot_ticks v" "mov_ticks s' < 227"
    using r(1,5) head_fields [OF pv(1)] assms(3,4,6,7) pv by (metis (no_types, lifting))
  have rd: "tick_ready (s'\<lparr>update := x\<rparr>)" "tick_ready s'" for x
    using s' av tw pv by (simp_all add: tick_ready_def consts_ok_def)
  show ?thesis using True mv rd by (auto simp: Tick_def t_def [symmetric] fv Let_def)
qed

text \<open>A snake in the middle of an empty map.\<close>

definition calm_libc :: libc where
  "calm_libc = \<lparr>m_cosf = \<lambda>_. fl 1, m_sinf = \<lambda>_. fl 0, m_atan2f = \<lambda>_ _. fl 0, m_powf = \<lambda>x _. x,
     m_rand = \<lambda>_. 0, m_rand_max = 2147483647, m_sort = sort_key food_x\<rparr>"

definition centre_snake :: Snake where
  "centre_snake = sample_snake\<lparr>sbb := sample_box\<lparr>bb_sectors := []\<rparr>,
     vp := sample_port\<lparr>bb_sectors := []\<rparr>,
     parts := map (\<lambda>i. \<lparr>body_x = fl (21600 - 42 * i), body_y = fl 21600\<rparr>) [0..4]\<rparr>"

lemma centre_snake_ok: "snake_ok (centre_snake, InitSectors)"
proof -
  have f: "foods_ok (InitSectors ! k)" if "k < 20736" for k
    using that by (simp add: foods_ok_def InitSectors_def count_along_edge mk_Sector_def Let_def)
  have "boxes_ok (centre_snake, InitSectors)"
    using fresh_box_ok [of sample_box]
    by (simp add: boxes_ok_def centre_snake_def sample_snake_def vp_ok_def sample_port_def) (simp add: sample_box_def)
  then show ?thesis using f
    by (simp add: snake_ok_def grid_ok_InitSectors centre_snake_def sample_snake_def upto_rec1
      base_move_speed_def boost_speed_def)
qed

lemma on_unit_fl: "\<bar>n\<bar> \<le> 16777216 \<Longrightarrow> on_unit (fl n)"
proof -
  assume "\<bar>n\<bar> \<le> 16777216"
  then have "fval (fl n) = of_int n" using fl_value by blast
  also have "\<dots> = of_int (n * 2 ^ 149) * 2 powi (- 149)"
    using least_unit by (simp add: mult.assoc)
  finally show ?thesis unfolding on_unit_def by blast
qed

lemma centre_snake_ready: "tick_ready centre_snake"
proof -
  have c: "coord_ok (fl n)" if "0 \<le> n" "n \<le> 43200" for n
    using between_weaken [OF between_fl [of n], of 0 43200] on_unit_fl [of n] that by (simp add: coord_ok_def)
  have a: "angle_ok (fl 0)" "between 14 87 (fl 14)" "between 1 6 (fl 1)"
    using angle_ok_pos [OF between_weaken [OF between_fl [of 0]]] between_weaken [OF between_fl [of 14], of 14 87]
      between_weaken [OF between_fl [of 1], of 1 6] by simp_all
  show ?thesis using c a
    by (simp add: tick_ready_def body_ok_def centre_snake_def sample_snake_def upto_rec1 consts_ok_def)
qed

lemma centre_snake_head:
  "between 300 42900 (get_head_x centre_snake)" "between 300 42900 (get_head_y centre_snake)"
  using between_weaken [OF between_fl [of 21600], of 300 42900]
  by (simp_all add: get_head_x_def get_head_y_def centre_snake_def upto_rec1)

lemma calm_libc_ok: "libm_ok calm_libc"
  using between_weaken [OF between_fl [of 1], of "- 1" 1] between_weaken [OF between_fl [of 0], of "- 1" 1]
    between_weaken [OF between_fl [of 0], of "- 4" 4]
  by (simp add: libm_ok_def calm_libc_def)

section \<open>Properties\<close>

text \<open>
  C8: a tick is defined. For a snake in shape with its head inside the part of the map in which it
  may live, every tick of at most 250 ms returns: no conversion of a float to an integer is out of
  range, no index is outside the sectors or the parts, no division by zero, no step on an empty
  vector. And the snake is then ready for the next tick.
\<close>

theorem Tick_defined:
  assumes "snake_ok (s, ss)" "tick_ready s" "between 300 42900 (get_head_x s)" "between 300 42900 (get_head_y s)"
    and "libm_ok m" "0 \<le> dt" "dt \<le> 250"
  shows "\<exists>b s' ss'. Tick m dt (s, ss) = Some (b, s', ss') \<and> tick_ready s'"
  by (rule Tick_total [OF assms])

theorem Tick_defined_witness:
  "\<exists>b s' ss'. Tick calm_libc 250 (centre_snake, InitSectors) = Some (b, s', ss') \<and> tick_ready s'"
  by (rule Tick_defined [OF centre_snake_ok centre_snake_ready centre_snake_head calm_libc_ok]) simp_all

theorem Tick_invariant_witness:
  "\<exists>b s' ss'. Tick calm_libc 250 (centre_snake, InitSectors) = Some (b, s', ss') \<and>
     snake_ok (s', ss') \<and> sn_id s' = 7 \<and> mov_ticks s' = 23"
proof -
  from Tick_total [OF centre_snake_ok centre_snake_ready centre_snake_head calm_libc_ok, of 250] obtain b s' ss' where
    r: "Tick calm_libc 250 (centre_snake, InitSectors) = Some (b, s', ss')" by auto
  have e: "sn_id centre_snake = 7" "update centre_snake = 0" "mov_ticks centre_snake = 0" "speed centre_snake = 185"
    by (simp_all add: centre_snake_def sample_snake_def)
  from Tick_invariant [OF centre_snake_ok _ r] have "snake_ok (s', ss')" "sn_id s' = 7" "mov_ticks s' = 23"
    by (simp_all add: e move_step_distance_def)
  with r show ?thesis by blast
qed

end
