(* ===== verification/Collision.thy ===== *)
theory Collision
  imports Snakes
begin

text \<open>
  The collision test \<open>Snake::Intersect\<close> (\<open>snake.cc\<close>), which pairs of neighbouring parts it looks at
  and which it leaves out.
\<close>

definition hit_at :: "Snake \<Rightarrow> BoundBoxPos \<Rightarrow> nat \<Rightarrow> bool" where
  "hit_at s foe i \<longleftrightarrow> hits_part s foe (parts s ! i) (parts s ! Suc i)"

lemma Intersect_range_iff:
  "Intersect_range s foe ps \<longleftrightarrow> (\<exists>i. Suc i < length ps \<and> hits_part s foe (ps ! i) (ps ! Suc i))"
proof (induction s foe ps rule: Intersect_range.induct)
  case (1 s foe prev iter rest)
  have "(\<exists>i. Suc i < length (prev # iter # rest) \<and> hits_part s foe ((prev # iter # rest) ! i) ((prev # iter # rest) ! Suc i))
    \<longleftrightarrow> hits_part s foe prev iter \<or> (\<exists>i. Suc i < length (iter # rest) \<and> hits_part s foe ((iter # rest) ! i) ((iter # rest) ! Suc i))"
    (is "(\<exists>i. ?P i) \<longleftrightarrow> _ \<or> (\<exists>i. ?Q i)")
  proof
    assume "\<exists>i. ?P i"
    then obtain i where i: "?P i" ..
    show "hits_part s foe prev iter \<or> (\<exists>i. ?Q i)"
    proof (cases i)
      case 0
      with i show ?thesis by simp
    next
      case (Suc j)
      with i have "?Q j" by simp
      then show ?thesis by blast
    qed
  next
    assume "hits_part s foe prev iter \<or> (\<exists>i. ?Q i)"
    then show "\<exists>i. ?P i"
    proof
      assume "hits_part s foe prev iter"
      then have "?P 0" by simp
      then show ?thesis by blast
    next
      assume "\<exists>i. ?Q i"
      then obtain i where "?Q i" ..
      then have "?P (Suc i)" by simp
      then show ?thesis by blast
    qed
  qed
  with "1.IH" show ?case by simp
qed simp_all

lemma Intersect_slice:
  "Intersect_range s foe (slice a b (parts s)) \<longleftrightarrow>
    (\<exists>i. a \<le> i \<and> Suc i < min b (length (parts s)) \<and> hit_at s foe i)"
proof -
  let ?ps = "parts s"
  have n: "slice a b ?ps ! j = ?ps ! (a + j)" if "Suc j < length (slice a b ?ps) \<or> j < length (slice a b ?ps)" for j
    using that by (auto simp: slice_def)
  have "Intersect_range s foe (slice a b ?ps) \<longleftrightarrow> (\<exists>j. Suc j < length (slice a b ?ps) \<and> hit_at s foe (a + j))"
    unfolding Intersect_range_iff hit_at_def using n by (metis add_Suc_right)
  also have "\<dots> \<longleftrightarrow> (\<exists>i. a \<le> i \<and> Suc i < min b (length ?ps) \<and> hit_at s foe i)"
  proof
    assume "\<exists>j. Suc j < length (slice a b ?ps) \<and> hit_at s foe (a + j)"
    then obtain j where "Suc j < length (slice a b ?ps)" "hit_at s foe (a + j)" by blast
    then show "\<exists>i. a \<le> i \<and> Suc i < min b (length ?ps) \<and> hit_at s foe i"
      by (intro exI [of _ "a + j"]) (auto simp: slice_def)
  next
    assume "\<exists>i. a \<le> i \<and> Suc i < min b (length ?ps) \<and> hit_at s foe i"
    then obtain i where "a \<le> i" "Suc i < min b (length ?ps)" "hit_at s foe i" by blast
    then show "\<exists>j. Suc j < length (slice a b ?ps) \<and> hit_at s foe (a + j)"
      by (intro exI [of _ "i - a"]) (auto simp: slice_def)
  qed
  finally show ?thesis .
qed

lemma tail_step_value: "tail_step = 12"
  by code_simp

lemma stepped_iff:
  "0 < d \<Longrightarrow> i \<in> set (stepped a d n) \<longleftrightarrow> (\<exists>k. i = a + d * k) \<and> i < n"
  by (auto simp: stepped_def dvd_def mod_eq_0_iff_dvd) (metis le_add_diff_inverse)

text \<open>The pairs a long snake is tested at: those of the head and those of each window of the tail.\<close>

definition looks_at :: "Snake \<Rightarrow> BoundBoxPos \<Rightarrow> nat \<Rightarrow> bool" where
  "looks_at s foe i \<longleftrightarrow> i < 8 \<and> near_part foe (parts s ! 3) \<or>
     (\<exists>k. 13 + 12 * k < length (parts s) \<and> 7 + 12 * k \<le> i \<and> i \<le> 17 + 12 * k \<and>
        near_part foe (parts s ! (13 + 12 * k)))"

lemma Snake_Intersect_iff:
  "Snake_Intersect foe s \<longleftrightarrow>
    (\<exists>i. Suc i < length (parts s) \<and> hit_at s foe i \<and> (length (parts s) \<le> 20 \<or> looks_at s foe i))"
proof (cases "length (parts s) \<le> 20")
  case True
  then show ?thesis by (simp add: Snake_Intersect_def tail_step_value Intersect_range_iff hit_at_def)
next
  case False
  have w: "(\<exists>i \<in> set (stepped 13 12 (length (parts s))). near_part foe (parts s ! i) \<and>
        Intersect_range s foe (slice (i - 6) (min (i + 6) (length (parts s))) (parts s)))
    \<longleftrightarrow> (\<exists>k j. 13 + 12 * k < length (parts s) \<and> near_part foe (parts s ! (13 + 12 * k)) \<and>
        7 + 12 * k \<le> j \<and> j \<le> 17 + 12 * k \<and> Suc j < length (parts s) \<and> hit_at s foe j)"
    unfolding Intersect_slice Bex_def stepped_iff [of 12 _ 13 "length (parts s)", simplified]
    by (auto; fastforce)
  have "Snake_Intersect foe s \<longleftrightarrow> near_part foe (parts s ! 3) \<and> Intersect_range s foe (slice 0 9 (parts s)) \<or>
      (\<exists>i \<in> set (stepped 13 12 (length (parts s))). near_part foe (parts s ! i) \<and>
        Intersect_range s foe (slice (i - 6) (min (i + 6) (length (parts s))) (parts s)))"
    using False by (simp add: Snake_Intersect_def tail_step_value Let_def)
  also have "\<dots> \<longleftrightarrow> (\<exists>i. Suc i < length (parts s) \<and> hit_at s foe i \<and> looks_at s foe i)"
  proof -
    have 1: "near_part foe (parts s ! 3) \<and> Intersect_range s foe (slice 0 9 (parts s)) \<longleftrightarrow>
      (\<exists>i. Suc i < length (parts s) \<and> hit_at s foe i \<and> i < 8 \<and> near_part foe (parts s ! 3))"
    proof -
      have "0 \<le> i \<and> Suc i < min 9 (length (parts s)) \<longleftrightarrow> Suc i < length (parts s) \<and> i < 8" for i
        using False by auto
      then show ?thesis unfolding Intersect_slice by blast
    qed
    show ?thesis unfolding w 1 looks_at_def by blast
  qed
  finally show ?thesis using False by simp
qed

section \<open>Properties\<close>

text \<open>
  C22: what the collision test decides. A snake of at most 20 parts is hit exactly if the foe
  touches some pair of neighbouring parts. For a longer one the pair must lie in a window the test
  looks at: the first nine parts when the foe is near part 3, or the twelve parts around part
  \<open>13 + 12 k\<close> when it is near that part.
\<close>

theorem collision_pairs:
  "Snake_Intersect foe s \<longleftrightarrow>
    (\<exists>i. Suc i < length (parts s) \<and> hits_part s foe (parts s ! i) (parts s ! Suc i) \<and>
      (length (parts s) \<le> 20 \<or> i < 8 \<and> near_part foe (parts s ! 3) \<or>
       (\<exists>k. 13 + 12 * k < length (parts s) \<and> 7 + 12 * k \<le> i \<and> i \<le> 17 + 12 * k \<and>
          near_part foe (parts s ! (13 + 12 * k)))))"
  unfolding Snake_Intersect_iff looks_at_def hit_at_def by blast

text \<open>
  C23: the pairs no foe can hit. On a snake of more than 20 parts a foe that touches only the pairs
  \<open>(12 k + 6, 12 k + 7)\<close> from 18 on, or only parts behind the last window, is never
  reported: the windows begin one part after the previous one ended, and the tail behind the last
  one is not visited.
\<close>

theorem collision_blind_spot:
  assumes "20 < length (parts s)"
    and "\<And>i. Suc i < length (parts s) \<Longrightarrow> hits_part s foe (parts s ! i) (parts s ! Suc i) \<Longrightarrow>
      18 \<le> i \<and> (i mod 12 = 6 \<or> length (parts s) \<le> 12 * ((i - 18) div 12) + 25)"
  shows "\<not> Snake_Intersect foe s"
proof
  assume "Snake_Intersect foe s"
  then obtain i where i: "Suc i < length (parts s)" "hit_at s foe i" "looks_at s foe i"
    using assms(1) unfolding Snake_Intersect_iff by auto
  from assms(2) [OF i(1)] i(2) have b: "18 \<le> i" "i mod 12 = 6 \<or> length (parts s) \<le> 12 * ((i - 18) div 12) + 25"
    by (simp_all add: hit_at_def)
  from i(3) b(1) obtain k where k: "13 + 12 * k < length (parts s)" "7 + 12 * k \<le> i" "i \<le> 17 + 12 * k"
    unfolding looks_at_def by auto
  define r where "r = i - 12 * k"
  have r: "i = r + 12 * k" "7 \<le> r" "r \<le> 17" using k(2,3) by (simp_all add: r_def)
  have "r mod 12 \<noteq> 6" using r(2,3) by presburger
  then have "i mod 12 \<noteq> 6" using r(1) by simp
  moreover have "12 * ((i - 18) div 12) + 25 \<le> 13 + 12 * k"
  proof -
    have "12 * ((i - 18) div 12) < 12 * k"
      using times_div_less_eq_dividend [of 12 "i - 18"] k(3) b(1) by linarith
    then show ?thesis by simp
  qed
  ultimately show False using b(2) k(1) by linarith
qed

text \<open>A straight snake of 21 parts and a foe on its last part.\<close>

definition long_snake :: Snake where
  "long_snake = \<lparr>sn_id = 7, skin = 9, update = 0, acceleration = False, bot = False, sn_name = [],
     speed = 185, angle = fl 0, wangle = fl 0, fullness = 20,
     sbb = \<lparr>pos_x = fl 0, pos_y = fl 0, pos_r = fl 0, bb_id = 7, bb_snake = 1, bb_sectors = []\<rparr>,
     vp = \<lparr>pos_x = fl 0, pos_y = fl 0, pos_r = fl 0, bb_id = 7, bb_snake = 1, bb_sectors = [],
       new_sectors = [], old_sectors = []\<rparr>,
     parts = map (\<lambda>i. \<lparr>body_x = fl (1300 - 42 * int i), body_y = fl 1000\<rparr>) [0..<21], eaten = [], spawn = [],
     clientPartsIndex = 21, mov_ticks = 0, rot_ticks = 0, ai_ticks = 0, gsc = fl 1, sc = fl 1, scang = fl 1,
     ssp = fl 1, fsp = fl 1, sbpr = fl 14\<rparr>"

theorem collision_blind_spot_witness:
  "hits_part long_snake (mk_pos (fl 460) (fl 1000) (fl 14)) (parts long_snake ! 19) (parts long_snake ! 20) \<and>
   \<not> Snake_Intersect (mk_pos (fl 460) (fl 1000) (fl 14)) long_snake"
proof
  let ?foe = "mk_pos (fl 460) (fl 1000) (fl 14)"
  show "hits_part long_snake ?foe (parts long_snake ! 19) (parts long_snake ! 20)" by code_simp
  have n: "length (parts long_snake) = 21" by (simp add: long_snake_def)
  have "list_all (\<lambda>i. \<not> hits_part long_snake ?foe (parts long_snake ! i) (parts long_snake ! Suc i)) [0..<18]"
    by code_simp
  then have h: "\<not> hits_part long_snake ?foe (parts long_snake ! i) (parts long_snake ! Suc i)" if "i < 18" for i
    using that by (simp add: list_all_iff)
  show "\<not> Snake_Intersect ?foe long_snake"
    by (rule collision_blind_spot) (use n h not_le in auto)
qed

end
