(* ===== verification/Worlds.thy ===== *)
theory Worlds
  imports TickSafety Collision
begin

text \<open>
  \<open>src/src/game/world.h\<close> and \<open>world.cc\<close>: the world that owns the snakes and the sectors.

  \<^item> The objects behind \<open>std::shared_ptr<Snake>\<close> live in \<open>heap\<close>; addresses are never reused, so
    that a pointer to a destroyed snake is an address outside the heap and following it is undefined.
  \<^item> \<open>snakes\<close> is the \<open>unordered_map\<close> as the list of its entries in iteration order. The standard
    leaves open where an insertion puts an entry, so this is an argument \<open>put\<close>; erasing keeps
    the order of the others.
  \<^item> \<open>rng\<close> is the position in the stream of \<open>std::rand\<close>.
\<close>

section \<open>State (world.h)\<close>

type_synonym SnakeMap = "(u16 \<times> addr) list"

record World =
  snakes :: SnakeMap
  heap :: "addr \<Rightarrow> Snake option"
  next_addr :: addr
  dead :: "u16 list"
  sectors :: SectorSeq
  changes :: "addr list"
  lastSnakeId :: u16
  ticks :: int
  frames :: u32
  config :: WorldConfig
  rng :: nat

type_synonym put = "u16 \<times> addr \<Rightarrow> SnakeMap \<Rightarrow> SnakeMap"

definition empty_World :: World where
  "empty_World = \<lparr>snakes = [], heap = \<lambda>_. None, next_addr = 0, dead = [], sectors = [], changes = [],
     lastSnakeId = 0, ticks = 0, frames = 0, config = default_WorldConfig, rng = 0\<rparr>"

section \<open>Random numbers\<close>

text \<open>\<open>rand() % base\<close> is undefined for the base 0; the result is converted to the type of the base.\<close>

definition NextRandom :: "libc \<Rightarrow> int \<Rightarrow> nat \<Rightarrow> (int \<times> nat) option" where
  "NextRandom m base r = (if base = 0 then None else Some (m_rand m r mod base, r + 1))"

section \<open>Creating snakes\<close>

text \<open>
  The parts of a new snake, each a step from the one before; the coordinates are \<open>uint16_t\<close> and are
  truncated after each step.
\<close>

fun body_line :: "flt \<Rightarrow> flt \<Rightarrow> flt list \<Rightarrow> u16 \<Rightarrow> u16 \<Rightarrow> BodySeq option" where
  "body_line cx cy [] x y = Some []"
| "body_line cx cy (d # ds) x y = do {
     x' \<leftarrow> to_u16 (fl (uint x) + cx * d);
     y' \<leftarrow> to_u16 (fl (uint y) + cy * d);
     ps \<leftarrow> body_line cx cy ds x' y';
     Some (\<lparr>body_x = fl 1 * fl (uint x), body_y = fl 1 * fl (uint y)\<rparr> # ps) }"

definition body_steps :: "nat \<Rightarrow> flt list" where
  "body_steps len = map (\<lambda>i. if i < parts_skip_count + parts_start_move_count
     then fl move_step_distance else tail_step_distance) [0..<len]"

text \<open>\<open>std::make_shared<Snake>()\<close>: every member zero or its default.\<close>

definition new_Snake :: "u16 \<Rightarrow> u8 \<Rightarrow> Snake" where
  "new_Snake i sk =
    (let b = \<lparr>pos_x = fl 0, pos_y = fl 0, pos_r = fl 0, bb_id = 0, bb_snake = 0, bb_sectors = []\<rparr>
     in \<lparr>sn_id = i, skin = sk, update = 0, acceleration = False, bot = False, sn_name = [],
         speed = base_move_speed, angle = fl 0, wangle = fl 0, fullness = 0, sbb = b, vp = mk_ViewPort b,
         parts = [], eaten = [], spawn = [], clientPartsIndex = 0, mov_ticks = 0, rot_ticks = 0, ai_ticks = 0,
         gsc = fl 0, sc = fl 0, scang = fl 0, ssp = fl 0, fsp = fl 0, sbpr = fl 0\<rparr>)"

text \<open>The result is the address of the new snake, which no map entry refers to yet.\<close>

definition CreateSnake :: "libc \<Rightarrow> World \<Rightarrow> (addr \<times> World) option" where
  "CreateSnake m w = do {
     let i = lastSnakeId w + 1;
     let a = next_addr w;
     (sk, r) \<leftarrow> NextRandom m (21 - 9 + 1) (rng w);
     let s = new_Snake i (of_int (9 + sk));
     let (f, r) = NextRandomf m r;
     let ang = f_2pi * f;
     (d, r) \<leftarrow> NextRandom m 5000 r;
     let dist = fl 1000 + fl d;
     x \<leftarrow> to_u16 (fl game_radius + dist * m_cosf m ang);
     y \<leftarrow> to_u16 (fl game_radius + dist * m_sinf m ang);
     let ang = normalize_angle (ang + f_pi);
     (l, r) \<leftarrow> NextRandom m (uint (snake_average_length (config w))) r;
     let len = 1 + 2 + max (uint (snake_min_length (config w))) l;
     ps \<leftarrow> body_line (m_cosf m ang) (m_sinf m ang) (body_steps (nat len)) x y;
     let s = s\<lparr>parts := ps, clientPartsIndex := length ps, angle := normalize_angle (ang + f_pi),
               wangle := normalize_angle (ang + f_pi)\<rparr>;
     let s = s\<lparr>sbb := get_new_box a s, vp := mk_ViewPort (get_new_box a s)\<rparr>;
     let s = UpdateSnakeConsts (UpdateBoxRadius (UpdateBoxCenter s));
     (s, ss) \<leftarrow> InitBoxNewSectors (s, sectors w);
     Some (a, w\<lparr>lastSnakeId := i, next_addr := a + 1, heap := (heap w)(a \<mapsto> s), sectors := ss, rng := r\<rparr>) }"

definition CreateSnakeBot :: "libc \<Rightarrow> World \<Rightarrow> (addr \<times> World) option" where
  "CreateSnakeBot m w = do {
     (a, w) \<leftarrow> CreateSnake m w;
     s \<leftarrow> heap w a;
     Some (a, w\<lparr>heap := (heap w)(a \<mapsto> s\<lparr>bot := True\<rparr>)\<rparr>) }"

section \<open>The map of snakes\<close>

definition GetSnake :: "u16 \<Rightarrow> World \<Rightarrow> addr option" where
  "GetSnake i w = map_of (snakes w) i"

text \<open>\<open>insert\<close> leaves an entry that is already there.\<close>

definition AddSnake :: "put \<Rightarrow> addr \<Rightarrow> World \<Rightarrow> World option" where
  "AddSnake put a w = do {
     s \<leftarrow> heap w a;
     Some (if GetSnake (sn_id s) w = None then w\<lparr>snakes := put (sn_id s, a) (snakes w)\<rparr> else w) }"

text \<open>The end of a local \<open>shared_ptr\<close>: the snake is destroyed when the map does not hold it.\<close>

definition release :: "addr \<Rightarrow> World \<Rightarrow> World" where
  "release a w = (if a \<in> snd ` set (snakes w) then w else w\<lparr>heap := (heap w)(a := None)\<rparr>)"

definition FlushChanges :: "World \<Rightarrow> World" where
  "FlushChanges w = w\<lparr>changes := []\<rparr>"

text \<open>The overload for one snake reads the \<open>id\<close> behind every pointer.\<close>

definition FlushChanges_id :: "u16 \<Rightarrow> World \<Rightarrow> World option" where
  "FlushChanges_id i w =
    (if \<forall>a \<in> set (changes w). heap w a \<noteq> None
     then Some (w\<lparr>changes := filter (\<lambda>a. map_option sn_id (heap w a) \<noteq> Some i) (changes w)\<rparr>)
     else None)"

text \<open>\<open>Sector::RemoveSnake\<close> reads the \<open>id\<close> of every box the sector points to.\<close>

definition unregister :: "u16 \<Rightarrow> nat \<Rightarrow> World \<Rightarrow> World option" where
  "unregister i k w =
    (if \<forall>r \<in> set (sec_snakes (sectors w ! k)). heap w (ref_snake r) \<noteq> None
     then Some (w\<lparr>sectors := (sectors w)[k := Sector_RemoveSnake i (sectors w ! k)]\<rparr>)
     else None)"

definition RemoveSnake :: "u16 \<Rightarrow> World \<Rightarrow> World option" where
  "RemoveSnake i w = do {
     w \<leftarrow> FlushChanges_id i w;
     case GetSnake i w of
       None \<Rightarrow> Some w
     | Some a \<Rightarrow> do {
         s \<leftarrow> heap w a;
         w \<leftarrow> fold_opt (unregister i) (bb_sectors (sbb s)) w;
         Some (release a (w\<lparr>snakes := filter (\<lambda>e. fst e \<noteq> i) (snakes w)\<rparr>)) } }"

section \<open>Ticks\<close>

text \<open>The snakes registered in one sector against the head of \<open>s\<close>: a hit, and the ids already checked.\<close>

fun check_boxes :: "addr \<Rightarrow> BoundBoxPos \<Rightarrow> (addr \<Rightarrow> Snake option) \<Rightarrow> bb_ref list \<Rightarrow> u16 list \<Rightarrow> (bool \<times> u16 list) option" where
  "check_boxes a check h [] cs_cache = Some (False, cs_cache)"
| "check_boxes a check h (bb # bbs) cs_cache =
    (if ref_snake bb = a then check_boxes a check h bbs cs_cache
     else do {
       s2 \<leftarrow> h (ref_snake bb);
       if sn_id s2 \<in> set cs_cache then check_boxes a check h bbs cs_cache
       else if Snake_Intersect check s2 then Some (True, cs_cache @ [sn_id s2])
       else check_boxes a check h bbs (cs_cache @ [sn_id s2]) })"

fun check_cells :: "addr \<Rightarrow> BoundBoxPos \<Rightarrow> World \<Rightarrow> (int \<times> int) list \<Rightarrow> u16 list \<Rightarrow> bool option" where
  "check_cells a check w [] cs_cache = Some False"
| "check_cells a check w ((i, j) # ijs) cs_cache =
    (if on_map i j then do {
       k \<leftarrow> get_sector (sectors w) (of_int i) (of_int j);
       if Intersect (sec_box (sectors w ! k)) (mk_pos (pos_x check) (pos_y check) (fl move_step_distance))
       then do {
         (hit, cs_cache) \<leftarrow> check_boxes a check (heap w) (sec_snakes (sectors w ! k)) cs_cache;
         if hit then Some True else check_cells a check w ijs cs_cache }
       else check_cells a check w ijs cs_cache }
     else check_cells a check w ijs cs_cache)"

text \<open>Whether the snake at \<open>a\<close> has left the world or run into another one.\<close>

definition out_of_bounds :: "Snake \<Rightarrow> bool" where
  "out_of_bounds s \<longleftrightarrow> fl (death_radius * death_radius) \<le> DistanceSquared (get_head s) (fl game_radius) (fl game_radius)"

definition CheckSnakeBounds :: "addr \<Rightarrow> World \<Rightarrow> World option" where
  "CheckSnakeBounds a w = do {
     s \<leftarrow> heap w a;
     let w' = w\<lparr>heap := (heap w)(a \<mapsto> s\<lparr>update := update s OR change_dying\<rparr>)\<rparr>;
     if out_of_bounds s then Some w'
     else do {
       let check = mk_pos (get_head_x s) (get_head_y s) (get_snake_body_part_radius s);
       sx \<leftarrow> to_i16 (pos_x check / fl sector_size);
       sy \<leftarrow> to_i16 (pos_y check / fl sector_size);
       hit \<leftarrow> check_cells a check w (cells_around 1 sx sy) [];
       Some (if hit then w' else w) } }"

definition tick_snake :: "libc \<Rightarrow> int \<Rightarrow> u16 \<times> addr \<Rightarrow> World \<Rightarrow> World option" where
  "tick_snake m dt e w = do {
     s \<leftarrow> heap w (snd e);
     (b, s, ss) \<leftarrow> Tick m dt (s, sectors w);
     Some (w\<lparr>heap := (heap w)(snd e \<mapsto> s), sectors := ss,
             changes := (if b then changes w @ [snd e] else changes w)\<rparr>) }"

definition check_changed :: "addr \<Rightarrow> World \<Rightarrow> World option" where
  "check_changed a w = do {
     s \<leftarrow> heap w a;
     if update s AND change_pos \<noteq> 0 then CheckSnakeBounds a w else Some w }"

definition TickSnakes :: "libc \<Rightarrow> int \<Rightarrow> World \<Rightarrow> World option" where
  "TickSnakes m dt w = do {
     w \<leftarrow> fold_opt (tick_snake m dt) (snakes w) w;
     fold_opt check_changed (changes w) w }"

text \<open>
  C++ division truncates; \<open>vfr > 0\<close> is tested before the quotient is used, and for a positive
  quotient it agrees with \<open>div\<close>.
\<close>

definition World_Tick :: "libc \<Rightarrow> int \<Rightarrow> World \<Rightarrow> World option" where
  "World_Tick m dt w = do {
     let w = w\<lparr>ticks := ticks w + dt\<rparr>;
     let vfr = ticks w div frame_time_ms;
     if vfr > 0 then do {
       let vfr_time = vfr * frame_time_ms;
       w \<leftarrow> TickSnakes m vfr_time w;
       Some (w\<lparr>ticks := ticks w - vfr_time, frames := frames w + of_int vfr\<rparr>) }
     else Some w }"

section \<open>Initialisation\<close>

definition food_density :: "Sector \<Rightarrow> nat option" where
  "food_density s =
    (let c = sector_count_along_edge div 2;
         dist = uint (of_int ((uint (sec_x s) - c) * (uint (sec_x s) - c) + (uint (sec_y s) - c) * (uint (sec_y s) - c)) :: u16);
         dp = fl 1 - fl 1 * fl dist / fl (sector_count_along_edge * sector_count_along_edge)
     in to_size (dp * fl 10))"

definition random_food :: "libc \<Rightarrow> Sector \<Rightarrow> nat \<Rightarrow> (Food \<times> nat) option" where
  "random_food m s r = do {
     (x, r) \<leftarrow> NextRandom m sector_size r;
     (y, r) \<leftarrow> NextRandom m sector_size r;
     (z, r) \<leftarrow> NextRandom m 10 r;
     (c, r) \<leftarrow> NextRandom m 29 r;
     Some (mk_food (of_int (uint (sec_x s) * sector_size + x)) (of_int (uint (sec_y s) * sector_size + y))
             (of_int (1 + z)) (of_int c), r) }"

definition init_sector :: "libc \<Rightarrow> Sector \<times> nat \<Rightarrow> (Sector \<times> nat) option" where
  "init_sector m st = do {
     n \<leftarrow> food_density (fst st);
     (s, r) \<leftarrow> fold_opt (\<lambda>_ (s, r). do { (f, r) \<leftarrow> random_food m s r; Some (Sector_Insert f s, r) }) [0..<n] st;
     Some (Sector_Sort (m_sort m) s, r) }"

fun init_sectors :: "libc \<Rightarrow> SectorSeq \<Rightarrow> nat \<Rightarrow> (SectorSeq \<times> nat) option" where
  "init_sectors m [] r = Some ([], r)"
| "init_sectors m (s # ss) r = do {
     (s, r) \<leftarrow> init_sector m (s, r);
     (ss, r) \<leftarrow> init_sectors m ss r;
     Some (s # ss, r) }"

definition InitFood :: "libc \<Rightarrow> World \<Rightarrow> World option" where
  "InitFood m w = do {
     (ss, r) \<leftarrow> init_sectors m (sectors w) (rng w);
     Some (w\<lparr>sectors := ss, rng := r\<rparr>) }"

definition spawn_bot :: "libc \<Rightarrow> put \<Rightarrow> World \<Rightarrow> World option" where
  "spawn_bot m put w = do {
     (a, w) \<leftarrow> CreateSnakeBot m w;
     w \<leftarrow> AddSnake put a w;
     Some (release a w) }"

definition SpawnNumSnakes :: "libc \<Rightarrow> put \<Rightarrow> nat \<Rightarrow> World \<Rightarrow> World option" where
  "SpawnNumSnakes m put n w = fold_opt (\<lambda>_. spawn_bot m put) [0..<n] w"

text \<open>\<open>InitRandom\<close> seeds the generator from the clock: any position of the stream.\<close>

definition World_Init :: "libc \<Rightarrow> put \<Rightarrow> nat \<Rightarrow> WorldConfig \<Rightarrow> World \<Rightarrow> World option" where
  "World_Init m put seed cfg w = do {
     let w = w\<lparr>config := cfg, rng := seed, sectors := sectors w @ InitSectors\<rparr>;
     w \<leftarrow> InitFood m w;
     SpawnNumSnakes m put (unat (bots cfg)) w }"

end
