(* ===== verification/WorldInvariant.thy ===== *)
theory WorldInvariant
  imports Worlds
begin

text \<open>
  The invariant of the world between two calls, and that the operations of \<open>world.cc\<close> keep it:
  the map of snakes and the heap agree, every box pointer a sector holds leads to a snake of the map,
  every pointer in \<open>changes\<close> is alive, every snake is in shape.
\<close>

section \<open>The invariant\<close>

text \<open>The entries \<open>es\<close> are exactly the live snakes, and the grid points to no other.\<close>

definition live :: "World \<Rightarrow> u16 \<times> addr \<Rightarrow> bool" where
  "live w e \<longleftrightarrow> (\<exists>s. heap w (snd e) = Some s \<and> sn_id s = fst e \<and> bb_snake (sbb s) = snd e \<and>
     snake_ok (s, sectors w) \<and> snd e < next_addr w)"

definition grid_refs :: "u16 set \<Rightarrow> SectorSeq \<Rightarrow> bool" where
  "grid_refs I ss \<longleftrightarrow> grid_ok ss \<and> (\<forall>k < length ss. foods_ok (ss ! k) \<and> ref_id ` set (sec_snakes (ss ! k)) \<subseteq> I)"

definition owns :: "SnakeMap \<Rightarrow> World \<Rightarrow> bool" where
  "owns es w \<longleftrightarrow> distinct (map fst es) \<and> distinct (map snd es) \<and> (\<forall>e \<in> set es. live w e) \<and>
     (\<forall>a. heap w a \<noteq> None \<longrightarrow> a \<in> snd ` set es) \<and> grid_refs (fst ` set es) (sectors w) \<and>
     set (changes w) \<subseteq> snd ` set es"

definition world_ok :: "World \<Rightarrow> bool" where
  "world_ok w \<longleftrightarrow> owns (snakes w) w \<and> 0 \<le> ticks w \<and> ticks w < 8"

lemma owns_mset: "mset es = mset es' \<Longrightarrow> owns es w = owns es' w"
proof -
  assume m: "mset es = mset es'"
  have "distinct (map fst es) = distinct (map fst es')"
    by (rule mset_eq_imp_distinct_iff) (simp add: m)
  moreover have "distinct (map snd es) = distinct (map snd es')"
    by (rule mset_eq_imp_distinct_iff) (simp add: m)
  moreover have "set es = set es'" using m by (rule mset_eq_setD)
  ultimately show ?thesis by (simp only: owns_def)
qed

lemma ownsD:
  assumes "owns es w" "(i, a) \<in> set es"
  obtains s where "heap w a = Some s" "sn_id s = i" "bb_snake (sbb s) = a" "snake_ok (s, sectors w)"
  using assms by (fastforce simp: owns_def live_def)

lemma owns_unique:
  assumes "owns es w" "e \<in> set es" "e' \<in> set es" "fst e = fst e' \<or> snd e = snd e'"
  shows "e = e'"
  using assms by (metis distinct_map inj_onD owns_def)

section \<open>One snake at a time\<close>

lemma filter_filter_id: "i \<noteq> j \<Longrightarrow> filter (\<lambda>r. ref_id r = j) (filter (\<lambda>r. ref_id r \<noteq> i) rs) = filter (\<lambda>r. ref_id r = j) rs"
  by (induction rs) auto

lemma grid_step_registered:
  assumes "grid_step i ss ss'" "bb_id b \<noteq> i"
  shows "registered b ss' = registered b ss"
proof -
  have l: "length ss' = length ss" using assms(1) by (simp add: grid_step_def)
  have "filter (\<lambda>r. ref_id r = bb_id b) (sec_snakes (ss' ! k)) = filter (\<lambda>r. ref_id r = bb_id b) (sec_snakes (ss ! k))"
    if "k < length ss" for k
  proof -
    have "filter (\<lambda>r. ref_id r \<noteq> i) (sec_snakes (ss' ! k)) = filter (\<lambda>r. ref_id r \<noteq> i) (sec_snakes (ss ! k))"
      using assms(1) that by (simp add: grid_step_def)
    then show ?thesis using filter_filter_id [OF assms(2) [symmetric]] by metis
  qed
  then show ?thesis by (simp add: registered_def l)
qed

lemma other_snake_ok:
  assumes "snake_ok (s2, ss)" "sn_id s2 \<noteq> i" "grid_step i ss ss'"
  shows "snake_ok (s2, ss')"
proof -
  have b: "boxes_ok (s2, ss)" "grid_ok ss" "\<forall>k < length ss. foods_ok (ss ! k)"
    using assms(1) by (simp_all add: snake_ok_def)
  then have "bb_id (sbb s2) \<noteq> i" using assms(2) by (simp add: boxes_ok_def)
  then have "boxes_ok (s2, ss')" using b(1) grid_step_registered [OF assms(3)] grid_step_vp_ok [OF assms(3)]
    by (simp add: boxes_ok_def box_ok_def)
  moreover have "\<forall>k < length ss'. foods_ok (ss' ! k)" using assms(3) b(3) by (simp add: grid_step_def)
  ultimately show ?thesis using assms(1) grid_step_ok [OF assms(3)] by (simp add: snake_ok_def)
qed

lemma grid_refs_step:
  assumes "grid_refs I ss" "grid_step i ss ss'" "i \<in> I"
  shows "grid_refs I ss'"
proof -
  have "ref_id ` set (sec_snakes (ss' ! k)) \<subseteq> I" if k: "k < length ss" for k
  proof
    fix j assume "j \<in> ref_id ` set (sec_snakes (ss' ! k))"
    then obtain r where r: "r \<in> set (sec_snakes (ss' ! k))" "j = ref_id r" by blast
    show "j \<in> I"
    proof (cases "j = i")
      case False
      then have "r \<in> set (filter (\<lambda>r. ref_id r \<noteq> i) (sec_snakes (ss' ! k)))" using r by simp
      also have "\<dots> \<subseteq> set (sec_snakes (ss ! k))" using assms(2) k by (auto simp: grid_step_def)
      finally have "r \<in> set (sec_snakes (ss ! k))" .
      moreover have "ref_id ` set (sec_snakes (ss ! k)) \<subseteq> I" using assms(1) k by (simp add: grid_refs_def)
      ultimately show ?thesis using r(2) by blast
    qed (use assms(3) in simp)
  qed
  with assms(1,2) grid_step_ok [OF assms(2)] show ?thesis by (simp add: grid_refs_def grid_step_def)
qed

text \<open>The step of one snake keeps the whole world in shape.\<close>

definition update_snake :: "addr \<Rightarrow> Snake \<Rightarrow> SectorSeq \<Rightarrow> World \<Rightarrow> World" where
  "update_snake a s ss w = w\<lparr>heap := (heap w)(a \<mapsto> s), sectors := ss\<rparr>"

lemma owns_put:
  assumes "owns es w" "(i, a) \<in> set es" "heap w a = Some s"
    and same: "sn_id s' = sn_id s" "bb_snake (sbb s') = bb_snake (sbb s)"
    and "snake_ok (s', ss')" "grid_step i (sectors w) ss'"
  shows "owns es (update_snake a s' ss' w)"
proof -
  from ownsD [OF assms(1,2)] assms(3) have s: "sn_id s = i" "bb_snake (sbb s) = a" by auto
  have g: "grid_step i (sectors w) ss'" "snake_ok (s', ss')" "sn_id s' = i" "bb_snake (sbb s') = a"
    using assms(6,7) s same by simp_all
  have "live (update_snake a s' ss' w) e" if e: "e \<in> set es" for e
  proof (cases "snd e = a")
    case True
    then have "e = (i, a)" using owns_unique [OF assms(1) e assms(2)] by simp
    moreover have "a < next_addr w" using assms(1,2) by (auto simp: owns_def live_def)
    ultimately show ?thesis using g by (simp add: live_def update_snake_def)
  next
    case False
    then have "fst e \<noteq> i" using owns_unique [OF assms(1) e assms(2)] by (metis fst_conv snd_conv)
    moreover have "live w e" using assms(1) e by (simp add: owns_def)
    ultimately show ?thesis using False other_snake_ok [OF _ _ g(1)] by (auto simp: live_def update_snake_def)
  qed
  moreover have "i \<in> fst ` set es" "a \<in> snd ` set es" using assms(2) by (simp_all add: rev_image_eqI)
  moreover from this have "grid_refs (fst ` set es) ss'"
    using assms(1) by (intro grid_refs_step [OF _ g(1)]) (simp_all add: owns_def)
  moreover have "b \<in> snd ` set es" if "heap (update_snake a s' ss' w) b \<noteq> None" for b
  proof (cases "b = a")
    case False
    then have "heap w b \<noteq> None" using that by (simp add: update_snake_def)
    with assms(1) show ?thesis unfolding owns_def by blast
  qed (use \<open>a \<in> snd ` set es\<close> in simp)
  ultimately show ?thesis using assms(1) by (simp add: owns_def update_snake_def)
qed

lemma owns_step:
  assumes "owns es w" "(i, a) \<in> set es" "heap w a = Some s" "snake_step (s, sectors w) (s', ss')"
  shows "owns es (update_snake a s' ss' w)"
proof -
  from ownsD [OF assms(1,2)] assms(3) have "sn_id s = i" by auto
  with assms show ?thesis by (intro owns_put [OF assms(1-3)]) (simp_all add: snake_step_def)
qed

lemma owns_fields [simp]:
  "owns es (w\<lparr>ticks := t\<rparr>) = owns es w" "owns es (w\<lparr>frames := f\<rparr>) = owns es w"
  "owns es (w\<lparr>snakes := sn\<rparr>) = owns es w" "owns es (w\<lparr>rng := r\<rparr>) = owns es w"
  "owns es (w\<lparr>dead := d\<rparr>) = owns es w" "owns es (w\<lparr>lastSnakeId := i\<rparr>) = owns es w"
  by (simp_all add: owns_def live_def)

lemma owns_changes: "owns es w \<Longrightarrow> set cs \<subseteq> snd ` set es \<Longrightarrow> owns es (w\<lparr>changes := cs\<rparr>)"
  by (simp add: owns_def live_def)

text \<open>A box pointer in the grid leads to a live snake.\<close>

lemma ref_alive:
  assumes "owns es w" "k < length (sectors w)" "r \<in> set (sec_snakes (sectors w ! k))"
  obtains s where "(ref_id r, ref_snake r) \<in> set es" "heap w (ref_snake r) = Some s" "snake_ok (s, sectors w)" "sn_id s = ref_id r"
    "k \<in> set (bb_sectors (sbb s))"
proof -
  have "ref_id ` set (sec_snakes (sectors w ! k)) \<subseteq> fst ` set es"
    using assms(1,2) by (simp add: owns_def grid_refs_def)
  moreover have "ref_id r \<in> ref_id ` set (sec_snakes (sectors w ! k))" using assms(3) by (rule imageI)
  ultimately have "ref_id r \<in> fst ` set es" by (rule subsetD)
  then obtain e' where e': "e' \<in> set es" "fst e' = ref_id r" by (elim imageE) simp
  define a where "a = snd e'"
  have e: "(ref_id r, a) \<in> set es" using e' by (metis a_def prod.collapse)
  from ownsD [OF assms(1) e] obtain s where
    s: "heap w a = Some s" "sn_id s = ref_id r" "bb_snake (sbb s) = a" "snake_ok (s, sectors w)" .
  have b: "registered (sbb s) (sectors w)" "bb_id (sbb s) = ref_id r"
    using s by (simp_all add: snake_ok_def boxes_ok_def box_ok_def)
  have "r \<in> set (filter (\<lambda>x. ref_id x = bb_id (sbb s)) (sec_snakes (sectors w ! k)))" using assms(3) b(2) by simp
  also have "\<dots> = set (if k \<in> set (bb_sectors (sbb s)) then [this_ref (sbb s)] else [])"
    using b(1) assms(2) by (simp add: registered_def)
  finally have "r = this_ref (sbb s)" "k \<in> set (bb_sectors (sbb s))" by (auto split: if_splits)
  with s e show ?thesis by (intro that [of s]) (simp_all add: this_ref_def)
qed

section \<open>Removing a snake\<close>

text \<open>The grid after the snake has left the sectors \<open>ks\<close>.\<close>

lemma unregister_all:
  assumes "\<forall>k \<in> set ks. k < length (sectors w)"
    and "\<forall>k < length (sectors w). \<forall>r \<in> set (sec_snakes (sectors w ! k)). heap w (ref_snake r) \<noteq> None"
  shows "\<exists>ss. fold_opt (unregister i) ks w = Some (w\<lparr>sectors := ss\<rparr>) \<and> grid_step i (sectors w) ss \<and>
    (\<forall>k < length ss. sec_snakes (ss ! k) =
       (if k \<in> set ks then filter (\<lambda>r. ref_id r \<noteq> i) (sec_snakes (sectors w ! k)) else sec_snakes (sectors w ! k)))"
  using assms
proof (induction ks arbitrary: w)
  case Nil
  then show ?case by (intro exI [of _ "sectors w"]) simp
next
  case (Cons k ks)
  let ?t = "(sectors w)[k := Sector_RemoveSnake i (sectors w ! k)]"
  let ?w = "w\<lparr>sectors := ?t\<rparr>"
  have k: "k < length (sectors w)" using Cons.prems(1) by simp
  have u: "unregister i k w = Some ?w" using Cons.prems(2) k by (simp add: unregister_def)
  have g: "grid_step i (sectors w) ?t"
    using k by (simp add: grid_step_def nth_list_update foods_ok_def near_sector_def)
  have n: "sec_snakes (?t ! j) = (if j = k then filter (\<lambda>r. ref_id r \<noteq> i) (sec_snakes (sectors w ! j)) else sec_snakes (sectors w ! j))"
    if "j < length (sectors w)" for j
    using that by (simp add: nth_list_update)
  have "\<exists>ss. fold_opt (unregister i) ks ?w = Some (?w\<lparr>sectors := ss\<rparr>) \<and> grid_step i (sectors ?w) ss \<and>
    (\<forall>k < length ss. sec_snakes (ss ! k) =
       (if k \<in> set ks then filter (\<lambda>r. ref_id r \<noteq> i) (sec_snakes (sectors ?w ! k)) else sec_snakes (sectors ?w ! k)))"
    by (rule Cons.IH) (use Cons.prems n in \<open>auto split: if_splits\<close>)
  then obtain ss where ss: "fold_opt (unregister i) ks ?w = Some (w\<lparr>sectors := ss\<rparr>)" "grid_step i ?t ss"
    "\<forall>k < length ss. sec_snakes (ss ! k) =
       (if k \<in> set ks then filter (\<lambda>r. ref_id r \<noteq> i) (sec_snakes (?t ! k)) else sec_snakes (?t ! k))" by auto
  have l: "length ss = length (sectors w)" using ss(2) by (simp add: grid_step_def)
  have "fold_opt (unregister i) (k # ks) w = Some (w\<lparr>sectors := ss\<rparr>)" using u ss(1) by simp
  moreover have "grid_step i (sectors w) ss" using grid_step_trans [OF g ss(2)] .
  moreover have "\<forall>j < length ss. sec_snakes (ss ! j) =
       (if j \<in> set (k # ks) then filter (\<lambda>r. ref_id r \<noteq> i) (sec_snakes (sectors w ! j)) else sec_snakes (sectors w ! j))"
    using ss(3) n by (simp add: l)
  ultimately show ?case by blast
qed

lemma GetSnake_None: "GetSnake i w = None \<longleftrightarrow> i \<notin> fst ` set (snakes w)"
  by (simp add: GetSnake_def map_of_eq_None_iff)

lemma GetSnake_Some: "GetSnake i w = Some a \<Longrightarrow> (i, a) \<in> set (snakes w)"
  by (simp add: GetSnake_def map_of_SomeD)

lemma owns_heap: "owns es w \<Longrightarrow> a \<in> snd ` set es \<Longrightarrow> heap w a \<noteq> None"
  unfolding owns_def live_def by fastforce

lemma refs_alive:
  assumes "owns es w" "k < length (sectors w)" "r \<in> set (sec_snakes (sectors w ! k))"
  shows "heap w (ref_snake r) \<noteq> None"
  by (rule ref_alive [OF assms]) simp

definition drop_changes :: "u16 \<Rightarrow> World \<Rightarrow> World" where
  "drop_changes i w = w\<lparr>changes := filter (\<lambda>a. map_option sn_id (heap w a) \<noteq> Some i) (changes w)\<rparr>"

lemma FlushChanges_id_total: "owns es w \<Longrightarrow> FlushChanges_id i w = Some (drop_changes i w) \<and> owns es (drop_changes i w)"
proof -
  assume o: "owns es w"
  then have c: "set (changes w) \<subseteq> snd ` set es" by (simp add: owns_def)
  then have "\<forall>a \<in> set (changes w). heap w a \<noteq> None" using owns_heap [OF o] by blast
  moreover have "owns es (drop_changes i w)" unfolding drop_changes_def by (rule owns_changes [OF o]) (use c in auto)
  ultimately show ?thesis by (simp add: FlushChanges_id_def drop_changes_def)
qed

definition removed :: "u16 \<Rightarrow> addr \<Rightarrow> SectorSeq \<Rightarrow> World \<Rightarrow> World" where
  "removed i a ss w = w\<lparr>snakes := filter (\<lambda>e. fst e \<noteq> i) (snakes w), heap := (heap w)(a := None), sectors := ss\<rparr>"

lemma owns_removed:
  assumes "owns (snakes w) w" "(i, a) \<in> set (snakes w)" "grid_step i (sectors w) ss"
    and "\<forall>k < length ss. i \<notin> ref_id ` set (sec_snakes (ss ! k))" "a \<notin> set (changes w)"
  shows "owns (snakes (removed i a ss w)) (removed i a ss w)"
proof -
  let ?es = "snakes w" and ?w = "removed i a ss w"
  let ?fs = "filter (\<lambda>e. fst e \<noteq> i) ?es"
  have uniq: "e = (i, a)" if "e \<in> set ?es" "fst e = i \<or> snd e = a" for e
    using owns_unique [OF assms(1) that(1) assms(2)] that(2) by simp
  have "distinct (map fst ?fs)" "distinct (map snd ?fs)" using assms(1) by (simp_all add: owns_def distinct_map_filter)
  moreover have "live ?w e" if e: "e \<in> set ?fs" for e
  proof -
    have es: "e \<in> set ?es" "fst e \<noteq> i" using e by simp_all
    then have "snd e \<noteq> a" using uniq by (metis fst_conv)
    moreover from es have "live w e" using assms(1) by (simp add: owns_def)
    ultimately show ?thesis using e other_snake_ok [OF _ _ assms(3)] by (auto simp: live_def removed_def)
  qed
  moreover have "b \<in> snd ` set ?fs" if b: "heap ?w b \<noteq> None" for b
  proof -
    have "b \<noteq> a" "heap w b \<noteq> None" using b by (auto simp: removed_def split: if_splits)
    then have "b \<in> snd ` set ?es" using assms(1) unfolding owns_def by blast
    then obtain e where "e \<in> set ?es" "b = snd e" by blast
    moreover from this have "fst e \<noteq> i" using uniq \<open>b \<noteq> a\<close> by (metis snd_conv)
    ultimately show ?thesis by auto
  qed
  moreover have "grid_refs (fst ` set ?fs) ss"
  proof -
    have "grid_refs (fst ` set ?es) ss"
      using assms(1,2) by (intro grid_refs_step [OF _ assms(3)]) (simp_all add: owns_def rev_image_eqI)
    moreover have "fst ` set ?fs = fst ` set ?es - {i}" by auto
    ultimately show ?thesis using assms(4) unfolding grid_refs_def by blast
  qed
  moreover have "set (changes ?w) \<subseteq> snd ` set ?fs"
  proof
    fix b assume "b \<in> set (changes ?w)"
    then have "b \<in> set (changes w)" by (simp add: removed_def)
    then have "b \<noteq> a" "b \<in> snd ` set ?es" using assms(1,5) by (auto simp: owns_def)
    then obtain e where "e \<in> set ?es" "b = snd e" by blast
    moreover from this have "fst e \<noteq> i" using uniq \<open>b \<noteq> a\<close> by (metis snd_conv)
    ultimately show "b \<in> snd ` set ?fs" by auto
  qed
  ultimately show ?thesis by (simp add: owns_def removed_def)
qed

lemma RemoveSnake_total:
  assumes "owns (snakes w) w"
  shows "\<exists>w'. RemoveSnake i w = Some w' \<and> owns (snakes w') w' \<and>
    snakes w' = filter (\<lambda>e. fst e \<noteq> i) (snakes w) \<and>
    (\<forall>k < length (sectors w'). i \<notin> ref_id ` set (sec_snakes (sectors w' ! k))) \<and>
    grid_step i (sectors w) (sectors w') \<and>
    (\<forall>e \<in> set (snakes w'). heap w' (snd e) = heap w (snd e)) \<and>
    changes w' = filter (\<lambda>a. map_option sn_id (heap w a) \<noteq> Some i) (changes w) \<and>
    ticks w' = ticks w \<and> frames w' = frames w \<and> dead w' = dead w \<and> lastSnakeId w' = lastSnakeId w \<and> config w' = config w"
proof (cases "GetSnake i w")
  case None
  let ?w = "drop_changes i w"
  have i: "i \<notin> fst ` set (snakes w)" using None by (simp add: GetSnake_None)
  have "filter (\<lambda>e. fst e \<noteq> i) (snakes w) = snakes w" using i by (intro filter_True) force
  moreover have "i \<notin> ref_id ` set (sec_snakes (sectors w ! k))" if "k < length (sectors w)" for k
    using assms i that unfolding owns_def grid_refs_def by blast
  moreover have "RemoveSnake i w = Some ?w" using FlushChanges_id_total [OF assms] None
    by (simp add: RemoveSnake_def GetSnake_def drop_changes_def)
  ultimately show ?thesis using FlushChanges_id_total [OF assms, of i]
    by (intro exI [of _ ?w]) (simp add: drop_changes_def)
next
  case (Some a)
  let ?w = "drop_changes i w"
  note F = FlushChanges_id_total [OF assms, of i]
  note e = GetSnake_Some [OF Some]
  from ownsD [OF assms e] obtain s where s: "heap w a = Some s" "sn_id s = i" "bb_snake (sbb s) = a" "snake_ok (s, sectors w)" .
  have r: "registered (sbb s) (sectors w)" "bb_id (sbb s) = i"
    using s by (simp_all add: snake_ok_def boxes_ok_def box_ok_def)
  have "\<forall>k < length (sectors w). \<forall>r \<in> set (sec_snakes (sectors w ! k)). heap w (ref_snake r) \<noteq> None"
    using refs_alive [OF assms] by blast
  then obtain ss where ss: "fold_opt (unregister i) (bb_sectors (sbb s)) ?w = Some (?w\<lparr>sectors := ss\<rparr>)"
    "grid_step i (sectors w) ss"
    "\<forall>k < length ss. sec_snakes (ss ! k) = (if k \<in> set (bb_sectors (sbb s))
       then filter (\<lambda>r. ref_id r \<noteq> i) (sec_snakes (sectors w ! k)) else sec_snakes (sectors w ! k))"
    using unregister_all [of "bb_sectors (sbb s)" ?w i] r(1) by (auto simp: drop_changes_def registered_def)
  have l: "length ss = length (sectors w)" using ss(2) by (simp add: grid_step_def)
  have gone: "i \<notin> ref_id ` set (sec_snakes (ss ! k))" if k: "k < length ss" for k
  proof (cases "k \<in> set (bb_sectors (sbb s))")
    case True
    then show ?thesis using ss(3) k by auto
  next
    case False
    then have "filter (\<lambda>r. ref_id r = i) (sec_snakes (sectors w ! k)) = []" using r k l by (simp add: registered_def)
    then show ?thesis using ss(3) k False by (auto simp: filter_empty_conv)
  qed
  have nc: "a \<notin> set (changes ?w)" using s by (simp add: drop_changes_def)
  have "owns (snakes (removed i a ss ?w)) (removed i a ss ?w)"
    using owns_removed [of ?w i a ss] F e ss(2) gone nc by (simp add: drop_changes_def)
  moreover have "a \<notin> snd ` set (filter (\<lambda>e. fst e \<noteq> i) (snakes w))"
    using owns_unique [OF assms _ e] by auto
  moreover from this have "RemoveSnake i w = Some (removed i a ss ?w)"
    using F Some s ss(1) by (simp add: RemoveSnake_def GetSnake_def drop_changes_def release_def removed_def)
  moreover have "\<forall>e \<in> set (snakes (removed i a ss ?w)). heap (removed i a ss ?w) (snd e) = heap w (snd e)"
    using owns_unique [OF assms _ e] by (auto simp: removed_def drop_changes_def)
  ultimately show ?thesis using gone ss(2)
    by (intro exI [of _ "removed i a ss ?w"]) (simp add: removed_def drop_changes_def)
qed

end
