(* ===== verification/WorldTick.thy ===== *)
theory WorldTick
  imports WorldInvariant
begin

text \<open>
  A tick of the whole world (\<open>World::Tick\<close>): it is defined, it keeps the invariant, no time is lost,
  and no snake lives on outside the map or inside another snake's reach unnoticed.
\<close>

section \<open>What a tick of one snake says about its flags\<close>

definition move_flags :: u8 where
  "move_flags = change_pos OR change_angle OR change_speed"

definition doomed :: "Snake \<Rightarrow> bool" where
  "doomed s \<longleftrightarrow> update s AND (change_dying OR change_dead) \<noteq> 0"

definition on_board :: "Snake \<Rightarrow> bool" where
  "on_board s \<longleftrightarrow> between 300 42900 (get_head_x s) \<and> between 300 42900 (get_head_y s)"

definition flushed :: "Snake \<Rightarrow> bool" where
  "flushed s \<longleftrightarrow> update s AND move_flags = 0"

lemma move_flags_value: "move_flags = 11"
  by code_simp

lemma flags_of_EF:
  "x AND 0xEF = y AND (0xEF :: u8) \<Longrightarrow> x AND 11 = y AND 11 \<and> x AND 96 = y AND 96 \<and> x AND 107 = y AND 107"
proof -
  assume e: "x AND 0xEF = y AND (0xEF :: u8)"
  have "x AND 11 = (x AND 0xEF) AND 11" "y AND 11 = (y AND 0xEF) AND 11"
    "x AND 96 = (x AND 0xEF) AND 96" "y AND 96 = (y AND 0xEF) AND 96"
    "x AND 107 = (x AND 0xEF) AND 107" "y AND 107 = (y AND 0xEF) AND 107"
    unfolding and.assoc by simp_all
  with e show ?thesis by simp
qed

text \<open>The flags but for \<open>change_wangle\<close> and \<open>change_fullness\<close>.\<close>

lemma flags_of_107: "x AND 107 = y AND (107 :: u8) \<Longrightarrow> x AND 11 = y AND 11 \<and> x AND 96 = y AND 96"
proof -
  assume e: "x AND 107 = y AND (107 :: u8)"
  have "x AND 11 = (x AND 107) AND 11" "y AND 11 = (y AND 107) AND 11"
    "x AND 96 = (x AND 107) AND 96" "y AND 96 = (y AND 107) AND 96"
    unfolding and.assoc by simp_all
  with e show ?thesis by simp
qed

lemma ai_step_flags: "update (ai_step m s) AND 107 = update s AND 107"
  by (simp add: ai_step_def Let_def change_wangle_def bit.conj_disj_distrib2)

lemma tick_bot_flags: "update (tick_bot m dt s) AND 107 = update s AND 107"
proof -
  have "update (fold (\<lambda>_. ai_step m) is s) AND 107 = update s AND 107" for "is" :: "nat list" and s
    by (induction "is" arbitrary: s) (simp_all add: ai_step_flags)
  then show ?thesis by (simp add: tick_bot_def TickAI_def Let_def)
qed

lemma tick_move_flags: "tick_move m dt st = Some (c, s', ss') \<Longrightarrow> c AND 96 = 0"
  by (auto simp: tick_move_def move_once_def bind_eq_Some_conv Let_def change_pos_def change_speed_def
      bit.conj_disj_distrib2 split: if_splits prod.splits)

lemma tick_rotate_flags: "update (snd (tick_rotate dt s)) = update s \<and> parts (snd (tick_rotate dt s)) = parts s"
  by (simp add: tick_rotate_def Let_def)

lemma tick_bot_parts: "0 \<le> ai_ticks s \<Longrightarrow> 0 \<le> dt \<Longrightarrow> parts (tick_bot m dt s) = parts s"
  using tick_bot_keeps [of s dt m] by auto

text \<open>
  A snake that was flushed and has moved is reported as changed, with \<open>change_pos\<close> set. No tick touches
  the flags of death, and the others stay as they are when nothing is reported.
\<close>

lemma Tick_reports:
  assumes "snake_ok (s, ss)" "0 \<le> dt" "flushed s" "\<not> doomed s" "Tick m dt (s, ss) = Some (b, s', ss')"
  shows "parts s' = parts s \<or> b \<and> update s' AND change_pos \<noteq> 0"
    and "update s' AND 96 = update s AND 96" and "b \<or> update s' AND 107 = update s AND 107"
proof -
  have alive: "update s AND (change_dying OR change_dead) = 0" using assms(4) by (simp add: doomed_def)
  let ?t = "tick_bot m dt s"
  obtain rot v where rv: "tick_rotate dt ?t = (rot, v)" by (metis surj_pair)
  have v: "update v = update ?t" "parts v = parts ?t" using tick_rotate_flags [of dt ?t] by (simp_all add: rv)
  have v107: "update v AND 107 = update s AND 107" using tick_bot_flags [of m dt s] by (simp add: v)
  then have fv: "update v AND 11 = 0" using assms(3) flags_of_107 [of "update v" "update s"]
    by (simp add: flushed_def move_flags_value)
  have okt: "snake_ok (?t, ss)" using tick_bot_step [OF assms(1,2), of m] by (simp add: snake_step_def)
  have okv: "snake_ok (v, ss)" using tick_rotate_step [OF okt assms(2)] by (simp add: rv snake_step_def)
  have pv: "parts v = parts s" using tick_bot_parts [of s dt m] assms(1,2) v by (simp add: snake_ok_def)
  obtain c t ss2 where mv: "tick_move m dt (v, ss) = Some (c, t, ss2)"
    using assms(5) alive by (cases "tick_move m dt (v, ss)") (auto simp: Tick_def rv)
  define ch where "ch = (if rot then change_angle else 0) OR c"
  have E: "(if ch > 0 \<and> ch \<noteq> update t then (True, t\<lparr>update := update t OR ch\<rparr>, ss2) else (False, t, ss2)) = (b, s', ss')"
    using assms(5) alive by (simp add: Tick_def rv mv ch_def Let_def split: if_splits)
  have ps: "parts s' = parts t" using E by (auto split: if_splits)
  from tick_move_step [OF mv okv assms(2)] have u: "update t AND 0xEF = update v AND 0xEF"
    and c: "c = 0 \<and> parts t = parts v \<or> c AND change_pos = change_pos" by simp_all
  have t107: "update t AND 107 = update s AND 107" using flags_of_EF [OF u] v107 by simp
  have t11: "update t AND 11 = 0" using flags_of_EF [OF u] fv by simp
  have ch96: "ch AND 96 = 0"
    using tick_move_flags [OF mv] by (simp add: ch_def bit.conj_disj_distrib2 change_angle_def)
  show "update s' AND 96 = update s AND 96"
    using E ch96 flags_of_107 [OF t107] by (auto simp: bit.conj_disj_distrib2 split: if_splits)
  show "b \<or> update s' AND 107 = update s AND 107"
    using E t107 by (auto split: if_splits)
  show "parts s' = parts s \<or> b \<and> update s' AND change_pos \<noteq> 0"
  proof (cases "c AND change_pos = change_pos")
    case False
    with c ps pv show ?thesis by simp
  next
    case True
    have p: "ch AND 1 = 1"
      using True by (simp add: ch_def bit.conj_disj_distrib2 change_pos_def change_angle_def)
    have "update t AND 1 = 0"
    proof -
      have "update t AND 1 = (update t AND 11) AND 1" unfolding and.assoc by simp
      with t11 show ?thesis by simp
    qed
    with p have "ch \<noteq> update t" "ch \<noteq> 0" by auto
    then have "b" "s' = t\<lparr>update := update t OR ch\<rparr>" using E by (auto simp: word_gt_0)
    moreover have "(update t OR ch) AND 1 = 1"
      using p \<open>update t AND 1 = 0\<close> by (simp add: bit.conj_disj_distrib2)
    ultimately show ?thesis by (simp add: change_pos_def)
  qed
qed

section \<open>The border of the map\<close>

text \<open>A head on the map whose squared distance, in float, is below that of the death radius.\<close>

lemma axis_square:
  assumes "coord_ok x"
  defines "a \<equiv> x - fl game_radius"
  shows "isfin (a * a)" "0 \<le> fval (a * a)" "fval (a * a) \<le> 1073741824"
    "between 300 42900 x \<or> 453689984 \<le> fval (a * a)"
proof -
  have x: "between 0 43200 x" using assms(1) by (simp add: coord_ok_def)
  have g: "isfin (fl game_radius)" "fval (fl game_radius) = 21600" using fl_value [of 21600] by (simp_all add: game_radius_def)
  have xf: "isfin x" "0 \<le> fval x" "fval x \<le> 43200" using x by (simp_all add: between_def)
  have "between 21600 21600 (fl game_radius)" using between_fl [of 21600] by (simp add: game_radius_def)
  from between_diff [OF x this] have a: "between (- 21600) 21600 a" by (simp add: a_def)
  then have af: "isfin a" "- 21600 \<le> fval a" "fval a \<le> 21600" by (simp_all add: between_def)
  have "\<bar>fval a\<bar> * \<bar>fval a\<bar> \<le> 21600 * 21600" using af by (intro mult_mono) (simp_all add: abs_le_iff)
  then have sq: "0 \<le> fval a * fval a" "fval a * fval a \<le> 466560000" by simp_all
  then have top: "\<bar>fval a * fval a\<bar> \<le> top_pow single" using top_single by simp
  note m = mult_value [OF af(1) af(1) top]
  show "isfin (a * a)" using m by simp
  show "0 \<le> fval (a * a)" using rnd_of_ge [OF m(2) grid_0] sq by simp
  have "grid single (of_int 1 * 2 powi 30)" by (rule grid_single_dyadic) simp_all
  from rnd_of_le [OF m(2) this] show "fval (a * a) \<le> 1073741824" using sq by (simp add: power_int_def)
  have t: "\<bar>fval x - fval (fl game_radius)\<bar> \<le> top_pow single" using top_single xf g by simp
  note d = diff_value [OF xf(1) g(1) t]
  have g1: "grid single 21300" using grid_single_int [of 21300] by simp
  then have g2: "grid single (- 21300)" by simp
  have far: "21300 * 21300 \<le> fval a * fval a" if "\<not> between 300 42900 x"
  proof (cases "fval x < 300")
    case True
    then have "fval a \<le> - 21300" using rnd_of_le [OF d(2) g2] g True by (simp add: a_def)
    then show ?thesis using mult_mono [of 21300 "- fval a" 21300 "- fval a"] by simp
  next
    case False
    then have "42900 < fval x" using that xf by (simp add: between_def)
    then have "21300 \<le> fval a" using rnd_of_ge [OF d(2) g1] g by (simp add: a_def)
    then show ?thesis using mult_mono [of 21300 "fval a" 21300 "fval a"] by simp
  qed
  have gr: "grid single (of_int 14177812 * 2 powi 5)" by (rule grid_single_dyadic) simp_all
  show "between 300 42900 x \<or> 453689984 \<le> fval (a * a)"
  proof (cases "between 300 42900 x")
    case False
    then have "of_int 14177812 * 2 powi 5 \<le> fval a * fval a" using far by (simp add: power_int_def)
    from rnd_of_ge [OF m(2) gr this] show ?thesis by (simp add: power_int_def)
  qed simp
qed

lemma death_square: "isfin (fl (death_radius * death_radius))" "fval (fl (death_radius * death_radius)) = 453689984"
proof -
  have e: "fl (death_radius * death_radius) = Fin False 14177812 5" by code_simp
  show "isfin (fl (death_radius * death_radius))" "fval (fl (death_radius * death_radius)) = 453689984"
    unfolding e by (simp_all add: power_int_def)
qed

lemma inside_on_board:
  assumes "body_ok (parts s)" "parts s \<noteq> []" "\<not> out_of_bounds s"
  shows "on_board s"
proof (rule ccontr)
  assume n: "\<not> on_board s"
  have c: "coord_ok (get_head_x s)" "coord_ok (get_head_y s)"
    using assms(1,2) body_ok_nth [of "parts s" 0] by (simp_all add: get_head_x_def get_head_y_def)
  define a where "a = (get_head_x s - fl game_radius) * (get_head_x s - fl game_radius)"
  define b where "b = (get_head_y s - fl game_radius) * (get_head_y s - fl game_radius)"
  note A = axis_square [OF c(1), folded a_def] and B = axis_square [OF c(2), folded b_def]
  have "\<bar>fval a + fval b\<bar> \<le> top_pow single" using A(2,3) B(2,3) top_single by linarith
  note s = add_value [OF A(1) B(1) this]
  have gr: "grid single (of_int 14177812 * 2 powi 5)" by (rule grid_single_dyadic) simp_all
  have "453689984 \<le> fval a + fval b" using n A(2,4) B(2,4) by (auto simp: on_board_def)
  then have "453689984 \<le> fval (a + b)" using rnd_of_ge [OF s(2) gr] by (simp add: power_int_def)
  then have "fl (death_radius * death_radius) \<le> a + b"
    using le_value [OF death_square(1) s(1)] death_square(2) by simp
  then have "out_of_bounds s"
    by (simp add: out_of_bounds_def DistanceSquared_def get_head_def Let_def a_def b_def get_head_x_def get_head_y_def)
  with assms(3) show False by blast
qed

section \<open>The check of a head\<close>

text \<open>The snakes that the head of \<open>s\<close>, at \<open>a\<close>, runs into: those registered in a sector near the head.\<close>

definition runs_into :: "addr \<Rightarrow> BoundBoxPos \<Rightarrow> World \<Rightarrow> int \<times> int \<Rightarrow> bool" where
  "runs_into a check w ij \<longleftrightarrow> on_map (fst ij) (snd ij) \<and>
     (let k = nat (snd ij * 144 + fst ij)
      in Intersect (sec_box (sectors w ! k)) (mk_pos (pos_x check) (pos_y check) (fl move_step_distance)) \<and>
         (\<exists>r \<in> set (sec_snakes (sectors w ! k)). ref_snake r \<noteq> a \<and>
            (\<exists>s2. heap w (ref_snake r) = Some s2 \<and> Snake_Intersect check s2)))"

definition cache_ok :: "BoundBoxPos \<Rightarrow> (addr \<Rightarrow> Snake option) \<Rightarrow> u16 list \<Rightarrow> bool" where
  "cache_ok check h cs \<longleftrightarrow> (\<forall>b s2. h b = Some s2 \<longrightarrow> sn_id s2 \<in> set cs \<longrightarrow> \<not> Snake_Intersect check s2)"

definition ids_unique :: "(addr \<Rightarrow> Snake option) \<Rightarrow> bool" where
  "ids_unique h \<longleftrightarrow> (\<forall>b c s t. h b = Some s \<longrightarrow> h c = Some t \<longrightarrow> sn_id s = sn_id t \<longrightarrow> s = t)"

lemma check_boxes_spec:
  assumes "\<forall>r \<in> set bbs. h (ref_snake r) \<noteq> None" "ids_unique h" "cache_ok check h cs"
  shows "\<exists>hit cs'. check_boxes a check h bbs cs = Some (hit, cs') \<and>
    (hit \<longleftrightarrow> (\<exists>r \<in> set bbs. ref_snake r \<noteq> a \<and> (\<exists>s2. h (ref_snake r) = Some s2 \<and> Snake_Intersect check s2))) \<and>
    (\<not> hit \<longrightarrow> cache_ok check h cs')"
  using assms(1,3)
proof (induction bbs arbitrary: cs)
  case Nil
  then show ?case by (intro exI [of _ False]) simp
next
  case (Cons bb bbs)
  obtain s2 where s2: "h (ref_snake bb) = Some s2" using Cons.prems(1) by auto
  have r: "\<forall>r \<in> set bbs. h (ref_snake r) \<noteq> None" using Cons.prems(1) by simp
  show ?case
  proof (cases "ref_snake bb = a \<or> sn_id s2 \<in> set cs \<or> \<not> Snake_Intersect check s2")
    case False
    then show ?thesis using s2 by auto
  next
    case True
    have n: "ref_snake bb = a \<or> \<not> Snake_Intersect check s2"
      using True Cons.prems(2) s2 by (auto simp: cache_ok_def)
    define cs1 where "cs1 = (if ref_snake bb = a \<or> sn_id s2 \<in> set cs then cs else cs @ [sn_id s2])"
    have c: "cache_ok check h cs1"
    proof (cases "ref_snake bb = a \<or> sn_id s2 \<in> set cs")
      case False
      with True have "\<not> Snake_Intersect check s2" by blast
      moreover have "t = s2" if "h b = Some t" "sn_id t = sn_id s2" for b t
        using assms(2) that s2 unfolding ids_unique_def by blast
      ultimately show ?thesis using Cons.prems(2) False by (auto simp: cache_ok_def cs1_def)
    qed (use Cons.prems(2) in \<open>simp add: cs1_def\<close>)
    have e: "check_boxes a check h (bb # bbs) cs = check_boxes a check h bbs cs1"
      using True s2 by (auto simp: cs1_def)
    have "\<not> (ref_snake bb \<noteq> a \<and> (\<exists>s2. h (ref_snake bb) = Some s2 \<and> Snake_Intersect check s2))"
      using n s2 by simp
    with Cons.IH [OF r c] show ?thesis unfolding e by (simp only: set_simps ball_simps bex_simps) simp
  qed
qed

lemma owns_ids_unique: "owns es w \<Longrightarrow> ids_unique (heap w)"
proof (unfold ids_unique_def, intro allI impI)
  fix b c s t assume o: "owns es w" and h: "heap w b = Some s" "heap w c = Some t" "sn_id s = sn_id t"
  have e: "\<exists>i. (i, x) \<in> set es" if "heap w x = Some y" for x y
  proof -
    have "x \<in> snd ` set es" using o that by (simp add: owns_def)
    then show ?thesis by force
  qed
  obtain i j where ij: "(i, b) \<in> set es" "(j, c) \<in> set es" using e h by blast
  have "sn_id s = i" "sn_id t = j" using ownsD [OF o ij(1)] ownsD [OF o ij(2)] h by auto
  then show "s = t" using owns_unique [OF o ij] h by simp
qed

lemma check_cells_spec:
  assumes "owns es w" "cache_ok check (heap w) cs"
  shows "check_cells a check w ijs cs = Some (\<exists>ij \<in> set ijs. runs_into a check w ij)"
  using assms(2)
proof (induction ijs arbitrary: cs)
  case Nil
  then show ?case by simp
next
  case (Cons ij ijs)
  obtain i j where ij: "ij = (i, j)" by (cases ij)
  have g: "length (sectors w) = 20736" using assms(1) by (simp add: owns_def grid_refs_def)
  show ?case
  proof (cases "on_map i j")
    case False
    then show ?thesis using Cons by (simp add: ij runs_into_def)
  next
    case True
    let ?k = "nat (j * 144 + i)"
    have k: "get_sector (sectors w) (of_int i) (of_int j) = Some ?k" using get_sector_on_map [OF True g] .
    then have kl: "?k < length (sectors w)" by (rule get_sector_lt)
    show ?thesis
    proof (cases "Intersect (sec_box (sectors w ! ?k)) (mk_pos (pos_x check) (pos_y check) (fl move_step_distance))")
      case False
      then show ?thesis using Cons True k by (simp add: ij runs_into_def)
    next
      case int: True
      have "\<forall>r \<in> set (sec_snakes (sectors w ! ?k)). heap w (ref_snake r) \<noteq> None"
        using refs_alive [OF assms(1) kl] by blast
      from check_boxes_spec [OF this owns_ids_unique [OF assms(1)] Cons.prems, of a] obtain hit cs' where
        b: "check_boxes a check (heap w) (sec_snakes (sectors w ! ?k)) cs = Some (hit, cs')"
        and h: "hit \<longleftrightarrow> runs_into a check w ij" "\<not> hit \<longrightarrow> cache_ok check (heap w) cs'"
        using True int by (auto simp: runs_into_def ij)
      show ?thesis
      proof (cases hit)
        case True
        then show ?thesis using \<open>on_map i j\<close> k int b h(1) by (simp add: ij)
      next
        case False
        then show ?thesis using \<open>on_map i j\<close> k int b h Cons.IH [of cs'] by (simp add: ij)
      qed
    qed
  qed
qed

definition hits_someone :: "addr \<Rightarrow> Snake \<Rightarrow> World \<Rightarrow> bool" where
  "hits_someone a s w \<longleftrightarrow> (\<exists>sx sy. sector_coord (get_head_x s) = Some sx \<and> sector_coord (get_head_y s) = Some sy \<and>
     (\<exists>ij \<in> set (cells_around 1 sx sy).
        runs_into a (mk_pos (get_head_x s) (get_head_y s) (get_snake_body_part_radius s)) w ij))"

lemma update_snake_same: "heap w a = Some s \<Longrightarrow> update_snake a s (sectors w) w = w"
  by (simp add: update_snake_def fun_upd_idem)

lemma CheckSnakeBounds_spec:
  assumes "owns es w" "heap w a = Some s" "body_ok (parts s)" "parts s \<noteq> []"
  shows "CheckSnakeBounds a w = Some (if out_of_bounds s \<or> hits_someone a s w
    then update_snake a (s\<lparr>update := update s OR change_dying\<rparr>) (sectors w) w else w)"
proof (cases "out_of_bounds s")
  case True
  then show ?thesis using assms(2) by (simp add: CheckSnakeBounds_def update_snake_def Let_def)
next
  case False
  have c: "coord_ok (get_head_x s)" "coord_ok (get_head_y s)"
    using assms(3,4) body_ok_nth [of "parts s" 0] by (simp_all add: get_head_x_def get_head_y_def)
  from coord_sector [OF c(1)] coord_sector [OF c(2)] obtain sx sy where
    sc: "sector_coord (get_head_x s) = Some sx" "sector_coord (get_head_y s) = Some sy" by blast
  have "cache_ok check (heap w) []" for check by (simp add: cache_ok_def)
  note cc = check_cells_spec [OF assms(1) this, of a]
  show ?thesis using False assms(2) sc
    by (simp add: CheckSnakeBounds_def Let_def sector_coord_def [symmetric] mk_pos_def [of "get_head_x s"] cc
        hits_someone_def update_snake_def)
qed

section \<open>The tick\<close>

text \<open>
  Between two ticks every snake is ready for the next one: it is dying, or its head is on the board
  and what it last reported has been sent.
\<close>

definition ready :: "Snake \<Rightarrow> bool" where
  "ready s \<longleftrightarrow> tick_ready s \<and> (doomed s \<or> on_board s \<and> flushed s)"

definition each_snake :: "(addr \<Rightarrow> Snake \<Rightarrow> bool) \<Rightarrow> World \<Rightarrow> bool" where
  "each_snake P w \<longleftrightarrow> (\<forall>e \<in> set (snakes w). \<exists>s. heap w (snd e) = Some s \<and> P (snd e) s)"

text \<open>What the two loops of a tick leave alone.\<close>

definition same_frame :: "World \<Rightarrow> World \<Rightarrow> bool" where
  "same_frame w w' \<longleftrightarrow> snakes w' = snakes w \<and> ticks w' = ticks w \<and> frames w' = frames w \<and> dead w' = dead w \<and>
     lastSnakeId w' = lastSnakeId w \<and> next_addr w' = next_addr w \<and> config w' = config w \<and> rng w' = rng w"

lemma same_frame_refl [simp]: "same_frame w w"
  by (simp add: same_frame_def)

lemma same_frame_trans: "same_frame a b \<Longrightarrow> same_frame b c \<Longrightarrow> same_frame a c"
  by (simp add: same_frame_def)

lemma update_snake_simps [simp]:
  "same_frame w (update_snake a s ss w')  = same_frame w w'"
  "snakes (update_snake a s ss w) = snakes w" "heap (update_snake a s ss w) = (heap w)(a \<mapsto> s)"
  "sectors (update_snake a s ss w) = ss" "changes (update_snake a s ss w) = changes w"
  "same_frame w (w'\<lparr>changes := cs\<rparr>) = same_frame w w'"
  by (simp_all add: update_snake_def same_frame_def)

text \<open>
  What the tick of the world does to a snake's flags; \<open>c\<close> is whether the snake is among the changed ones.
\<close>

definition traced :: "bool \<Rightarrow> Snake \<Rightarrow> Snake \<Rightarrow> bool" where
  "traced c s0 s \<longleftrightarrow> bot s = bot s0 \<and> update s AND change_dead = update s0 AND change_dead \<and>
     (c \<or> update s AND 107 = update s0 AND 107)"

lemma traced_refl [simp]: "traced c s s"
  by (simp add: traced_def)

lemma traced_mono: "traced c s0 s \<Longrightarrow> (c \<Longrightarrow> d) \<Longrightarrow> traced d s0 s"
  by (auto simp: traced_def)

lemma traced_trans: "traced c s0 s1 \<Longrightarrow> traced c s1 s2 \<Longrightarrow> traced c s0 s2"
  by (auto simp: traced_def)

lemma dead_of_96: "x AND 96 = y AND (96 :: u8) \<Longrightarrow> x AND change_dead = y AND change_dead"
proof -
  assume e: "x AND 96 = y AND (96 :: u8)"
  have "x AND 64 = (x AND 96) AND 64" "y AND 64 = (y AND 96) AND 64" unfolding and.assoc by simp_all
  with e show ?thesis by (simp add: change_dead_def)
qed

lemma traced_dying: "c \<Longrightarrow> traced c s (s\<lparr>update := update s OR change_dying\<rparr>)"
  by (simp add: traced_def change_dead_def change_dying_def bit.conj_disj_distrib2)

lemma Tick_ready:
  assumes "snake_ok (s, ss)" "ready s" "libm_ok m" "0 \<le> dt" "dt \<le> 250"
  shows "\<exists>b s' ss'. Tick m dt (s, ss) = Some (b, s', ss') \<and> snake_step (s, ss) (s', ss') \<and> tick_ready s' \<and>
    (doomed s' \<or> on_board s' \<or> b \<and> update s' AND change_pos \<noteq> 0) \<and> traced b s s'"
proof (cases "doomed s")
  case True
  then have "Tick m dt (s, ss) = Some (False, s, ss)" by (simp add: Tick_def doomed_def)
  moreover have "snake_step (s, ss) (s, ss)" "tick_ready s" "traced False s s" using assms by (simp_all add: ready_def snake_step_refl)
  ultimately show ?thesis using True by blast
next
  case False
  then have r: "tick_ready s" "on_board s" "flushed s" using assms(2) by (simp_all add: ready_def)
  note nd = False
  from Tick_total [OF assms(1) r(1) _ _ assms(3-5)] r(2) obtain b s' ss' where
    t: "Tick m dt (s, ss) = Some (b, s', ss')" "tick_ready s'" by (auto simp: on_board_def)
  have st: "snake_step (s, ss) (s', ss')" by (rule Tick_step [OF assms(1,4) t(1)])
  note rp = Tick_reports [OF assms(1,4) r(3) nd t(1)]
  have "on_board s' \<or> b \<and> update s' AND change_pos \<noteq> 0"
    using rp(1) r(2) head_fields [of s' s] by (auto simp: on_board_def)
  moreover have "traced b s s'"
    using rp(3) dead_of_96 [OF rp(2)] st by (simp add: traced_def snake_step_def)
  ultimately show ?thesis using t st by blast
qed

text \<open>The first loop: \<open>vis\<close> are the entries already ticked.\<close>

definition ticking :: "World \<Rightarrow> SnakeMap \<Rightarrow> World \<Rightarrow> bool" where
  "ticking w0 vis w \<longleftrightarrow> same_frame w0 w \<and> owns (snakes w0) w \<and>
     (\<forall>e \<in> set (snakes w0). \<exists>s0 s. heap w0 (snd e) = Some s0 \<and> heap w (snd e) = Some s \<and>
        (if e \<in> set vis then tick_ready s \<and> (doomed s \<or> on_board s \<or> snd e \<in> set (changes w) \<and> update s AND change_pos \<noteq> 0) \<and>
           traced (snd e \<in> set (changes w)) s0 s
         else ready s \<and> s = s0))"

lemma tick_snake_ticking:
  assumes "ticking w0 vis w" "e \<in> set (snakes w0)" "e \<notin> set vis" "libm_ok m" "0 \<le> dt" "dt \<le> 250"
  shows "\<exists>w'. tick_snake m dt e w = Some w' \<and> ticking w0 (vis @ [e]) w'"
proof -
  obtain i a where e: "e = (i, a)" by (cases e)
  have o: "owns (snakes w0) w" and f: "same_frame w0 w" using assms(1) by (simp_all add: ticking_def)
  from assms(1-3) obtain s where s: "heap w a = Some s" "ready s" "heap w0 a = Some s" by (auto simp: ticking_def e)
  have ea: "(i, a) \<in> set (snakes w0)" using assms(2) by (simp add: e)
  have ok: "snake_ok (s, sectors w)" using ownsD [OF o ea] s(1) by auto
  from Tick_ready [OF ok s(2) assms(4-6)] obtain b s' ss' where
    t: "Tick m dt (s, sectors w) = Some (b, s', ss')" "snake_step (s, sectors w) (s', ss')" "tick_ready s'"
      "doomed s' \<or> on_board s' \<or> b \<and> update s' AND change_pos \<noteq> 0" "traced b s s'" by blast
  let ?cs = "if b then changes w @ [a] else changes w"
  let ?w = "(update_snake a s' ss' w)\<lparr>changes := ?cs\<rparr>"
  have r: "tick_snake m dt e w = Some ?w" using s(1) t(1) by (simp add: tick_snake_def e update_snake_def)
  have "owns (snakes w0) (update_snake a s' ss' w)" by (rule owns_step [OF o ea s(1) t(2)])
  moreover have "a \<in> snd ` set (snakes w0)" using ea by (simp add: rev_image_eqI)
  ultimately have "owns (snakes w0) ?w" using o by (intro owns_changes) (auto simp: owns_def)
  moreover have "\<exists>x0 x. heap w0 (snd c) = Some x0 \<and> heap ?w (snd c) = Some x \<and>
      (if c \<in> set (vis @ [e]) then tick_ready x \<and> (doomed x \<or> on_board x \<or> snd c \<in> set (changes ?w) \<and> update x AND change_pos \<noteq> 0) \<and>
         traced (snd c \<in> set (changes ?w)) x0 x
       else ready x \<and> x = x0)" if c: "c \<in> set (snakes w0)" for c
  proof (cases "c = e")
    case True
    have "traced (a \<in> set ?cs) s s'" by (rule traced_mono [OF t(5)]) simp
    then show ?thesis using True t(3,4) s(3) by (auto simp: e)
  next
    case False
    then have "snd c \<noteq> a" using owns_unique [OF o c ea] by (auto simp: e)
    moreover obtain x0 x where x: "heap w0 (snd c) = Some x0" "heap w (snd c) = Some x"
      "if c \<in> set vis then tick_ready x \<and> (doomed x \<or> on_board x \<or> snd c \<in> set (changes w) \<and> update x AND change_pos \<noteq> 0) \<and>
         traced (snd c \<in> set (changes w)) x0 x
       else ready x \<and> x = x0" using assms(1) c by (auto simp: ticking_def)
    moreover have "traced (snd c \<in> set ?cs) x0 x" if "traced (snd c \<in> set (changes w)) x0 x"
      by (rule traced_mono [OF that]) simp
    ultimately show ?thesis using False by (auto split: if_splits)
  qed
  ultimately have "ticking w0 (vis @ [e]) ?w" using f by (simp add: ticking_def)
  with r show ?thesis by blast
qed

text \<open>The second loop: \<open>vis\<close> are the changed snakes already checked.\<close>

definition bounding :: "World \<Rightarrow> addr list \<Rightarrow> World \<Rightarrow> bool" where
  "bounding w0 vis w \<longleftrightarrow> same_frame w0 w \<and> owns (snakes w0) w \<and> changes w = changes w0 \<and> sectors w = sectors w0 \<and>
     (\<forall>e \<in> set (snakes w0). \<exists>s0 s. heap w0 (snd e) = Some s0 \<and> heap w (snd e) = Some s \<and> tick_ready s \<and>
        (doomed s \<or> on_board s \<or> snd e \<in> set (changes w0) - set vis \<and> update s AND change_pos \<noteq> 0) \<and>
        traced (snd e \<in> set (changes w0)) s0 s)"

lemma dying_flag: "doomed (s\<lparr>update := update s OR change_dying\<rparr>)"
proof -
  have "((update s OR 32) AND 96) AND 32 = (update s OR 32) AND (32 :: u8)" unfolding and.assoc by simp
  also have "\<dots> = 32" by (simp add: bit.conj_disj_distrib2)
  finally have "(update s OR 32) AND 96 \<noteq> 0" by auto
  then show ?thesis by (simp add: doomed_def change_dying_def change_dead_def)
qed

lemma check_changed_bounding:
  assumes "bounding w0 vis w" "a \<in> set (changes w0)"
  shows "\<exists>w'. check_changed a w = Some w' \<and> bounding w0 (vis @ [a]) w'"
proof -
  have o: "owns (snakes w0) w" and f: "same_frame w0 w" and cs: "changes w = changes w0" "sectors w = sectors w0"
    using assms(1) by (simp_all add: bounding_def)
  have "a \<in> snd ` set (snakes w0)" using o assms(2) cs by (auto simp: owns_def)
  then obtain i where ea: "(i, a) \<in> set (snakes w0)" by force
  obtain s0 s where s: "heap w a = Some s" "tick_ready s"
    "doomed s \<or> on_board s \<or> a \<in> set (changes w0) - set vis \<and> update s AND change_pos \<noteq> 0"
    and s0: "heap w0 a = Some s0" "traced True s0 s"
    using assms(1,2) ea by (fastforce simp: bounding_def)
  have ok: "snake_ok (s, sectors w)" using ownsD [OF o ea] s(1) by auto
  then have ps: "body_ok (parts s)" "parts s \<noteq> []" using s(2) by (auto simp: tick_ready_def snake_ok_def)
  have keep: "bounding w0 (vis @ [a]) w'"
    if w': "w' = update_snake a t (sectors w) w" and t: "owns (snakes w0) w'" "tick_ready t" "doomed t \<or> on_board t" "traced True s t" for w' t
  proof -
    have "\<exists>x0 x. heap w0 (snd c) = Some x0 \<and> heap w' (snd c) = Some x \<and> tick_ready x \<and>
        (doomed x \<or> on_board x \<or> snd c \<in> set (changes w0) - set (vis @ [a]) \<and> update x AND change_pos \<noteq> 0) \<and>
        traced (snd c \<in> set (changes w0)) x0 x"
      if c: "c \<in> set (snakes w0)" for c
    proof (cases "snd c = a")
      case True
      have "traced True s0 t" by (rule traced_trans [OF s0(2) t(4)])
      then show ?thesis using True t(2,3) w' s0(1) assms(2) by simp
    next
      case False
      then show ?thesis using assms(1) c w' by (auto simp: bounding_def)
    qed
    then show ?thesis using t(1) f cs w' by (simp add: bounding_def)
  qed
  let ?u = "s\<lparr>update := update s OR change_dying\<rparr>"
  show ?thesis
  proof (cases "update s AND change_pos \<noteq> 0 \<and> (out_of_bounds s \<or> hits_someone a s w)")
    case True
    let ?w = "update_snake a ?u (sectors w) w"
    have r: "check_changed a w = Some ?w"
      using True CheckSnakeBounds_spec [OF o s(1) ps] s(1) by (simp add: check_changed_def)
    have "snake_step (s, sectors w) (?u, sectors w)" using ok by (simp add: snake_step_def snake_ok_fields)
    then have "owns (snakes w0) ?w" by (rule owns_step [OF o ea s(1)])
    moreover have "tick_ready ?u" using s(2) by (simp add: tick_ready_def consts_ok_def)
    ultimately show ?thesis using r keep [OF refl] dying_flag [of s] traced_dying [of True s] by blast
  next
    case False
    then have r: "check_changed a w = Some w"
      using CheckSnakeBounds_spec [OF o s(1) ps] s(1) by (auto simp: check_changed_def)
    have "doomed s \<or> on_board s" using False s(3) inside_on_board [OF ps] by blast
    with keep [of w s] o s update_snake_same [OF s(1)] r show ?thesis by (metis traced_refl)
  qed
qed

lemma TickSnakes_total:
  assumes "owns (snakes w) w" "each_snake (\<lambda>_. ready) w" "libm_ok m" "0 \<le> dt" "dt \<le> 250"
  shows "\<exists>w'. TickSnakes m dt w = Some w' \<and> same_frame w w' \<and> owns (snakes w') w' \<and>
    each_snake (\<lambda>a s. tick_ready s \<and> (doomed s \<or> on_board s) \<and>
      (\<exists>s0. heap w a = Some s0 \<and> traced (a \<in> set (changes w')) s0 s)) w'"
proof -
  have "ticking w [] w" using assms(1,2) by (fastforce simp: ticking_def each_snake_def)
  have step: "\<exists>s'. tick_snake m dt x s = Some s' \<and> ticking w (ys @ [x]) s'"
    if "snakes w = ys @ x # zs" "ticking w ys s" for ys x zs s
  proof (rule tick_snake_ticking [OF that(2) _ _ assms(3-5)])
    show "x \<in> set (snakes w)" by (simp add: that(1))
    have "distinct (map fst (ys @ x # zs))" using assms(1) by (simp only: owns_def that(1))
    then have "distinct (ys @ x # zs)" by (simp only: distinct_map)
    then show "x \<notin> set ys" by simp
  qed
  have "\<exists>w1. fold_opt (tick_snake m dt) (snakes w) w = Some w1 \<and> ticking w (snakes w) w1"
    by (rule fold_opt_prefix [where P = "ticking w"]) (erule (1) step, rule \<open>ticking w [] w\<close>)
  then obtain w1 where
    w1: "fold_opt (tick_snake m dt) (snakes w) w = Some w1" "ticking w (snakes w) w1" by blast
  have f1: "same_frame w w1" using w1(2) by (simp add: ticking_def)
  have "bounding w1 [] w1" using w1(2) by (fastforce simp: ticking_def bounding_def same_frame_def)
  have step2: "\<exists>s'. check_changed x s = Some s' \<and> bounding w1 (ys @ [x]) s'"
    if "changes w1 = ys @ x # zs" "bounding w1 ys s" for ys x zs s
    by (rule check_changed_bounding [OF that(2)]) (simp add: that(1))
  have "\<exists>w2. fold_opt check_changed (changes w1) w1 = Some w2 \<and> bounding w1 (changes w1) w2"
    by (rule fold_opt_prefix [where P = "bounding w1"]) (erule (1) step2, rule \<open>bounding w1 [] w1\<close>)
  then obtain w2 where
    w2: "fold_opt check_changed (changes w1) w1 = Some w2" "bounding w1 (changes w1) w2" by blast
  have "TickSnakes m dt w = Some w2" using w1(1) w2(1) by (simp add: TickSnakes_def)
  moreover have "same_frame w w2" using same_frame_trans [OF f1] w2(2) by (simp add: bounding_def)
  moreover have "owns (snakes w2) w2" using w2(2) by (simp add: bounding_def same_frame_def)
  moreover have "each_snake (\<lambda>a s. tick_ready s \<and> (doomed s \<or> on_board s) \<and>
      (\<exists>s0. heap w a = Some s0 \<and> traced (a \<in> set (changes w2)) s0 s)) w2"
    unfolding each_snake_def
  proof
    fix e assume "e \<in> set (snakes w2)"
    then have e: "e \<in> set (snakes w)" "e \<in> set (snakes w1)"
      using \<open>same_frame w w2\<close> f1 by (simp_all add: same_frame_def)
    from w2(2) e(2) obtain s1 s where s: "heap w1 (snd e) = Some s1" "heap w2 (snd e) = Some s" "tick_ready s"
      "doomed s \<or> on_board s" "traced (snd e \<in> set (changes w1)) s1 s" "changes w2 = changes w1"
      by (fastforce simp: bounding_def)
    from w1(2) e(1) s(1) obtain s0 where s0: "heap w (snd e) = Some s0" "traced (snd e \<in> set (changes w1)) s0 s1"
      by (auto simp: ticking_def)
    from traced_trans [OF s0(2) s(5)] show "\<exists>s. heap w2 (snd e) = Some s \<and> tick_ready s \<and> (doomed s \<or> on_board s) \<and>
        (\<exists>s0. heap w (snd e) = Some s0 \<and> traced (snd e \<in> set (changes w2)) s0 s)"
      using s s0(1) by auto
  qed
  ultimately show ?thesis by blast
qed

section \<open>Properties\<close>

lemma World_Tick_total:
  assumes "world_ok w" "each_snake (\<lambda>_. ready) w" "libm_ok m" "0 \<le> dt" "dt \<le> 242"
  shows "\<exists>w'. World_Tick m dt w = Some w' \<and> world_ok w' \<and> snakes w' = snakes w \<and>
    each_snake (\<lambda>a s. tick_ready s \<and> (doomed s \<or> on_board s) \<and>
      (\<exists>s0. heap w a = Some s0 \<and> traced (a \<in> set (changes w')) s0 s)) w' \<and>
    ticks w' = (ticks w + dt) mod 8 \<and> frames w' = frames w + of_int ((ticks w + dt) div 8) \<and>
    dead w' = dead w \<and> lastSnakeId w' = lastSnakeId w \<and> next_addr w' = next_addr w \<and> config w' = config w"
proof -
  let ?v = "w\<lparr>ticks := ticks w + dt\<rparr>"
  let ?n = "(ticks w + dt) div 8"
  have t: "0 \<le> ticks w" "ticks w < 8" and o: "owns (snakes w) w" using assms(1) by (simp_all add: world_ok_def)
  have n: "0 \<le> ?n" "?n * 8 \<le> 250" "ticks w + dt - ?n * 8 = (ticks w + dt) mod 8"
    using t assms(4,5) by (simp_all add: pos_imp_zdiv_nonneg_iff minus_div_mult_eq_mod)
  show ?thesis
  proof (cases "0 < ?n")
    case False
    then have "?n = 0" using n(1) by simp
    then have "(ticks w + dt) mod 8 = ticks w + dt" using n(3) by simp
    moreover have "World_Tick m dt w = Some ?v" using False by (simp add: World_Tick_def frame_time_ms_def)
    moreover have "0 \<le> (ticks w + dt) mod 8" "(ticks w + dt) mod 8 < 8" by simp_all
    moreover have "each_snake (\<lambda>a s. tick_ready s \<and> (doomed s \<or> on_board s) \<and>
        (\<exists>s0. heap w a = Some s0 \<and> traced (a \<in> set (changes w)) s0 s)) w"
      using assms(2) unfolding each_snake_def ready_def by (meson traced_refl)
    ultimately show ?thesis using o \<open>?n = 0\<close>
      by (intro exI [of _ ?v]) (simp add: world_ok_def each_snake_def)
  next
    case True
    have "owns (snakes ?v) ?v" "each_snake (\<lambda>_. ready) ?v" using o assms(2) by (simp_all add: each_snake_def)
    from TickSnakes_total [OF this assms(3), of "?n * 8"] n obtain w1 where
      w1: "TickSnakes m (?n * 8) ?v = Some w1" "same_frame ?v w1" "owns (snakes w1) w1"
        "each_snake (\<lambda>a s. tick_ready s \<and> (doomed s \<or> on_board s) \<and>
          (\<exists>s0. heap ?v a = Some s0 \<and> traced (a \<in> set (changes w1)) s0 s)) w1" by auto
    let ?w = "w1\<lparr>ticks := ticks w1 - ?n * 8, frames := frames w1 + of_int ?n\<rparr>"
    have "World_Tick m dt w = Some ?w" using True w1(1) by (simp add: World_Tick_def frame_time_ms_def Let_def)
    moreover have "ticks w1 - ?n * 8 = (ticks w + dt) mod 8" using w1(2) n(3) by (simp add: same_frame_def)
    moreover have "0 \<le> (ticks w + dt) mod 8" "(ticks w + dt) mod 8 < 8" by simp_all
    ultimately show ?thesis using w1(2-4)
      by (intro exI [of _ ?w]) (simp add: world_ok_def each_snake_def same_frame_def)
  qed
qed

end
