(* ===== verification/WorldInit.thy ===== *)
theory WorldInit
  imports WorldCreate
begin

text \<open>\<open>World::Init\<close>: the food of the sectors and the bots; the world starts in its invariant.\<close>

section \<open>Food\<close>

lemma density_total:
  assumes "uint (sec_x s) \<le> 143" "uint (sec_y s) \<le> 143"
  shows "\<exists>n. food_density s = Some n \<and> 5 \<le> n \<and> n \<le> 10"
proof -
  have c: "sector_count_along_edge div 2 = 72" "sector_count_along_edge * sector_count_along_edge = 20736"
    by (simp_all add: count_along_edge)
  define d where "d = (uint (sec_x s) - 72) * (uint (sec_x s) - 72) + (uint (sec_y s) - 72) * (uint (sec_y s) - 72)"
  have sq: "0 \<le> (n - 72) * (n - 72) \<and> (n - 72) * (n - 72) \<le> 5184" if "0 \<le> n" "n \<le> 143" for n :: int
    using product_bound [of "n - 72" 72 "n - 72" 72] that by (simp add: abs_le_iff)
  have d: "0 \<le> d" "d \<le> 10368" using sq [OF uint_ge_0 assms(1)] sq [OF uint_ge_0 assms(2)] by (simp_all add: d_def)
  then have u: "uint (of_int d :: u16) = d" by (simp add: uint_of_int_u16)
  have e: "exact (1 * d) (fl 1 * fl d)" by (intro exact_mult exact_fl) (use d in simp_all)
  have e2: "exact 20736 (fl 20736)" by (intro exact_fl) simp
  then have f: "isfin (fl 1 * fl d)" "fval (fl 1 * fl d) = of_int d" "isfin (fl 20736)" "fval (fl 20736) = 20736"
    using e e2 by (simp_all add: exact_def)
  have dr: "0 \<le> (of_int d :: real)" "of_int d \<le> (10368 :: real)" using d by simp_all
  have nz: "fval (fl 20736) \<noteq> 0" using f by simp
  have "\<bar>fval (fl 1 * fl d) / fval (fl 20736)\<bar> \<le> top_pow single" using f dr top_single by simp
  note q = divide_value [OF f(1,3) nz this]
  have half: "grid single (1 / 2)" using grid_single_dyadic [of 1 "- 1"] by (simp add: power_int_def)
  have q01: "0 \<le> fval (fl 1 * fl d / fl 20736)" "fval (fl 1 * fl d / fl 20736) \<le> 1 / 2"
    using rnd_of_ge [OF q(2) grid_0] rnd_of_le [OF q(2) half] f dr by simp_all
  have one: "isfin (fl 1)" "fval (fl 1) = 1" "isfin (fl 10)" "fval (fl 10) = 10"
    using fl_value [of 1] fl_value [of 10] by simp_all
  define p where "p = fl 1 - fl 1 * fl d / fl 20736"
  have "\<bar>fval (fl 1) - fval (fl 1 * fl d / fl 20736)\<bar> \<le> top_pow single" using one q01 top_single by simp
  note pv = diff_value [OF one(1) q(1) this, folded p_def]
  have g1: "grid single 1" using grid_single_int [of 1] by simp
  have p01: "1 / 2 \<le> fval p" "fval p \<le> 1"
    using rnd_of_ge [OF pv(2) half] rnd_of_le [OF pv(2) g1] one q01 by simp_all
  have "\<bar>fval p * fval (fl 10)\<bar> \<le> top_pow single" using one p01 top_single by simp
  note r = mult_value [OF pv(1) one(3) this]
  have "of_int 5 \<le> fval p * fval (fl 10)" "fval p * fval (fl 10) \<le> of_int 10" using one p01 by simp_all
  from rnd_between [OF r(2) this] r(1) have "between 5 10 (p * fl 10)" by (simp add: between_def)
  from cast_range_between [OF this, of 0 18446744073709551615] obtain n where
    n: "cast_range 0 18446744073709551615 (p * fl 10) = Some n" "5 \<le> n" "n \<le> 10" by auto
  have "food_density s = to_size (p * fl 10)"
    by (simp only: food_density_def c Let_def d_def [symmetric] u p_def)
  with n show ?thesis by (auto simp: to_size_def)
qed

lemma random_food_total:
  assumes "rand_ok m" "uint (sec_x s) \<le> 143" "uint (sec_y s) \<le> 143"
  shows "\<exists>f r'. random_food m s r = Some (f, r') \<and> food_size f \<le> 100 \<and> near_sector s f"
proof -
  obtain x where x: "NextRandom m sector_size r = Some (x, r + 1)" "0 \<le> x" "x < 300"
    using NextRandom_range [OF assms(1), of sector_size r] by (auto simp: sector_size_def)
  obtain y where y: "NextRandom m sector_size (r + 1) = Some (y, r + 2)" "0 \<le> y" "y < 300"
    using NextRandom_range [OF assms(1), of sector_size "r + 1"] by (auto simp: sector_size_def)
  obtain z where z: "NextRandom m 10 (r + 2) = Some (z, r + 3)" "0 \<le> z" "z < 10"
    using NextRandom_range [OF assms(1), of 10 "r + 2"] by auto
  obtain c where c: "NextRandom m 29 (r + 3) = Some (c, r + 4)"
    using NextRandom_range [OF assms(1), of 29 "r + 3"] by auto
  let ?f = "mk_food (of_int (uint (sec_x s) * sector_size + x)) (of_int (uint (sec_y s) * sector_size + y))
             (of_int (1 + z)) (of_int c)"
  have r: "random_food m s r = Some (?f, r + 4)" using x(1) y(1) z(1) c by (simp add: random_food_def)
  have p: "uint (of_int (uint n * sector_size + v) :: u16) = 300 * uint n + v"
    if "uint (n :: u8) \<le> 143" "0 \<le> v" "v < 300" for n v
  proof -
    have "0 \<le> uint n * sector_size + v" "uint n * sector_size + v < 65536"
      using that uint_ge_0 [of n] by (simp_all add: sector_size_def)
    from uint_of_int_u16 [OF this] show ?thesis by (simp add: sector_size_def)
  qed
  have "near_sector s ?f" unfolding near_sector_def mk_food_def Food.simps p [OF assms(2) x(2,3)] p [OF assms(3) y(2,3)]
    using x(2,3) y(2,3) by (simp add: abs_le_iff)
  moreover have "food_size ?f \<le> 100"
  proof -
    have "uint (of_int (1 + z) :: u8) = 1 + z" using z by (simp only: uint_word_of_int) simp
    then have "uint (of_int (1 + z) :: u8) \<le> uint (100 :: u8)" using z by simp
    then show ?thesis by (simp only: mk_food_def Food.simps word_le_def)
  qed
  ultimately show ?thesis using r by blast
qed

definition same_place :: "Sector \<Rightarrow> Sector \<Rightarrow> bool" where
  "same_place s t \<longleftrightarrow> sec_x t = sec_x s \<and> sec_y t = sec_y s \<and> sec_box t = sec_box s \<and> sec_snakes t = sec_snakes s"

text \<open>A sector in the grid gets between five and ten pieces of food, all of them inside it.\<close>

definition stocked :: "Sector \<Rightarrow> Sector \<Rightarrow> bool" where
  "stocked s t \<longleftrightarrow> same_place s t \<and> foods_ok t \<and> 5 \<le> length (sec_food t) \<and> length (sec_food t) \<le> 10"

lemma sort_keeps:
  assumes "sort_ok srt"
  shows "sec_x (Sector_Sort srt t) = sec_x t" "sec_y (Sector_Sort srt t) = sec_y t" "sec_box (Sector_Sort srt t) = sec_box t"
    "sec_snakes (Sector_Sort srt t) = sec_snakes t" "length (sec_food (Sector_Sort srt t)) = length (sec_food t)"
    "foods_ok t \<Longrightarrow> foods_ok (Sector_Sort srt t)"
proof -
  have m: "mset (srt (sec_food t)) = mset (sec_food t)" "sorted (map food_x (srt (sec_food t)))"
    using assms by (simp_all add: sort_ok_def)
  show "length (sec_food (Sector_Sort srt t)) = length (sec_food t)" using mset_eq_length [OF m(1)] by (simp add: Sector_Sort_def)
  show "foods_ok t \<Longrightarrow> foods_ok (Sector_Sort srt t)"
    using m(2) mset_eq_setD [OF m(1)] by (simp add: foods_ok_def near_sector_def Sector_Sort_def)
qed (simp_all add: Sector_Sort_def)

lemma init_sector_total:
  assumes "rand_ok m" "sort_ok (m_sort m)" "uint (sec_x s) \<le> 143" "uint (sec_y s) \<le> 143" "sec_food s = []"
  shows "\<exists>t r'. init_sector m (s, r) = Some (t, r') \<and> stocked s t"
proof -
  obtain n where n: "food_density s = Some n" "5 \<le> n" "n \<le> 10" using density_total [OF assms(3,4)] by blast
  let ?g = "\<lambda>(_ :: nat) (s, r). do { (f, r) \<leftarrow> random_food m s r; Some (Sector_Insert f s, r) }"
  let ?P = "\<lambda>is (t, r). same_place s t \<and> foods_ok t \<and> length (sec_food t) = length is"
  have step: "\<exists>st'. ?g i st = Some st' \<and> ?P (is @ [i]) st'" if "?P is st" for "is" i st
  proof -
    obtain t q where t: "st = (t, q)" by (cases st)
    from that have p: "same_place s t" "foods_ok t" "length (sec_food t) = length is" by (simp_all add: t)
    then have "uint (sec_x t) \<le> 143" "uint (sec_y t) \<le> 143" using assms(3,4) by (simp_all add: same_place_def)
    from random_food_total [OF assms(1) this, of q] obtain f r' where
      f: "random_food m t q = Some (f, r')" "food_size f \<le> 100" "near_sector t f" by blast
    have "foods_ok (Sector_Insert f t)" by (rule foods_ok_insert [OF p(2) f(2,3)])
    moreover have "same_place s (Sector_Insert f t)" using p(1) by (simp add: same_place_def Sector_Insert_def)
    moreover have "length (sec_food (Sector_Insert f t)) = Suc (length is)"
      using p(3) food_vec.ins_length [of f "sec_food t"] by (simp add: Sector_Insert_def)
    ultimately show ?thesis using f(1) by (simp add: t)
  qed
  have "\<exists>st'. fold_opt ?g [0..<n] (s, r) = Some st' \<and> ?P [0..<n] st'"
    by (rule fold_opt_prefix [where P = ?P]) (rule step, assumption, simp add: assms(5) same_place_def foods_ok_def)
  then obtain t r' where t: "fold_opt ?g [0..<n] (s, r) = Some (t, r')" "same_place s t" "foods_ok t" "length (sec_food t) = n"
    by auto
  have "init_sector m (s, r) = Some (Sector_Sort (m_sort m) t, r')" using n(1) t(1) by (simp add: init_sector_def)
  moreover have "stocked s (Sector_Sort (m_sort m) t)"
    using sort_keeps [OF assms(2), of t] t n by (auto simp: stocked_def same_place_def)
  ultimately show ?thesis by blast
qed

lemma init_sectors_total:
  assumes "rand_ok m" "sort_ok (m_sort m)" "\<forall>s \<in> set ss. uint (sec_x s) \<le> 143 \<and> uint (sec_y s) \<le> 143 \<and> sec_food s = []"
  shows "\<exists>ts r'. init_sectors m ss r = Some (ts, r') \<and> list_all2 stocked ss ts"
  using assms(3)
proof (induction ss arbitrary: r)
  case Nil
  then show ?case by simp
next
  case (Cons s ss)
  from init_sector_total [OF assms(1,2), of s r] Cons.prems obtain t r1 where
    t: "init_sector m (s, r) = Some (t, r1)" "stocked s t" by auto
  from Cons.IH [of r1] Cons.prems obtain ts r2 where
    "init_sectors m ss r1 = Some (ts, r2)" "list_all2 stocked ss ts" by auto
  with t show ?case by simp
qed

section \<open>The start\<close>

lemma InitSectors_place:
  assumes "s \<in> set InitSectors"
  shows "uint (sec_x s) \<le> 143" "uint (sec_y s) \<le> 143" "sec_food s = []" "sec_snakes s = []"
proof -
  from assms obtain i where i: "0 \<le> i" "i \<le> 20735" "s = mk_Sector (of_int (i mod 144)) (of_int (i div 144))"
    by (auto simp: InitSectors_def count_along_edge)
  have d: "0 \<le> i div 144" "i div 144 \<le> 143" using i(1,2) by (simp_all add: pos_imp_zdiv_nonneg_iff)
  have m: "0 \<le> i mod 144" "i mod 144 \<le> 143" using pos_mod_bound [of 144 i] by simp_all
  have u: "uint (of_int n :: u8) = n" if "0 \<le> n" "n \<le> 143" for n
    using that by (simp only: uint_word_of_int) simp
  show "uint (sec_x s) \<le> 143" "uint (sec_y s) \<le> 143" "sec_food s = []" "sec_snakes s = []"
    using d m by (simp_all add: i(3) mk_Sector_def Let_def u)
qed

lemma stocked_grid:
  assumes "list_all2 stocked InitSectors ts"
  shows "grid_refs {} ts"
proof -
  have l: "length ts = 20736" using list_all2_lengthD [OF assms] by simp
  have s: "stocked (InitSectors ! k) (ts ! k)" if "k < 20736" for k
    using list_all2_nthD [OF assms, of k] that by simp
  have "sec_snakes (ts ! k) = []" if "k < 20736" for k
    using s [OF that] snakes_InitSectors [OF that] by (simp add: stocked_def same_place_def)
  moreover have "grid_ok ts" using s l by (simp add: grid_ok_def stocked_def same_place_def)
  ultimately show ?thesis using s l by (simp add: grid_refs_def stocked_def)
qed

lemma le16: "uint (x :: u16) \<le> 65535"
  using uint_bounded [of x] by simp

lemma World_Init_total:
  assumes "libm_ok m" "rand_ok m" "put_ok put" "config_ok cfg" "sort_ok (m_sort m)"
  shows "\<exists>w. World_Init m put seed cfg empty_World = Some w \<and> world_ok w \<and> ids_below w \<and> each_snake (\<lambda>_. ready) w \<and> each_snake (\<lambda>_. fresh_bot) w \<and>
    length (snakes w) = unat (bots cfg) \<and> lastSnakeId w = bots cfg \<and> changes w = [] \<and> dead w = [] \<and> config w = cfg"
proof -
  from init_sectors_total [OF assms(2,5), of InitSectors seed] InitSectors_place obtain ts r where
    t: "init_sectors m InitSectors seed = Some (ts, r)" "list_all2 stocked InitSectors ts" by blast
  define w0 where "w0 = empty_World\<lparr>config := cfg, rng := r, sectors := ts\<rparr>"
  have u: "int (unat (bots cfg)) = uint (bots cfg)" by (rule uint_nat [symmetric])
  have f: "InitFood m (empty_World\<lparr>config := cfg, rng := seed, sectors := InitSectors\<rparr>) = Some w0"
    using t(1) by (simp add: InitFood_def w0_def)
  have w0: "snakes w0 = []" "heap w0 = (\<lambda>_. None)" "changes w0 = []" "dead w0 = []" "lastSnakeId w0 = 0" "ticks w0 = 0"
    "sectors w0 = ts" "config w0 = cfg" by (simp_all add: w0_def empty_World_def)
  have "world_ok w0" using stocked_grid [OF t(2)] by (simp add: world_ok_def owns_def w0)
  moreover have "ids_below w0" "each_snake (\<lambda>_. fresh_bot) w0" by (simp_all add: ids_below_def each_snake_def w0)
  moreover have "uint (lastSnakeId w0) + int (unat (bots cfg)) \<le> 65535"
    unfolding u by (simp add: w0 le16)
  moreover have "config_ok (config w0)" by (simp add: w0 assms(4))
  ultimately have "\<exists>w. SpawnNumSnakes m put (unat (bots cfg)) w0 = Some w \<and> world_ok w \<and> ids_below w \<and>
    each_snake (\<lambda>_. fresh_bot) w \<and> length (snakes w) = length (snakes w0) + unat (bots cfg) \<and>
    uint (lastSnakeId w) = uint (lastSnakeId w0) + int (unat (bots cfg)) \<and>
    config w = config w0 \<and> changes w = changes w0 \<and> dead w = dead w0"
    by (intro SpawnNumSnakes_total assms(1-3))
  then obtain w where w: "SpawnNumSnakes m put (unat (bots cfg)) w0 = Some w" "world_ok w" "ids_below w"
    "each_snake (\<lambda>_. fresh_bot) w" "length (snakes w) = unat (bots cfg)" "uint (lastSnakeId w) = int (unat (bots cfg))"
    "changes w = []" "dead w = []" "config w = cfg"
    unfolding w0 by (elim exE conjE) simp
  have "uint (lastSnakeId w) = uint (bots cfg)" using w(6) by (simp only: u)
  then have "lastSnakeId w = bots cfg" by (simp add: word_uint_eq_iff)
  moreover have "World_Init m put seed cfg empty_World = Some w"
    using f w(1) by (simp add: World_Init_def Let_def empty_World_def)
  moreover have "each_snake (\<lambda>_. ready) w" using w(4) by (auto simp: each_snake_def fresh_bot_def)
  ultimately show ?thesis using w by blast
qed

end
