(* ===== verification/WorldProps.thy ===== *)
theory WorldProps
  imports WorldInit
begin

text \<open>The properties of the world, each an application of the lemmas of its component.\<close>

text \<open>
  C11: the server starts. With the C library in its documented ranges, any sorting routine that
  sorts (it need not be stable) and lengths that fit the map,
  \<open>World::Init\<close> returns a world in its invariant with the wanted number of bots, every one ready for
  the first tick.
\<close>

theorem World_Init_defined:
  assumes "libm_ok m" "rand_ok m" "put_ok put" "config_ok cfg" "sort_ok (m_sort m)"
  shows "\<exists>w. World_Init m put seed cfg empty_World = Some w \<and> world_ok w \<and> ids_below w \<and> each_snake (\<lambda>_. ready) w \<and>
    length (snakes w) = unat (bots cfg) \<and> lastSnakeId w = bots cfg \<and> changes w = []"
  using World_Init_total [OF assms] by blast

text \<open>A world to evaluate on.\<close>

definition two_bots :: WorldConfig where
  "two_bots = \<lparr>bots = 2, snake_average_length = 2, snake_min_length = 2\<rparr>"

lemma two_bots_ok: "config_ok two_bots" "put_ok (#)" "rand_ok calm_libc" "sort_ok (m_sort calm_libc)"
  by (simp_all add: two_bots_def config_ok_def put_ok_def rand_ok_def sort_ok_def calm_libc_def)

theorem World_Init_defined_witness:
  "\<exists>w. World_Init calm_libc (#) 7 two_bots empty_World = Some w \<and> world_ok w \<and> length (snakes w) = 2"
  using World_Init_defined [OF calm_libc_ok two_bots_ok(3,2,1,4), of 7] by (auto simp: two_bots_def)

text \<open>
  C3: a tick of the world is safe. From a world in its invariant whose snakes are ready, every tick of
  at most 242 ms returns: nothing undefined happens in any snake's tick or in any collision check, and
  the invariant holds again. Afterwards each snake is dying or has its head on the board, and the
  elapsed milliseconds are split without loss into whole frames and a rest below one frame.
\<close>

theorem World_Tick_safe:
  assumes "world_ok w" "each_snake (\<lambda>_. ready) w" "libm_ok m" "0 \<le> dt" "dt \<le> 242"
  shows "\<exists>w'. World_Tick m dt w = Some w' \<and> world_ok w' \<and> snakes w' = snakes w \<and>
    each_snake (\<lambda>_ s. tick_ready s \<and> (doomed s \<or> on_board s)) w' \<and>
    ticks w' = (ticks w + dt) mod 8 \<and> frames w' = frames w + of_int ((ticks w + dt) div 8)"
proof -
  from World_Tick_total [OF assms] obtain w' where w': "World_Tick m dt w = Some w'" "world_ok w'" "snakes w' = snakes w"
    "each_snake (\<lambda>a s. tick_ready s \<and> (doomed s \<or> on_board s) \<and> (\<exists>s0. heap w a = Some s0 \<and> traced (a \<in> set (changes w')) s0 s)) w'"
    "ticks w' = (ticks w + dt) mod 8" "frames w' = frames w + of_int ((ticks w + dt) div 8)" by blast
  from w'(4) have "each_snake (\<lambda>_ s. tick_ready s \<and> (doomed s \<or> on_board s)) w'" by (auto simp: each_snake_def)
  with w' show ?thesis by blast
qed

theorem World_Tick_safe_witness:
  "\<exists>w w'. World_Init calm_libc (#) 7 two_bots empty_World = Some w \<and> World_Tick calm_libc 242 w = Some w' \<and>
     world_ok w' \<and> length (snakes w') = 2"
proof -
  from World_Init_total [OF calm_libc_ok two_bots_ok(3,2,1,4), of 7] obtain w where
    w: "World_Init calm_libc (#) 7 two_bots empty_World = Some w" "world_ok w" "each_snake (\<lambda>_. ready) w"
      "length (snakes w) = 2" by (auto simp: two_bots_def)
  from World_Tick_safe [OF w(2,3) calm_libc_ok, of 242] w(1,4) show ?thesis by auto
qed

text \<open>
  C9: the bounds check decides exactly what it is meant to. For a live snake with its parts on the map,
  \<open>CheckSnakeBounds\<close> sets \<open>change_dying\<close> if and only if the head is beyond the death radius or some
  other snake, registered in a sector near the head, is hit; the cache of checked ids changes nothing.
\<close>

theorem CheckSnakeBounds_decides:
  assumes "world_ok w" "heap w a = Some s" "body_ok (parts s)" "parts s \<noteq> []"
  shows "CheckSnakeBounds a w = Some (if out_of_bounds s \<or> hits_someone a s w
    then w\<lparr>heap := (heap w)(a \<mapsto> s\<lparr>update := update s OR change_dying\<rparr>)\<rparr> else w)"
proof -
  have "owns (snakes w) w" using assms(1) by (simp add: world_ok_def)
  from CheckSnakeBounds_spec [OF this assms(2-4)] show ?thesis by (simp add: update_snake_def)
qed

text \<open>Every snake of a started world is alive and on the map.\<close>

lemma live_entry:
  assumes "world_ok w" "each_snake (\<lambda>_. ready) w" "snakes w \<noteq> []"
  obtains a s where "heap w a = Some s" "body_ok (parts s)" "parts s \<noteq> []"
proof -
  obtain e where e: "e \<in> set (snakes w)" using assms(3) by (meson list.set_sel(1))
  with assms(2) obtain s where s: "heap w (snd e) = Some s" "ready s" by (auto simp: each_snake_def)
  have "owns (snakes w) w" "(fst e, snd e) \<in> set (snakes w)" using assms(1) e by (simp_all add: world_ok_def)
  from ownsD [OF this] s(1) have "snake_ok (s, sectors w)" by auto
  then have "parts s \<noteq> []" by (auto simp: snake_ok_def)
  with s show ?thesis by (intro that) (auto simp: ready_def tick_ready_def)
qed

theorem CheckSnakeBounds_decides_witness:
  "\<exists>w a w'. World_Init calm_libc (#) 7 two_bots empty_World = Some w \<and> heap w a \<noteq> None \<and>
     CheckSnakeBounds a w = Some w'"
proof -
  from World_Init_total [OF calm_libc_ok two_bots_ok(3,2,1,4), of 7] obtain w where
    w: "World_Init calm_libc (#) 7 two_bots empty_World = Some w" "world_ok w" "each_snake (\<lambda>_. ready) w"
      "length (snakes w) = 2" by (auto simp: two_bots_def)
  from w(4) have "snakes w \<noteq> []" by auto
  from live_entry [OF w(2,3) this] obtain a s where s: "heap w a = Some s" "body_ok (parts s)" "parts s \<noteq> []" .
  from CheckSnakeBounds_decides [OF w(2) s] w(1) s(1) show ?thesis by blast
qed

text \<open>
  C10: a removed snake leaves nothing behind. \<open>RemoveSnake\<close> always returns on a world in its invariant:
  the snake is gone from the map, no sector keeps a pointer to its box, no changed-list entry to it,
  the other snakes are untouched and the invariant holds.
\<close>

theorem RemoveSnake_clean:
  assumes "world_ok w"
  shows "\<exists>w'. RemoveSnake i w = Some w' \<and> world_ok w' \<and> GetSnake i w' = None \<and>
    snakes w' = filter (\<lambda>e. fst e \<noteq> i) (snakes w) \<and>
    (\<forall>k < length (sectors w'). i \<notin> ref_id ` set (sec_snakes (sectors w' ! k))) \<and>
    (\<forall>e \<in> set (snakes w'). heap w' (snd e) = heap w (snd e))"
proof -
  have "owns (snakes w) w" using assms by (simp add: world_ok_def)
  from RemoveSnake_total [OF this, of i] obtain w' where
    w': "RemoveSnake i w = Some w'" "owns (snakes w') w'" "snakes w' = filter (\<lambda>e. fst e \<noteq> i) (snakes w)"
      "\<forall>k < length (sectors w'). i \<notin> ref_id ` set (sec_snakes (sectors w' ! k))"
      "\<forall>e \<in> set (snakes w'). heap w' (snd e) = heap w (snd e)" "ticks w' = ticks w" by blast
  moreover have "GetSnake i w' = None" unfolding GetSnake_None w'(3) by auto
  ultimately show ?thesis using assms by (simp add: world_ok_def)
qed

theorem RemoveSnake_clean_witness:
  "\<exists>w w'. World_Init calm_libc (#) 7 two_bots empty_World = Some w \<and> RemoveSnake 1 w = Some w' \<and> world_ok w' \<and>
     GetSnake 1 w' = None"
proof -
  from World_Init_total [OF calm_libc_ok two_bots_ok(3,2,1,4), of 7] obtain w where
    w: "World_Init calm_libc (#) 7 two_bots empty_World = Some w" "world_ok w" by blast
  from RemoveSnake_clean [OF w(2), of 1] w(1) show ?thesis by blast
qed

text \<open>
  C12: a new snake enters the world. As long as the id counter has not wrapped, creating a snake and
  adding it returns a world in its invariant with exactly one more entry, under a fresh id.
\<close>

theorem spawn_keeps:
  assumes "world_ok w" "ids_below w" "lastSnakeId w < 65535" "each_snake (\<lambda>_. ready) w"
    and "libm_ok m" "rand_ok m" "config_ok (config w)" "put_ok put"
  shows "\<exists>w'. spawn_bot m put w = Some w' \<and> world_ok w' \<and> ids_below w' \<and> each_snake (\<lambda>_. ready) w' \<and>
    mset (snakes w') = add_mset (lastSnakeId w + 1, next_addr w) (mset (snakes w))"
proof -
  have "owns (snakes w) w" using assms(1) by (simp add: world_ok_def)
  from spawn_bot_total [OF this assms(2,3,5-8)] obtain w' where w': "spawn_bot m put w = Some w'" "joined True w w'" by blast
  from joined_inv [OF w'(2) assms(1-4)] w' show ?thesis by (auto simp: joined_def)
qed

theorem spawn_keeps_witness:
  "\<exists>w w'. World_Init calm_libc (#) 7 two_bots empty_World = Some w \<and> spawn_bot calm_libc (#) w = Some w' \<and>
     world_ok w' \<and> size (mset (snakes w')) = 3"
proof -
  from World_Init_total [OF calm_libc_ok two_bots_ok(3,2,1,4), of 7] obtain w where
    w: "World_Init calm_libc (#) 7 two_bots empty_World = Some w" "world_ok w" "ids_below w" "each_snake (\<lambda>_. ready) w"
      "length (snakes w) = 2" "lastSnakeId w = 2" "config w = two_bots" by (auto simp: two_bots_def)
  have l: "lastSnakeId w < 65535" and c: "config_ok (config w)" using two_bots_ok(1) by (simp_all add: w)
  from spawn_keeps [OF w(2,3) l w(4) calm_libc_ok two_bots_ok(3) c two_bots_ok(2)] obtain w' where
    w': "spawn_bot calm_libc (#) w = Some w'" "world_ok w'"
      "mset (snakes w') = add_mset (lastSnakeId w + 1, next_addr w) (mset (snakes w))" by blast
  have "size (mset (snakes w')) = 3" unfolding w'(3) by (simp add: w(5))
  with w(1) w' show ?thesis by blast
qed

end
