(* ===== verification/PacketFormat.thy ===== *)
theory PacketFormat
  imports Snakes
begin

text \<open>
  \<open>src/src/packet/p_format.h\<close>, \<open>p_format.cc\<close> and the base of all packets, \<open>p_base.h\<close>, \<open>p_base.cc\<close>:
  how values become bytes. A stream of output is the list of its bytes; a write whose conversion
  from floating point is undefined is \<open>None\<close>. \<open>double\<close> values are the same model type as \<open>float\<close>,
  computed with the format \<open>double\<close>.
\<close>

type_synonym bytes = "u8 list"

section \<open>Writers\<close>

definition write_uint8 :: "u8 \<Rightarrow> bytes" where
  "write_uint8 v = [v]"

definition write_uint16 :: "u16 \<Rightarrow> bytes" where
  "write_uint16 v = [ucast (drop_bit 8 v), ucast v]"

definition write_uint24 :: "u32 \<Rightarrow> bytes" where
  "write_uint24 v = [ucast (drop_bit 16 v), ucast (drop_bit 8 v), ucast v]"

text \<open>The length goes out as one byte, all the characters follow.\<close>

definition write_string :: "string \<Rightarrow> bytes" where
  "write_string s = of_nat (length s) # map of_char s"

definition M_2PI :: flt where
  "M_2PI = fl_mul double (dlit 2 1) (dlit 314159265358979323846 100000000000000000000)"

definition write_fp8 :: "flt \<Rightarrow> bytes option" where
  "write_fp8 v = map_option write_uint8 (to_u8 (fl 10 * v))"

definition write_fp16_2 :: "flt \<Rightarrow> bytes option" where
  "write_fp16_2 v = map_option write_uint16 (to_u16 (fl 100 * v))"

definition write_fp16_3 :: "flt \<Rightarrow> bytes option" where
  "write_fp16_3 v = map_option write_uint16 (to_u16 (fl 1000 * v))"

definition write_fp24 :: "flt \<Rightarrow> bytes option" where
  "write_fp24 v = map_option write_uint24 (to_u32 (v * fl 0xFFFFFF))"

definition write_ang8 :: "flt \<Rightarrow> bytes option" where
  "write_ang8 v = map_option write_uint8 (to_u8 (fl_div double (fl 256 * v) M_2PI))"

definition write_ang24 :: "flt \<Rightarrow> bytes option" where
  "write_ang24 v = map_option write_uint24 (to_u32 (fl_div double (fl 0xFFFFFF * v) M_2PI))"

text \<open>\<open>out << a << b << c\<close>.\<close>

definition puts :: "bytes option list \<Rightarrow> bytes option" where
  "puts ws = map_option concat (those ws)"

section \<open>The base packet\<close>

definition packet_t_init :: u8 where "packet_t_init = of_char (CHR ''a'')"
definition packet_t_rot_ccw_wang_sp :: u8 where "packet_t_rot_ccw_wang_sp = of_char (CHR ''E'')"
definition packet_t_rot_ccw_wang :: u8 where "packet_t_rot_ccw_wang = of_char (CHR ''E'')"
definition packet_t_rot_ccw_ang_wang :: u8 where "packet_t_rot_ccw_ang_wang = of_char (CHR ''3'')"
definition packet_t_rot_ccw_sp :: u8 where "packet_t_rot_ccw_sp = of_char (CHR ''3'')"
definition packet_t_rot_ccw_ang_wang_sp :: u8 where "packet_t_rot_ccw_ang_wang_sp = of_char (CHR ''e'')"
definition packet_t_rot_ccw_ang_sp :: u8 where "packet_t_rot_ccw_ang_sp = of_char (CHR ''e'')"
definition packet_t_rot_ccw_ang :: u8 where "packet_t_rot_ccw_ang = of_char (CHR ''e'')"
definition packet_t_rot_cw_ang_wang_sp :: u8 where "packet_t_rot_cw_ang_wang_sp = of_char (CHR ''4'')"
definition packet_t_rot_cw_wang_sp :: u8 where "packet_t_rot_cw_wang_sp = of_char (CHR ''4'')"
definition packet_t_rot_cw_wang :: u8 where "packet_t_rot_cw_wang = of_char (CHR ''4'')"
definition packet_t_rot_cw_ang_wang :: u8 where "packet_t_rot_cw_ang_wang = of_char (CHR ''5'')"
definition packet_t_set_fullness :: u8 where "packet_t_set_fullness = of_char (CHR ''h'')"
definition packet_t_rem_part :: u8 where "packet_t_rem_part = of_char (CHR ''r'')"
definition packet_t_mov :: u8 where "packet_t_mov = of_char (CHR ''g'')"
definition packet_t_mov_rel :: u8 where "packet_t_mov_rel = of_char (CHR ''G'')"
definition packet_t_inc :: u8 where "packet_t_inc = of_char (CHR ''n'')"
definition packet_t_inc_rel :: u8 where "packet_t_inc_rel = of_char (CHR ''N'')"
definition packet_t_leaderboard :: u8 where "packet_t_leaderboard = of_char (CHR ''l'')"
definition packet_t_end :: u8 where "packet_t_end = of_char (CHR ''v'')"
definition packet_t_add_sector :: u8 where "packet_t_add_sector = of_char (CHR ''W'')"
definition packet_t_rem_sector :: u8 where "packet_t_rem_sector = of_char (CHR ''w'')"
definition packet_t_highscore :: u8 where "packet_t_highscore = of_char (CHR ''m'')"
definition packet_t_pong :: u8 where "packet_t_pong = of_char (CHR ''p'')"
definition packet_t_minimap :: u8 where "packet_t_minimap = of_char (CHR ''u'')"
definition packet_t_snake :: u8 where "packet_t_snake = of_char (CHR ''s'')"
definition packet_t_set_food :: u8 where "packet_t_set_food = of_char (CHR ''F'')"
definition packet_t_spawn_food :: u8 where "packet_t_spawn_food = of_char (CHR ''b'')"
definition packet_t_add_food :: u8 where "packet_t_add_food = of_char (CHR ''f'')"
definition packet_t_eat_food :: u8 where "packet_t_eat_food = of_char (CHR ''c'')"
definition packet_t_kill :: u8 where "packet_t_kill = of_char (CHR ''k'')"
definition packet_d_reset :: u8 where "packet_d_reset = of_char (CHR ''0'')"
definition packet_d_draw :: u8 where "packet_d_draw = of_char (CHR ''!'')"

record PacketBase =
  client_time :: u16
  packet_type :: u8

definition mk_PacketBase :: "u8 \<Rightarrow> u16 \<Rightarrow> PacketBase" where
  "mk_PacketBase t clock = \<lparr>client_time = clock, packet_type = t\<rparr>"

definition out_PacketBase :: "'a PacketBase_scheme \<Rightarrow> bytes" where
  "out_PacketBase p = write_uint16 (client_time p) @ write_uint8 (packet_type p)"

definition size_PacketBase :: "'a PacketBase_scheme \<Rightarrow> nat" where
  "size_PacketBase p = 3"

section \<open>Incoming packet types\<close>

definition in_packet_t_angle :: u8 where "in_packet_t_angle = 0"
definition in_packet_t_ping :: u8 where "in_packet_t_ping = 251"
definition in_packet_t_rot_left :: u8 where "in_packet_t_rot_left = 108"
definition in_packet_t_rot_right :: u8 where "in_packet_t_rot_right = 114"
definition in_packet_t_start_acc :: u8 where "in_packet_t_start_acc = 253"
definition in_packet_t_stop_acc :: u8 where "in_packet_t_stop_acc = 254"
definition in_packet_t_username_skin :: u8 where "in_packet_t_username_skin = of_char (CHR ''s'')"
definition in_packet_t_victory_message :: u8 where "in_packet_t_victory_message = 255"

lemmas in_packet_defs = in_packet_t_angle_def in_packet_t_ping_def in_packet_t_rot_left_def
  in_packet_t_rot_right_def in_packet_t_start_acc_def in_packet_t_stop_acc_def
  in_packet_t_username_skin_def in_packet_t_victory_message_def

text \<open>\<open>in.get(c)\<close> on a stream whose unread bytes are given; at the end the target stays as it is.\<close>

definition in_get :: "u8 \<Rightarrow> bytes \<Rightarrow> u8 \<times> bytes" where
  "in_get old bs = (case bs of [] \<Rightarrow> (old, []) | b # bs \<Rightarrow> (b, bs))"

section \<open>Reading back\<close>

text \<open>What a client reads from the bytes: big-endian numbers of one, two or three bytes.\<close>

fun read8 :: "bytes \<Rightarrow> (u8 \<times> bytes) option" where
  "read8 (a # bs) = Some (a, bs)"
| "read8 _ = None"

fun read16 :: "bytes \<Rightarrow> (u16 \<times> bytes) option" where
  "read16 (a # b # bs) = Some (push_bit 8 (ucast a) OR ucast b, bs)"
| "read16 _ = None"

fun read24 :: "bytes \<Rightarrow> (u32 \<times> bytes) option" where
  "read24 (a # b # c # bs) = Some (push_bit 16 (ucast a) OR push_bit 8 (ucast b) OR ucast c, bs)"
| "read24 _ = None"

fun read_chars :: "nat \<Rightarrow> bytes \<Rightarrow> (string \<times> bytes) option" where
  "read_chars 0 bs = Some ([], bs)"
| "read_chars (Suc n) [] = None"
| "read_chars (Suc n) (b # bs) = do { (cs, r) \<leftarrow> read_chars n bs; Some (char_of (unat b) # cs, r) }"

definition read_string :: "bytes \<Rightarrow> (string \<times> bytes) option" where
  "read_string bs = do { (n, r) \<leftarrow> read8 bs; read_chars (unat n) r }"

lemma read8_write [simp]: "read8 (write_uint8 v @ bs) = Some (v, bs)"
  by (simp add: write_uint8_def)

lemma split16: "push_bit 8 (ucast (ucast (drop_bit 8 (v :: u16)) :: u8)) OR ucast (ucast v :: u8) = v"
proof (rule bit_word_eqI)
  fix n assume "n < LENGTH(16)"
  then show "bit (push_bit 8 (ucast (ucast (drop_bit 8 v) :: u8)) OR ucast (ucast v :: u8) :: u16) n = bit v n"
    by (cases "n < 8") (auto simp: bit_simps)
qed

lemma read16_write [simp]: "read16 (write_uint16 v @ bs) = Some (v, bs)"
  by (simp add: write_uint16_def split16)

lemma split24: "push_bit 16 (ucast (ucast (drop_bit 16 (v :: u32)) :: u8)) OR push_bit 8 (ucast (ucast (drop_bit 8 v) :: u8))
    OR ucast (ucast v :: u8) = take_bit 24 v"
proof (rule bit_word_eqI)
  fix n assume n: "n < LENGTH(32)"
  consider "n < 8" | "8 \<le> n" "n < 16" | "16 \<le> n" "n < 24" | "24 \<le> n" by linarith
  then show "bit (push_bit 16 (ucast (ucast (drop_bit 16 v) :: u8)) OR push_bit 8 (ucast (ucast (drop_bit 8 v) :: u8))
    OR ucast (ucast v :: u8) :: u32) n = bit (take_bit 24 v) n"
    using n by cases (auto simp: bit_simps)
qed

lemma read24_write [simp]: "read24 (write_uint24 v @ bs) = Some (take_bit 24 v, bs)"
  by (simp add: write_uint24_def split24)

lemma char_byte: "char_of (unat (of_char c :: u8)) = c"
proof -
  have "(of_char c :: nat) mod 256 = of_char (char_of (of_char c :: nat))" by (simp only: of_char_of)
  then have m: "(of_char c :: nat) mod 256 = of_char c" by simp
  have "unat (of_char c :: u8) = unat (of_nat (of_char c :: nat) :: u8)" by (simp only: of_nat_of_char)
  also have "\<dots> = (of_char c :: nat) mod 256" by (simp only: unat_of_nat take_bit_eq_mod) simp
  finally show ?thesis using m by simp
qed

lemma read_chars_write: "read_chars (length s) (map of_char s @ bs) = Some (s, bs)"
  by (induction s) (simp_all add: char_byte)

lemma read_string_write:
  assumes "length s < 256"
  shows "read_string (write_string s @ bs) = Some (s, bs)"
proof -
  have "unat (of_nat (length s) :: u8) = length s" using assms by (simp add: unat_of_nat take_bit_nat_eq_self)
  then show ?thesis using read_chars_write by (simp add: read_string_def write_string_def)
qed

section \<open>Lengths\<close>

lemma write_lengths [size_facts]:
  "length (write_uint8 a) = 1" "length (write_uint16 b) = 2" "length (write_uint24 c) = 3"
  "length (write_string s) = 1 + length s" "length (out_PacketBase p) = 3"
  by (simp_all add: write_uint8_def write_uint16_def write_uint24_def write_string_def out_PacketBase_def)

lemma fp_lengths [size_facts]:
  "write_fp8 v = Some bs \<Longrightarrow> length bs = 1" "write_fp16_2 v = Some bs \<Longrightarrow> length bs = 2"
  "write_fp16_3 v = Some bs \<Longrightarrow> length bs = 2" "write_fp24 v = Some bs \<Longrightarrow> length bs = 3"
  "write_ang8 v = Some bs \<Longrightarrow> length bs = 1" "write_ang24 v = Some bs \<Longrightarrow> length bs = 3"
  by (auto simp: write_fp8_def write_fp16_2_def write_fp16_3_def write_fp24_def write_ang8_def write_ang24_def
      write_uint8_def write_uint16_def write_uint24_def)

lemma puts_Nil [simp]: "puts [] = Some []"
  by (simp add: puts_def)

lemma puts_Cons: "puts (w # ws) = do { a \<leftarrow> w; b \<leftarrow> puts ws; Some (a @ b) }"
  by (cases w; cases "those ws") (auto simp: puts_def)

lemma puts_Some_Cons [simp]: "puts (Some a # ws) = map_option (\<lambda>b. a @ b) (puts ws)"
  by (simp add: puts_Cons map_option_case split: option.splits)

lemma puts_append: "puts (us @ ws) = do { a \<leftarrow> puts us; b \<leftarrow> puts ws; Some (a @ b) }"
  by (induction us) (auto simp: puts_Cons split: bind_splits)

end
