(* ===== verification/StreambufArray.thy ===== *)
theory StreambufArray
  imports PacketFormat
begin

text \<open>
  \<open>src/src/server/streambuf_array.h\<close>, a stream buffer over a fixed array, and the way
  \<open>src/src/server/server.h\<close> uses it to send a packet.

  The pointers of \<open>std::streambuf\<close> are offsets into the array; \<open>eback\<close> and \<open>pbase\<close> always point to
  its start. A write outside the array is undefined (\<open>None\<close>); the exception \<open>std::length_error\<close> is a
  value of the sum type.
\<close>

section \<open>State\<close>

record streambuf_array =
  buffer :: bytes
  gptr :: nat
  egptr :: nat
  pptr :: nat
  epptr :: nat

datatype length_error = Too_short | Too_long

text \<open>The array is not initialised: \<open>raw\<close> is what it holds.\<close>

definition sb_new :: "bytes \<Rightarrow> streambuf_array" where
  "sb_new raw = \<lparr>buffer = raw, gptr = 0, egptr = 0, pptr = 0, epptr = length raw\<rparr>"

definition sb_size :: "streambuf_array \<Rightarrow> nat" where
  "sb_size b = pptr b - gptr b"

definition sb_max_size :: "streambuf_array \<Rightarrow> nat" where
  "sb_max_size b = length (buffer b)"

definition sb_data :: "streambuf_array \<Rightarrow> bytes" where
  "sb_data b = take (pptr b - gptr b) (drop (gptr b) (buffer b))"

section \<open>Operations\<close>

text \<open>
  \<open>reserve\<close> moves the contents to the front of the array but leaves the pointers where they were.
\<close>

definition sb_reserve :: "nat \<Rightarrow> streambuf_array \<Rightarrow> length_error + streambuf_array" where
  "sb_reserve n b =
    (let gnext = gptr b; pnext = pptr b; pend = epptr b
     in if n \<le> pend - pnext then Inr b
        else
          let moved = pnext - gnext;
              b' = (if gnext > 0 then b\<lparr>buffer := take moved (drop gnext (buffer b)) @ drop moved (buffer b)\<rparr> else b);
              pnext = (if gnext > 0 then moved else pnext)
          in if n > pend - pnext then
               (if n \<le> sb_max_size b' \<and> pnext \<le> sb_max_size b' - n then Inl Too_short else Inl Too_long)
             else Inr b')"

definition sb_prepare :: "nat \<Rightarrow> streambuf_array \<Rightarrow> length_error + streambuf_array" where
  "sb_prepare n b = sb_reserve n b"

definition sb_commit :: "nat \<Rightarrow> streambuf_array \<Rightarrow> streambuf_array" where
  "sb_commit n b =
    (let n = (if pptr b + n > epptr b then epptr b - pptr b else n)
     in b\<lparr>pptr := pptr b + n, egptr := pptr b + n\<rparr>)"

definition sb_consume :: "nat \<Rightarrow> streambuf_array \<Rightarrow> streambuf_array" where
  "sb_consume n b =
    (let b = (if egptr b < pptr b then b\<lparr>egptr := pptr b\<rparr> else b);
         n = (if gptr b + n > pptr b then pptr b - gptr b else n)
     in b\<lparr>gptr := gptr b + n\<rparr>)"

text \<open>The result is the next byte, or \<open>None\<close> at the end.\<close>

definition sb_underflow :: "streambuf_array \<Rightarrow> u8 option \<times> streambuf_array" where
  "sb_underflow b =
    (if gptr b < pptr b then (Some (buffer b ! gptr b), b\<lparr>egptr := pptr b\<rparr>) else (None, b))"

definition sb_store :: "u8 \<Rightarrow> streambuf_array \<Rightarrow> streambuf_array option" where
  "sb_store c b =
    (if pptr b < length (buffer b) then Some (b\<lparr>buffer := (buffer b)[pptr b := c], pptr := pptr b + 1\<rparr>) else None)"

definition sb_overflow :: "u8 \<Rightarrow> streambuf_array \<Rightarrow> (length_error + streambuf_array) option" where
  "sb_overflow c b =
    (case (if pptr b = epptr b then (if gptr b > 0 then sb_reserve (gptr b) b else Inl Too_short) else Inr b) of
       Inl e \<Rightarrow> Some (Inl e)
     | Inr b' \<Rightarrow> map_option Inr (sb_store c b'))"

text \<open>\<open>std::streambuf::sputc\<close>.\<close>

definition sputc :: "u8 \<Rightarrow> streambuf_array \<Rightarrow> (length_error + streambuf_array) option" where
  "sputc c b = (if pptr b < epptr b then map_option Inr (sb_store c b) else sb_overflow c b)"

text \<open>
  \<open>std::ostream::put\<close>: an exception of the buffer only sets \<open>badbit\<close>, and a stream that is bad writes
  nothing.
\<close>

definition os_put :: "u8 \<Rightarrow> bool \<times> streambuf_array \<Rightarrow> (bool \<times> streambuf_array) option" where
  "os_put c st = (case st of (bad, b) \<Rightarrow>
     if bad then Some (bad, b)
     else do {
       r \<leftarrow> sputc c b;
       Some (case r of Inl e \<Rightarrow> (True, b) | Inr b' \<Rightarrow> (False, b')) })"

definition os_write :: "bytes \<Rightarrow> bool \<times> streambuf_array \<Rightarrow> (bool \<times> streambuf_array) option" where
  "os_write bs st = fold_opt os_put bs st"

section \<open>How much to read\<close>

text \<open>
  The two functions \<open>read_size_helper\<close> with which Asio asks how much it should read into a buffer: the friend
  of the class and the template at namespace level. The sizes of a well-formed buffer never exceed its
  maximum, so that the subtractions do not wrap.
\<close>

definition read_size_friend :: "streambuf_array \<Rightarrow> nat \<Rightarrow> nat" where
  "read_size_friend b max_size =
    min (max 512 (length (buffer b) - sb_size b)) (min max_size (sb_max_size b - sb_size b))"

definition read_size_helper :: "streambuf_array \<Rightarrow> nat \<Rightarrow> nat" where
  "read_size_helper b max_size = min 512 (min max_size (sb_max_size b - sb_size b))"

section \<open>Sending (server.h)\<close>

text \<open>
  The bytes \<open>WSPPServer::send\<close> hands to the connection. Packets above 128 bytes go through a
  \<open>boost::asio::streambuf\<close>, which is not part of the sources: \<open>asio max bs\<close> are the bytes it holds
  after \<open>bs\<close> were written to one of maximal size \<open>max\<close>.
\<close>

definition send_bytes :: "(nat \<Rightarrow> bytes \<Rightarrow> bytes) \<Rightarrow> bytes \<Rightarrow> ('p \<Rightarrow> bytes option) \<Rightarrow> ('p \<Rightarrow> nat) \<Rightarrow> 'p \<Rightarrow> bytes option" where
  "send_bytes asio raw enc get_size packet = do {
     bs \<leftarrow> enc packet;
     let max = get_size packet;
     if max \<le> 128 then do {
       (bad, b) \<leftarrow> os_write bs (False, sb_new raw);
       Some (sb_data b) }
     else Some (asio max bs) }"

text \<open>What is documented of \<open>asio::streambuf\<close>: up to its maximal size it holds what was written.\<close>

definition asio_ok :: "(nat \<Rightarrow> bytes \<Rightarrow> bytes) \<Rightarrow> bool" where
  "asio_ok asio \<longleftrightarrow> (\<forall>m bs. length bs \<le> m \<longrightarrow> asio m bs = bs)"

section \<open>Lemmas\<close>

definition sb_ok :: "streambuf_array \<Rightarrow> bool" where
  "sb_ok b \<longleftrightarrow> gptr b \<le> egptr b \<and> egptr b \<le> pptr b \<and> pptr b \<le> epptr b \<and> epptr b = length (buffer b)"

text \<open>Both stay within the free part of the buffer, and they agree on buffers of up to 512 bytes.\<close>

lemma read_size_fits: "read_size_friend b n \<le> sb_max_size b - sb_size b" "read_size_helper b n \<le> sb_max_size b - sb_size b"
  by (simp_all add: read_size_friend_def read_size_helper_def)

lemma read_size_agree: "sb_max_size b \<le> 512 \<Longrightarrow> read_size_friend b n = read_size_helper b n"
  by (simp add: read_size_friend_def read_size_helper_def sb_max_size_def)

lemma sb_new_ok: "sb_ok (sb_new raw)"
  by (simp add: sb_ok_def sb_new_def)

lemma sb_commit_ok: "sb_ok b \<Longrightarrow> sb_ok (sb_commit n b)"
  by (auto simp: sb_ok_def sb_commit_def Let_def)

lemma sb_consume_ok: "sb_ok b \<Longrightarrow> sb_ok (sb_consume n b)"
  by (auto simp: sb_ok_def sb_consume_def Let_def)

lemma sb_consume_data: "sb_ok b \<Longrightarrow> sb_data (sb_consume n b) = drop n (sb_data b)"
  by (auto simp: sb_ok_def sb_consume_def sb_data_def Let_def drop_take add.commute)

lemma sb_underflow_data:
  "sb_ok b \<Longrightarrow> fst (sb_underflow b) = (case sb_data b of [] \<Rightarrow> None | c # _ \<Rightarrow> Some c) \<and>
    sb_data (snd (sb_underflow b)) = sb_data b \<and> sb_ok (snd (sb_underflow b))"
  by (cases "gptr b < pptr b")
    (auto simp: sb_ok_def sb_underflow_def sb_data_def take_Cons' hd_drop_conv_nth split: list.splits
      simp flip: Cons_nth_drop_Suc)

text \<open>Writing to a buffer with room appends.\<close>

lemma sputc_room:
  assumes "sb_ok b" "pptr b < epptr b"
  shows "\<exists>b'. sputc c b = Some (Inr b') \<and> sb_ok b' \<and> sb_data b' = sb_data b @ [c] \<and> gptr b' = gptr b \<and>
    pptr b' = pptr b + 1 \<and> epptr b' = epptr b"
proof -
  let ?b = "b\<lparr>buffer := (buffer b)[pptr b := c], pptr := pptr b + 1\<rparr>"
  have "pptr b < length (buffer b)" "gptr b \<le> pptr b" using assms by (simp_all add: sb_ok_def)
  moreover from this have "sb_data ?b = sb_data b @ [c]"
    by (simp add: sb_data_def drop_update_swap take_Suc_conv_app_nth Suc_diff_le list_update_append)
  ultimately show ?thesis using assms by (simp add: sputc_def sb_store_def sb_ok_def)
qed

lemma sb_commit_data:
  "sb_ok b \<Longrightarrow> sb_data (sb_commit n b) = sb_data b @ take n (drop (pptr b) (buffer b))"
proof -
  assume ok: "sb_ok b"
  define k where "k = (if pptr b + n > epptr b then epptr b - pptr b else n)"
  have k: "take k (drop (pptr b) (buffer b)) = take n (drop (pptr b) (buffer b))"
    using ok by (auto simp: k_def sb_ok_def)
  have "pptr b + k - gptr b = (pptr b - gptr b) + k" using ok by (simp add: sb_ok_def)
  then have "sb_data (sb_commit n b) = take ((pptr b - gptr b) + k) (drop (gptr b) (buffer b))"
    by (simp add: sb_data_def sb_commit_def k_def Let_def del: diff_diff_left)
  also have "\<dots> = sb_data b @ take k (drop (pptr b) (buffer b))"
    unfolding take_add sb_data_def drop_drop using ok by (simp add: sb_ok_def)
  finally show ?thesis by (simp only: k)
qed

text \<open>
  A sequence that takes bytes: as long as there is room, a write appends to what it holds. What a client
  writes then arrives whole.
\<close>

locale output_sequence =
  fixes ok :: "'b \<Rightarrow> bool" and content :: "'b \<Rightarrow> bytes" and room :: "'b \<Rightarrow> nat" and put :: "u8 \<Rightarrow> 'b \<Rightarrow> 'b option"
  assumes put_room: "ok b \<Longrightarrow> 0 < room b \<Longrightarrow>
    \<exists>b'. put c b = Some b' \<and> ok b' \<and> content b' = content b @ [c] \<and> room b' = room b - 1"
begin

lemma puts_fit:
  assumes "ok b" "length bs \<le> room b"
  shows "\<exists>b'. fold_opt put bs b = Some b' \<and> ok b' \<and> content b' = content b @ bs \<and> room b' = room b - length bs"
  using assms
proof (induction bs arbitrary: b)
  case Nil
  then show ?case by simp
next
  case (Cons c bs)
  then have "0 < room b" by simp
  from put_room [OF Cons.prems(1) this] obtain b1 where
    1: "put c b = Some b1" "ok b1" "content b1 = content b @ [c]" "room b1 = room b - 1" by blast
  from Cons.IH [OF 1(2)] Cons.prems(2) 1 show ?case by simp
qed

end

interpretation stream: output_sequence
  "\<lambda>st. \<not> fst st \<and> sb_ok (snd st) \<and> gptr (snd st) = 0" "\<lambda>st. sb_data (snd st)" "\<lambda>st. epptr (snd st) - pptr (snd st)" os_put
proof (unfold_locales, goal_cases)
  case (1 st c)
  obtain b where st: "st = (False, b)" using 1(1) by (cases st) simp
  have "pptr b < epptr b" "sb_ok b" "gptr b = 0" using 1 by (simp_all add: st)
  with sputc_room [OF this(2,1), of c] show ?case by (auto simp: st os_put_def)
qed

lemma os_write_bad: "os_write bs (True, b) = Some (True, b)"
  by (induction bs) (simp_all add: os_write_def os_put_def)

lemma os_put_full: "pptr b = epptr b \<Longrightarrow> gptr b = 0 \<Longrightarrow> os_put c (False, b) = Some (True, b)"
  by (simp add: os_put_def sputc_def sb_overflow_def)

text \<open>A new buffer keeps as much of a write as fits, and the stream turns bad when that is not all.\<close>

lemma os_write_new:
  "\<exists>b. os_write bs (False, sb_new raw) = Some (length raw < length bs, b) \<and> sb_ok b \<and> sb_data b = take (length raw) bs"
proof -
  let ?n = "length raw"
  have new: "sb_data (sb_new raw) = []" "epptr (sb_new raw) - pptr (sb_new raw) = ?n"
    by (simp_all add: sb_data_def sb_new_def)
  have "\<exists>st. fold_opt os_put (take ?n bs) (False, sb_new raw) = Some st \<and> (\<not> fst st \<and> sb_ok (snd st) \<and> gptr (snd st) = 0) \<and>
    sb_data (snd st) = sb_data (snd (False, sb_new raw)) @ take ?n bs \<and>
    epptr (snd st) - pptr (snd st) = epptr (snd (False, sb_new raw)) - pptr (snd (False, sb_new raw)) - length (take ?n bs)"
    by (rule stream.puts_fit) (simp_all add: sb_new_ok, simp_all add: sb_new_def)
  then obtain b where
    b: "fold_opt os_put (take ?n bs) (False, sb_new raw) = Some (False, b)" "sb_ok b" "sb_data b = take ?n bs"
      "epptr b - pptr b = ?n - length (take ?n bs)" "gptr b = 0"
    unfolding fst_conv snd_conv new by (metis append_Nil prod.collapse)
  have w: "os_write bs (False, sb_new raw) = os_write (drop ?n bs) (False, b)"
    using fold_opt_append [of os_put "take ?n bs" "drop ?n bs" "(False, sb_new raw)"] b(1) by (simp add: os_write_def)
  show ?thesis
  proof (cases "drop ?n bs")
    case Nil
    then show ?thesis using w b(2,3) by (simp add: os_write_def)
  next
    case (Cons c cs)
    then have "?n < length bs" by (metis drop_all linorder_not_le list.distinct(1))
    moreover have "pptr b = epptr b" using b(2,4) \<open>?n < length bs\<close> by (simp add: sb_ok_def)
    moreover have "gptr b = 0" by (rule b(5))
    ultimately have "os_put c (False, b) = Some (True, b)" by (intro os_put_full)
    then show ?thesis using w b(2,3) Cons \<open>?n < length bs\<close> os_write_bad [of cs b] by (simp add: os_write_def)
  qed
qed

text \<open>
  A kind of packet: what its \<open>operator<<\<close> writes never exceeds its \<open>get_size\<close>. Then what is sent is what
  was written.
\<close>

locale outgoing =
  fixes enc :: "'p \<Rightarrow> bytes option" and get_size :: "'p \<Rightarrow> nat"
  assumes fits: "enc p = Some bs \<Longrightarrow> length bs \<le> get_size p"
begin

lemma send_exact:
  assumes "asio_ok asio" "length raw = 128"
  shows "send_bytes asio raw enc get_size p = enc p"
proof (cases "enc p")
  case None
  then show ?thesis by (simp add: send_bytes_def)
next
  case (Some bs)
  from os_write_new [of bs raw] obtain b where
    b: "os_write bs (False, sb_new raw) = Some (length raw < length bs, b)" "sb_data b = take (length raw) bs" by blast
  then show ?thesis using fits [OF Some] Some assms by (simp add: send_bytes_def asio_ok_def Let_def)
qed

end

section \<open>Properties\<close>

text \<open>
  C14: the buffer is a queue of bytes. On a well-formed buffer with room a written byte is appended to
  the contents, \<open>commit\<close> appends what the client has put behind them, \<open>consume\<close> drops from the front,
  \<open>underflow\<close> shows the first byte or reports the end, and \<open>size\<close> is the number of bytes held.
\<close>

theorem streambuf_is_a_queue:
  assumes "sb_ok b"
  shows "sb_size b = length (sb_data b) \<and>
    sb_data (sb_consume n b) = drop n (sb_data b) \<and> sb_ok (sb_consume n b) \<and>
    sb_data (sb_commit n b) = sb_data b @ take n (drop (pptr b) (buffer b)) \<and> sb_ok (sb_commit n b) \<and>
    fst (sb_underflow b) = (case sb_data b of [] \<Rightarrow> None | c # _ \<Rightarrow> Some c) \<and> sb_data (snd (sb_underflow b)) = sb_data b \<and>
    (pptr b < epptr b \<longrightarrow> (\<exists>b'. sputc c b = Some (Inr b') \<and> sb_ok b' \<and> sb_data b' = sb_data b @ [c]))"
proof -
  have "sb_size b = length (sb_data b)" using assms by (auto simp: sb_size_def sb_data_def sb_ok_def)
  moreover have "pptr b < epptr b \<longrightarrow> (\<exists>b'. sputc c b = Some (Inr b') \<and> sb_ok b' \<and> sb_data b' = sb_data b @ [c])"
    using sputc_room [OF assms] by blast
  ultimately show ?thesis
    using assms sb_consume_data sb_consume_ok sb_commit_data sb_commit_ok sb_underflow_data by simp
qed

text \<open>A buffer holding the byte 5, with room for one more.\<close>

definition held5 :: streambuf_array where
  "held5 = \<lparr>buffer = [5, 0], gptr = 0, egptr = 1, pptr = 1, epptr = 2\<rparr>"

theorem streambuf_is_a_queue_witness:
  "fst (sb_underflow held5) = Some 5 \<and> (\<exists>b'. sputc 9 held5 = Some (Inr b') \<and> sb_data b' = [5, 9])"
proof -
  have "sb_ok held5" by (simp add: sb_ok_def held5_def)
  moreover have "sb_data held5 = [5]" "pptr held5 < epptr held5" by (simp_all add: held5_def sb_data_def)
  ultimately show ?thesis using streambuf_is_a_queue [of held5 0 9] by auto
qed

text \<open>
  C31: a write that is too long is cut. Through a stream on a new buffer exactly the bytes that fit
  arrive; the stream is bad afterwards if and only if some did not, and nothing undefined happens.
\<close>

theorem overlong_write_is_cut:
  "\<exists>b. os_write bs (False, sb_new raw) = Some (length raw < length bs, b) \<and> sb_data b = take (length raw) bs"
  using os_write_new [of bs raw] by blast

text \<open>
  C32: the shift in \<open>reserve\<close> is not carried through. When the buffer is full and some of it was
  consumed, \<open>overflow\<close> moves the contents but not the put pointer, and stores the byte behind the end of
  the array.
\<close>

theorem overflow_after_consume:
  assumes "sb_ok b" "pptr b = epptr b" "0 < gptr b"
  shows "sputc c b = None"
proof -
  have "gptr b \<le> pptr b" "epptr b = length (buffer b)" using assms(1) by (simp_all add: sb_ok_def)
  then show ?thesis using assms(2,3)
    by (simp add: sputc_def sb_overflow_def sb_reserve_def sb_store_def Let_def)
qed

theorem overflow_after_consume_witness:
  "sputc 9 (sb_consume 1 (sb_commit 2 (sb_new [1, 2]))) = None"
  by (rule overflow_after_consume)
    (simp_all add: sb_ok_def sb_consume_def sb_commit_def sb_new_def Let_def)

end
