(* ===== verification/Packets.thy ===== *)
theory Packets
  imports StreambufArray
begin

text \<open>
  The packets of \<open>src/src/packet\<close>: for each struct its record (record extension is C++ inheritance),
  its constructors \<open>mk_...\<close>, its \<open>operator<<\<close> as \<open>out_...\<close> and its \<open>get_size\<close> as \<open>size_...\<close>.
  Field names carry the packet's name, since a record field is a constant. A pointer to a snake or to
  the food of a sector is the value behind it: packets are written as soon as they are built.
\<close>

section \<open>p_end\<close>

record packet_end = PacketBase +
  end_status :: u8

definition status_death :: u8 where "status_death = 0"
definition status_highscore_otd :: u8 where "status_highscore_otd = 1"
definition statuc_disconnect :: u8 where "statuc_disconnect = 2"

definition mk_packet_end :: "u8 \<Rightarrow> packet_end" where
  "mk_packet_end death_type = \<lparr>client_time = 0, packet_type = packet_t_end, end_status = death_type\<rparr>"

definition out_packet_end :: "packet_end \<Rightarrow> bytes option" where
  "out_packet_end p = puts [Some (out_PacketBase p), Some (write_uint8 (end_status p))]"

definition size_packet_end :: "packet_end \<Rightarrow> nat" where "size_packet_end p = 4"

record packet_kill = PacketBase +
  kill_snakeId :: u16
  kill_kills :: u32

definition mk_packet_kill :: packet_kill where
  "mk_packet_kill = \<lparr>client_time = 0, packet_type = packet_t_kill, kill_snakeId = 0, kill_kills = 0\<rparr>"

definition out_packet_kill :: "packet_kill \<Rightarrow> bytes option" where
  "out_packet_kill p = puts [Some (out_PacketBase p), Some (write_uint16 (kill_snakeId p)),
     Some (write_uint24 (kill_kills p))]"

definition size_packet_kill :: "packet_kill \<Rightarrow> nat" where "size_packet_kill p = 8"

section \<open>p_food\<close>

text \<open>\<open>write_uint8(f.size * 5)\<close>: the product is an \<open>int\<close>, the argument a byte.\<close>

definition out_food :: "Food \<Rightarrow> bytes" where
  "out_food f = write_uint8 (food_color f) @ write_uint16 (food_x f) @ write_uint16 (food_y f) @
     write_uint8 (of_int (uint (food_size f) * 5))"

record packet_set_food = PacketBase +
  food_ptr :: FoodSeq

definition mk_packet_set_food :: "FoodSeq \<Rightarrow> packet_set_food" where
  "mk_packet_set_food ptr = \<lparr>client_time = 0, packet_type = packet_t_set_food, food_ptr = ptr\<rparr>"

definition out_packet_set_food :: "packet_set_food \<Rightarrow> bytes option" where
  "out_packet_set_food p = puts (Some (out_PacketBase p) # map (\<lambda>f. Some (out_food f)) (food_ptr p))"

definition size_packet_set_food :: "packet_set_food \<Rightarrow> nat" where
  "size_packet_set_food p = 3 + length (food_ptr p) * 6"

record packet_spawn_food = PacketBase +
  spawn_food :: Food

definition mk_packet_spawn_food :: "Food \<Rightarrow> packet_spawn_food" where
  "mk_packet_spawn_food f = \<lparr>client_time = 0, packet_type = packet_t_spawn_food, spawn_food = f\<rparr>"

definition out_packet_spawn_food :: "packet_spawn_food \<Rightarrow> bytes option" where
  "out_packet_spawn_food p = puts [Some (out_PacketBase p), Some (out_food (spawn_food p))]"

definition size_packet_spawn_food :: "packet_spawn_food \<Rightarrow> nat" where "size_packet_spawn_food p = 3 + 6"

record packet_add_food = PacketBase +
  add_food :: Food

definition mk_packet_add_food :: "Food \<Rightarrow> packet_add_food" where
  "mk_packet_add_food f = \<lparr>client_time = 0, packet_type = packet_t_add_food, add_food = f\<rparr>"

definition out_packet_add_food :: "packet_add_food \<Rightarrow> bytes option" where
  "out_packet_add_food p = puts [Some (out_PacketBase p), Some (out_food (add_food p))]"

definition size_packet_add_food :: "packet_add_food \<Rightarrow> nat" where "size_packet_add_food p = 3 + 6"

record packet_eat_food = PacketBase +
  eat_food :: Food
  eat_snakeId :: u16

definition mk_packet_eat_food :: "u16 \<Rightarrow> Food \<Rightarrow> packet_eat_food" where
  "mk_packet_eat_food i f = \<lparr>client_time = 0, packet_type = packet_t_eat_food, eat_food = f, eat_snakeId = i\<rparr>"

definition out_packet_eat_food :: "packet_eat_food \<Rightarrow> bytes option" where
  "out_packet_eat_food p = puts ([Some (out_PacketBase p), Some (write_uint16 (food_x (eat_food p))),
     Some (write_uint16 (food_y (eat_food p)))] @
     (if eat_snakeId p > 0 then [Some (write_uint16 (eat_snakeId p))] else []))"

definition size_packet_eat_food :: "packet_eat_food \<Rightarrow> nat" where "size_packet_eat_food p = 3 + 6"

section \<open>p_fullness and p_remove_part\<close>

record packet_fullness = PacketBase +
  full_snakeId :: u16
  full_fullness :: u8

definition mk_packet_fullness :: "Snake \<Rightarrow> packet_fullness" where
  "mk_packet_fullness s = \<lparr>client_time = 0, packet_type = packet_t_set_fullness, full_snakeId = sn_id s,
     full_fullness = ucast (fullness s)\<rparr>"

definition out_packet_fullness :: "packet_fullness \<Rightarrow> bytes option" where
  "out_packet_fullness p = puts [Some (out_PacketBase p), Some (write_uint16 (full_snakeId p)),
     write_fp24 (fl (uint (full_fullness p)) / fl 100)]"

definition size_packet_fullness :: "packet_fullness \<Rightarrow> nat" where "size_packet_fullness p = 8"

record packet_remove_part = PacketBase +
  rem_snakeId :: u16
  rem_fullness :: u8

definition mk_packet_remove_part :: "Snake \<Rightarrow> packet_remove_part" where
  "mk_packet_remove_part s = \<lparr>client_time = 0, packet_type = packet_t_rem_part, rem_snakeId = sn_id s,
     rem_fullness = ucast (fullness s)\<rparr>"

definition out_packet_remove_part :: "packet_remove_part \<Rightarrow> bytes option" where
  "out_packet_remove_part p = puts ([Some (out_PacketBase p), Some (write_uint16 (rem_snakeId p))] @
     (if rem_fullness p > 0 then [write_fp24 (fl (uint (rem_fullness p)) / fl 100)] else []))"

definition size_packet_remove_part :: "packet_remove_part \<Rightarrow> nat" where "size_packet_remove_part p = 8"

section \<open>p_highscore and p_leaderboard\<close>

record packet_highscore = PacketBase +
  winner :: Snake
  hs_message :: string

definition mk_packet_highscore :: "Snake \<Rightarrow> string \<Rightarrow> packet_highscore" where
  "mk_packet_highscore s msg = \<lparr>client_time = 0, packet_type = packet_t_highscore, winner = s, hs_message = msg\<rparr>"

definition out_packet_highscore :: "packet_highscore \<Rightarrow> bytes option" where
  "out_packet_highscore p = puts [Some (out_PacketBase p), Some (write_uint24 (of_nat (length (parts (winner p))))),
     write_fp24 (fl (uint (fullness (winner p))) / fl 100), Some (write_string (sn_name (winner p))),
     Some (map of_char (hs_message p))]"

definition size_packet_highscore :: "packet_highscore \<Rightarrow> nat" where
  "size_packet_highscore p = 9 + 1 + length (sn_name (winner p)) + length (hs_message p)"

record packet_leaderboard = PacketBase +
  leaderboard_rank :: u8
  local_rank :: u16
  players :: u16
  top :: "Snake list"

definition mk_packet_leaderboard :: packet_leaderboard where
  "mk_packet_leaderboard = \<lparr>client_time = 0, packet_type = packet_t_leaderboard, leaderboard_rank = 0,
     local_rank = 0, players = 0, top = []\<rparr>"

definition out_top :: "Snake \<Rightarrow> bytes option" where
  "out_top s = puts [Some (write_uint16 (of_nat (length (parts s)))), write_fp24 (fl (uint (fullness s)) / fl 100),
     Some (write_uint8 (skin s)), Some (write_string (sn_name s))]"

definition out_packet_leaderboard :: "packet_leaderboard \<Rightarrow> bytes option" where
  "out_packet_leaderboard p = puts ([Some (out_PacketBase p), Some (write_uint8 (leaderboard_rank p)),
     Some (write_uint16 (local_rank p)), Some (write_uint16 (players p))] @ map out_top (top p))"

definition size_packet_leaderboard :: "packet_leaderboard \<Rightarrow> nat" where
  "size_packet_leaderboard p = fold (\<lambda>s n. n + (2 + 3 + 1 + 1 + length (sn_name s))) (top p) 8"

section \<open>p_inc and p_move\<close>

record packet_inc = PacketBase +
  inc_snakeId :: u16
  inc_x :: u16
  inc_y :: u16
  inc_fullness :: u8

definition mk_packet_inc :: "Snake \<Rightarrow> packet_inc option" where
  "mk_packet_inc s = do {
     x \<leftarrow> to_u16 (get_head_x s);
     y \<leftarrow> to_u16 (get_head_y s);
     Some \<lparr>client_time = 0, packet_type = packet_t_inc, inc_snakeId = sn_id s, inc_x = x, inc_y = y,
       inc_fullness = ucast (fullness s)\<rparr> }"

definition out_packet_inc :: "packet_inc \<Rightarrow> bytes option" where
  "out_packet_inc p = puts [Some (out_PacketBase p), Some (write_uint16 (inc_snakeId p)), Some (write_uint16 (inc_x p)),
     Some (write_uint16 (inc_y p)), write_fp24 (fl (uint (inc_fullness p)) / fl 100)]"

definition size_packet_inc :: "packet_inc \<Rightarrow> nat" where "size_packet_inc p = 12"

record packet_inc_rel = PacketBase +
  increl_snakeId :: u16
  increl_dx :: u8
  increl_dy :: u8
  increl_fullness :: u8

definition mk_packet_inc_rel :: "Snake \<Rightarrow> packet_inc_rel option" where
  "mk_packet_inc_rel s = do {
     x \<leftarrow> to_u8 (get_head_dx s);
     y \<leftarrow> to_u8 (get_head_dy s);
     Some \<lparr>client_time = 0, packet_type = packet_t_inc_rel, increl_snakeId = sn_id s, increl_dx = x, increl_dy = y,
       increl_fullness = ucast (fullness s)\<rparr> }"

definition out_packet_inc_rel :: "packet_inc_rel \<Rightarrow> bytes option" where
  "out_packet_inc_rel p = puts [Some (out_PacketBase p), Some (write_uint16 (increl_snakeId p)),
     Some (write_uint8 (increl_dx p)), Some (write_uint8 (increl_dy p)),
     write_fp24 (fl (uint (increl_fullness p)) / fl 100)]"

definition size_packet_inc_rel :: "packet_inc_rel \<Rightarrow> nat" where "size_packet_inc_rel p = 10"

record packet_move = PacketBase +
  mov_snakeId :: u16
  mov_x :: u16
  mov_y :: u16

definition mk_packet_move :: "Snake \<Rightarrow> packet_move option" where
  "mk_packet_move s = do {
     x \<leftarrow> to_u16 (get_head_x s);
     y \<leftarrow> to_u16 (get_head_y s);
     Some \<lparr>client_time = 0, packet_type = packet_t_mov, mov_snakeId = sn_id s, mov_x = x, mov_y = y\<rparr> }"

definition out_packet_move :: "packet_move \<Rightarrow> bytes option" where
  "out_packet_move p = puts [Some (out_PacketBase p), Some (write_uint16 (mov_snakeId p)), Some (write_uint16 (mov_x p)),
     Some (write_uint16 (mov_y p))]"

definition size_packet_move :: "packet_move \<Rightarrow> nat" where "size_packet_move p = 9"

record packet_move_rel = PacketBase +
  movrel_snakeId :: u16
  movrel_dx :: u8
  movrel_dy :: u8

text \<open>The constructor from offsets (\<open>int8_t\<close>) and the one from a snake.\<close>

definition mk_packet_move_rel :: "u16 \<Rightarrow> int \<Rightarrow> int \<Rightarrow> packet_move_rel" where
  "mk_packet_move_rel i dx dy = \<lparr>client_time = 0, packet_type = packet_t_mov_rel, movrel_snakeId = i,
     movrel_dx = of_int (dx + 128), movrel_dy = of_int (dy + 128)\<rparr>"

definition mk_packet_move_rel_snake :: "Snake \<Rightarrow> packet_move_rel option" where
  "mk_packet_move_rel_snake s = do {
     x \<leftarrow> to_u8 (get_head_dx s);
     y \<leftarrow> to_u8 (get_head_dy s);
     Some \<lparr>client_time = 0, packet_type = packet_t_mov, movrel_snakeId = sn_id s, movrel_dx = x, movrel_dy = y\<rparr> }"

definition out_packet_move_rel :: "packet_move_rel \<Rightarrow> bytes option" where
  "out_packet_move_rel p = puts [Some (out_PacketBase p), Some (write_uint16 (movrel_snakeId p)),
     Some (write_uint8 (movrel_dx p)), Some (write_uint8 (movrel_dy p))]"

definition size_packet_move_rel :: "packet_move_rel \<Rightarrow> nat" where "size_packet_move_rel p = 7"

section \<open>p_init\<close>

record PacketInit = PacketBase +
  init_game_radius :: u32
  init_max_snake_parts :: u16
  init_sector_size :: u16
  init_sector_count_along_edge :: u16
  init_spangdv :: flt
  init_nsp1 :: flt
  init_nsp2 :: flt
  init_nsp3 :: flt
  snake_ang_speed :: flt
  prey_ang_speed :: flt
  init_snake_tail_k :: flt
  init_protocol_version :: u8

definition mk_PacketInit :: PacketInit where
  "mk_PacketInit = \<lparr>client_time = 0, packet_type = packet_t_init, init_game_radius = 21600, init_max_snake_parts = 411,
     init_sector_size = 300, init_sector_count_along_edge = 144, init_spangdv = lit 48 10, init_nsp1 = lit 539 100,
     init_nsp2 = lit 4 10, init_nsp3 = lit 140 10, snake_ang_speed = lit 33 1000, prey_ang_speed = lit 28 1000,
     init_snake_tail_k = lit 43 100, init_protocol_version = 8\<rparr>"

definition out_PacketInit :: "PacketInit \<Rightarrow> bytes option" where
  "out_PacketInit p = puts [Some (out_PacketBase p), Some (write_uint24 (init_game_radius p)),
     Some (write_uint16 (init_max_snake_parts p)), Some (write_uint16 (init_sector_size p)),
     Some (write_uint16 (init_sector_count_along_edge p)), write_fp8 (init_spangdv p), write_fp16_2 (init_nsp1 p),
     write_fp16_2 (init_nsp2 p), write_fp16_2 (init_nsp3 p), write_fp16_3 (snake_ang_speed p),
     write_fp16_3 (prey_ang_speed p), write_fp16_3 (init_snake_tail_k p), Some (write_uint8 (init_protocol_version p))]"

definition size_PacketInit :: "PacketInit \<Rightarrow> nat" where "size_PacketInit p = 26"

section \<open>p_minimap, p_pong, p_sector\<close>

record packet_minimap = PacketBase +
  minimap_data :: bytes

definition mk_packet_minimap :: "bytes \<Rightarrow> packet_minimap" where
  "mk_packet_minimap bs = \<lparr>client_time = 0, packet_type = packet_t_minimap, minimap_data = bs\<rparr>"

definition out_packet_minimap :: "packet_minimap \<Rightarrow> bytes option" where
  "out_packet_minimap p = puts [Some (out_PacketBase p), Some (minimap_data p)]"

definition size_packet_minimap :: "packet_minimap \<Rightarrow> nat" where
  "size_packet_minimap p = 3 + length (minimap_data p)"

text \<open>\<open>packet_pong\<close> adds nothing to the base packet.\<close>

definition mk_packet_pong :: "u16 \<Rightarrow> PacketBase" where
  "mk_packet_pong clock = mk_PacketBase packet_t_pong clock"

definition out_packet_pong :: "PacketBase \<Rightarrow> bytes option" where
  "out_packet_pong p = Some (out_PacketBase p)"

record packet_sector = PacketBase +
  psec_x :: u8
  psec_y :: u8

definition mk_packet_add_sector :: "u8 \<Rightarrow> u8 \<Rightarrow> packet_sector" where
  "mk_packet_add_sector x y = \<lparr>client_time = 0, packet_type = packet_t_add_sector, psec_x = x, psec_y = y\<rparr>"

definition mk_packet_remove_sector :: "u8 \<Rightarrow> u8 \<Rightarrow> packet_sector" where
  "mk_packet_remove_sector x y = \<lparr>client_time = 0, packet_type = packet_t_rem_sector, psec_x = x, psec_y = y\<rparr>"

definition out_packet_sector :: "packet_sector \<Rightarrow> bytes option" where
  "out_packet_sector p = puts [Some (out_PacketBase p), Some (write_uint8 (psec_x p)), Some (write_uint8 (psec_y p))]"

definition size_packet_sector :: "packet_sector \<Rightarrow> nat" where "size_packet_sector p = 5"

section \<open>p_rotation\<close>

record packet_rotation = PacketBase +
  rot_snakeId :: u16
  rot_ang :: flt
  rot_wang :: flt
  rot_snakeSpeed :: flt

text \<open>The type of a default-constructed packet stays uninitialised; it is not written.\<close>

definition mk_packet_rotation :: "u8 \<Rightarrow> packet_rotation" where
  "mk_packet_rotation t = \<lparr>client_time = 0, packet_type = t, rot_snakeId = 0, rot_ang = lit (- 1) 1,
     rot_wang = lit (- 1) 1, rot_snakeSpeed = lit (- 1) 1\<rparr>"

definition rot_f_pi :: flt where "rot_f_pi = lit 314159265358979323846 100000000000000000000"
definition rot_f_2pi :: flt where "rot_f_2pi = fl 2 * rot_f_pi"

definition rot_normalize_angle :: "flt \<Rightarrow> flt" where
  "rot_normalize_angle ang = ang - rot_f_2pi * floorf (ang / rot_f_2pi)"

definition is_clockwise :: "packet_rotation \<Rightarrow> bool" where
  "is_clockwise p =
    (let dAngle = rot_normalize_angle (rot_wang p - rot_ang p);
         dAngle = (if rot_f_pi < dAngle then dAngle - rot_f_2pi else dAngle)
     in fl 0 < dAngle)"

definition get_rot_type :: "packet_rotation \<Rightarrow> u8" where
  "get_rot_type p =
    (let no_ang = feq (rot_ang p) (lit (- 1) 1); no_wang = feq (rot_wang p) (lit (- 1) 1);
         no_speed = feq (rot_snakeSpeed p) (lit (- 1) 1)
     in if no_wang then
          (if no_speed then packet_t_rot_ccw_ang
           else if no_ang then packet_t_rot_ccw_sp
           else packet_t_rot_ccw_ang_sp)
        else if no_ang then
          (if no_speed then packet_t_rot_ccw_wang else packet_t_rot_ccw_wang_sp)
        else if no_speed then
          (if is_clockwise p then packet_t_rot_cw_ang_wang else packet_t_rot_ccw_ang_wang)
        else
          (if is_clockwise p then packet_t_rot_cw_ang_wang_sp else packet_t_rot_ccw_ang_wang_sp))"

definition out_packet_rotation :: "packet_rotation \<Rightarrow> bytes option" where
  "out_packet_rotation p = puts ([Some (out_PacketBase (mk_PacketBase (get_rot_type p) (client_time p))),
     Some (write_uint16 (rot_snakeId p))] @
     (if \<not> feq (rot_ang p) (lit (- 1) 1) then [write_ang8 (rot_ang p)] else []) @
     (if \<not> feq (rot_wang p) (lit (- 1) 1) then [write_ang8 (rot_wang p)] else []) @
     (if \<not> feq (rot_snakeSpeed p) (lit (- 1) 1)
      then [map_option write_uint8 (to_u8 (rot_snakeSpeed p * lit 180 10))] else []))"

definition size_packet_rotation :: "packet_rotation \<Rightarrow> nat" where "size_packet_rotation p = 8"

section \<open>p_snake\<close>

record packet_add_snake = PacketBase +
  as_snake :: Snake

definition mk_packet_add_snake :: "Snake \<Rightarrow> packet_add_snake" where
  "mk_packet_add_snake s = \<lparr>client_time = 0, packet_type = packet_t_snake, as_snake = s\<rparr>"

text \<open>
  The parts from the one before the tail up to the one behind the head, each as an offset from the
  position \<open>(hx, hy)\<close> of the part written before. That position moves by the offset itself, not by the
  offset as the client will read it.
\<close>

fun out_offsets :: "flt \<Rightarrow> flt \<Rightarrow> BodySeq \<Rightarrow> bytes option" where
  "out_offsets hx hy [] = Some []"
| "out_offsets hx hy (p # ps) =
    (let bpx = body_x p - hx; bpy = body_y p - hy
     in puts [map_option write_uint8 (to_u8 (bpx * fl 2 + lit 1270 10)),
              map_option write_uint8 (to_u8 (bpy * fl 2 + lit 1270 10)),
              out_offsets (hx + bpx) (hy + bpy) ps])"

text \<open>With a single part the loop would run past \<open>crend()\<close>.\<close>

definition out_body :: "BodySeq \<Rightarrow> bytes option" where
  "out_body ps = (case rev ps of [] \<Rightarrow> Some []
     | [t] \<Rightarrow> None
     | t # rest \<Rightarrow> puts [map_option write_uint24 (to_u32 (body_x t * fl 5)),
         map_option write_uint24 (to_u32 (body_y t * fl 5)),
         out_offsets (body_x t) (body_y t) (butlast rest)])"

text \<open>The position of a snake without parts would be read from \<open>parts[0]\<close>, which is undefined.\<close>

definition out_packet_add_snake :: "packet_add_snake \<Rightarrow> bytes option" where
  "out_packet_add_snake p = (let s = as_snake p in
     if parts s = [] then None
     else puts [Some (out_PacketBase p), Some (write_uint16 (sn_id s)), write_ang24 (angle s), Some (write_uint8 0),
       write_ang24 (angle s), write_fp16_3 (fl (uint (speed s)) / lit 320 10),
       write_fp24 (fl (uint (fullness s)) / fl 100), Some (write_uint8 (skin s)),
       map_option write_uint24 (to_u32 (get_head_x s * fl 5)), map_option write_uint24 (to_u32 (get_head_y s * fl 5)),
       Some (write_string (sn_name s)), out_body (parts s)])"

text \<open>
  Sizes are far below \<open>2 ^ 64\<close>; without parts the intermediate \<open>size() - 1\<close> wraps, and the sum wraps
  back.
\<close>

definition size_packet_add_snake :: "packet_add_snake \<Rightarrow> nat" where
  "size_packet_add_snake p = nat (25 + int (length (sn_name (as_snake p))) + 2 * 3 +
     (int (length (parts (as_snake p))) - 1) * 2)"

record packet_remove_snake = PacketBase +
  rems_snakeId :: u16
  rems_status :: u8

definition status_snake_left :: u8 where "status_snake_left = 0"
definition status_snake_died :: u8 where "status_snake_died = 1"

definition mk_packet_remove_snake :: "u16 \<Rightarrow> u8 \<Rightarrow> packet_remove_snake" where
  "mk_packet_remove_snake i st = \<lparr>client_time = 0, packet_type = packet_t_snake, rems_snakeId = i, rems_status = st\<rparr>"

definition out_packet_remove_snake :: "packet_remove_snake \<Rightarrow> bytes option" where
  "out_packet_remove_snake p = puts [Some (out_PacketBase p), Some (write_uint16 (rems_snakeId p)),
     Some (write_uint8 (rems_status p))]"

definition size_packet_remove_snake :: "packet_remove_snake \<Rightarrow> nat" where "size_packet_remove_snake p = 6"

section \<open>debug: d_clean and d_draw\<close>

definition mk_packet_debug_reset :: PacketBase where
  "mk_packet_debug_reset = mk_PacketBase packet_d_reset 0"

definition out_packet_debug_reset :: "PacketBase \<Rightarrow> bytes option" where
  "out_packet_debug_reset p = Some (out_PacketBase p)"

record d_draw_point =
  pt_x :: u16
  pt_y :: u16

definition mk_d_draw_point :: "flt \<Rightarrow> flt \<Rightarrow> d_draw_point option" where
  "mk_d_draw_point x y = do { x \<leftarrow> to_u16 x; y \<leftarrow> to_u16 y; Some \<lparr>pt_x = x, pt_y = y\<rparr> }"

record d_draw_dot =
  dot_id :: u32
  dot_p :: d_draw_point
  dot_color :: u32

record d_draw_segment =
  seg_id :: u32
  seg_v :: d_draw_point
  seg_w :: d_draw_point
  seg_color :: u32

text \<open>\<open>d_draw_rect\<close> has the same members as the segment.\<close>

type_synonym d_draw_rect = d_draw_segment

record d_draw_circle =
  circ_id :: u32
  circ_v :: d_draw_point
  circ_r :: u16
  circ_color :: u32

definition mk_d_draw_circle :: "u32 \<Rightarrow> d_draw_point \<Rightarrow> flt \<Rightarrow> u32 \<Rightarrow> d_draw_circle option" where
  "mk_d_draw_circle i v r color =
    map_option (\<lambda>r. \<lparr>circ_id = i, circ_v = v, circ_r = r, circ_color = color\<rparr>) (to_u16 r)"

record packet_debug_draw = PacketBase +
  dots :: "d_draw_dot list"
  segments :: "d_draw_segment list"
  rects :: "d_draw_rect list"
  circles :: "d_draw_circle list"

definition mk_packet_debug_draw :: packet_debug_draw where
  "mk_packet_debug_draw = \<lparr>client_time = 0, packet_type = packet_d_draw, dots = [], segments = [], rects = [], circles = []\<rparr>"

definition draw_empty :: "packet_debug_draw \<Rightarrow> bool" where
  "draw_empty p \<longleftrightarrow> dots p = [] \<and> segments p = [] \<and> rects p = [] \<and> circles p = []"

definition out_point :: "d_draw_point \<Rightarrow> bytes" where
  "out_point v = write_uint16 (pt_x v) @ write_uint16 (pt_y v)"

definition out_dot :: "d_draw_dot \<Rightarrow> bytes" where
  "out_dot v = write_uint8 (of_char (CHR ''.'')) @ write_uint24 (dot_id v) @ out_point (dot_p v) @
     write_uint24 (dot_color v)"

definition out_segment :: "char \<Rightarrow> d_draw_segment \<Rightarrow> bytes" where
  "out_segment h v = write_uint8 (of_char h) @ write_uint24 (seg_id v) @ out_point (seg_v v) @ out_point (seg_w v) @
     write_uint24 (seg_color v)"

definition out_circle :: "d_draw_circle \<Rightarrow> bytes" where
  "out_circle v = write_uint8 (of_char (CHR ''o'')) @ write_uint24 (circ_id v) @ out_point (circ_v v) @
     write_uint16 (circ_r v) @ write_uint24 (circ_color v)"

definition out_packet_debug_draw :: "packet_debug_draw \<Rightarrow> bytes option" where
  "out_packet_debug_draw p = Some (out_PacketBase p @ concat (map out_dot (dots p)) @
     concat (map (out_segment (CHR ''_'')) (segments p)) @ concat (map (out_segment (CHR ''#'')) (rects p)) @
     concat (map out_circle (circles p)))"

definition size_packet_debug_draw :: "packet_debug_draw \<Rightarrow> nat" where
  "size_packet_debug_draw p = 3 + length (dots p) * (1 + 3 + 4 + 3) + length (segments p) * (1 + 3 + 4 + 4 + 3) +
     length (rects p) * (1 + 3 + 4 + 4 + 3) + length (circles p) * (1 + 3 + 4 + 2 + 3)"

section \<open>Every packet fits its size\<close>

text \<open>Lengths of a sequence of writes, one write at a time.\<close>

definition len_le :: "bytes option \<Rightarrow> nat \<Rightarrow> bool" where
  "len_le w n \<longleftrightarrow> (\<forall>bs. w = Some bs \<longrightarrow> length bs \<le> n)"

lemma len_leD: "len_le w n \<Longrightarrow> w = Some bs \<Longrightarrow> length bs \<le> n"
  by (simp add: len_le_def)

lemma len_le_weaken: "len_le w n \<Longrightarrow> n \<le> k \<Longrightarrow> len_le w k"
  by (auto simp: len_le_def)

named_theorems len_intros

lemma len_le_Some [len_intros]: "len_le (Some bs) (length bs)"
  by (simp add: len_le_def)

lemma len_le_puts_Nil [len_intros]: "len_le (puts []) 0"
  by (simp add: len_le_def)

lemma len_le_puts_Cons [len_intros]: "len_le w m \<Longrightarrow> len_le (puts ws) n \<Longrightarrow> len_le (puts (w # ws)) (m + n)"
  by (auto simp: len_le_def puts_Cons bind_eq_Some_conv intro!: add_mono)

lemma len_le_puts_append [len_intros]: "len_le (puts us) m \<Longrightarrow> len_le (puts ws) n \<Longrightarrow> len_le (puts (us @ ws)) (m + n)"
  by (auto simp: len_le_def puts_append bind_eq_Some_conv intro!: add_mono)

lemma len_le_fp [len_intros]:
  "len_le (write_fp8 v) 1" "len_le (write_fp16_2 v) 2" "len_le (write_fp16_3 v) 2" "len_le (write_fp24 v) 3"
  "len_le (write_ang8 v) 1" "len_le (write_ang24 v) 3" "len_le (map_option write_uint8 x) 1"
  "len_le (map_option write_uint24 y) 3"
  unfolding len_le_def using fp_lengths by (auto simp: size_facts)

lemma len_le_map: "(\<And>x. x \<in> set xs \<Longrightarrow> len_le (f x) n) \<Longrightarrow> len_le (puts (map f xs)) (length xs * n)"
proof (induction xs)
  case Nil
  then show ?case by (simp add: len_le_def)
next
  case (Cons x xs)
  then show ?case using len_le_puts_Cons [of "f x" n "map f xs" "length xs * n"] by simp
qed

lemma len_le_if [len_intros]: "len_le (puts ws) n \<Longrightarrow> len_le (puts (if c then ws else [])) n"
  by (simp add: len_le_def)

lemma length_out_food [size_facts]: "length (out_food f) = 6"
  by (simp add: out_food_def size_facts)

lemmas out_defs = out_packet_end_def out_packet_kill_def out_packet_set_food_def out_packet_spawn_food_def
  out_packet_add_food_def out_packet_eat_food_def out_packet_fullness_def out_packet_remove_part_def
  out_packet_highscore_def out_packet_leaderboard_def out_packet_inc_def out_packet_inc_rel_def
  out_packet_move_def out_packet_move_rel_def out_PacketInit_def out_packet_minimap_def out_packet_pong_def
  out_packet_sector_def out_packet_rotation_def out_packet_remove_snake_def out_packet_debug_reset_def

lemmas size_defs = size_packet_end_def size_packet_kill_def size_packet_set_food_def size_packet_spawn_food_def
  size_packet_add_food_def size_packet_eat_food_def size_packet_fullness_def size_packet_remove_part_def
  size_packet_highscore_def size_packet_leaderboard_def size_packet_inc_def size_packet_inc_rel_def
  size_packet_move_def size_packet_move_rel_def size_PacketInit_def size_packet_minimap_def
  size_packet_sector_def size_packet_rotation_def size_packet_remove_snake_def size_PacketBase_def

lemma outgoing_intro: "(\<And>p. len_le (enc p) (get_size p)) \<Longrightarrow> outgoing enc get_size"
  by (simp add: outgoing_def len_le_def)

text \<open>Unfold a packet, bound it write by write, compare the sums.\<close>

lemma packets_fit:
  "len_le (out_packet_end p1) (size_packet_end p1)" "len_le (out_packet_kill p2) (size_packet_kill p2)"
  "len_le (out_packet_spawn_food p3) (size_packet_spawn_food p3)" "len_le (out_packet_add_food p4) (size_packet_add_food p4)"
  "len_le (out_packet_eat_food p5) (size_packet_eat_food p5)" "len_le (out_packet_fullness p6) (size_packet_fullness p6)"
  "len_le (out_packet_remove_part p7) (size_packet_remove_part p7)" "len_le (out_packet_highscore p8) (size_packet_highscore p8)"
  "len_le (out_packet_inc p9) (size_packet_inc p9)" "len_le (out_packet_inc_rel p10) (size_packet_inc_rel p10)"
  "len_le (out_packet_move p11) (size_packet_move p11)" "len_le (out_packet_move_rel p12) (size_packet_move_rel p12)"
  "len_le (out_PacketInit p13) (size_PacketInit p13)" "len_le (out_packet_minimap p14) (size_packet_minimap p14)"
  "len_le (out_packet_pong p15) (size_PacketBase p15)" "len_le (out_packet_sector p16) (size_packet_sector p16)"
  "len_le (out_packet_rotation p17) (size_packet_rotation p17)"
  "len_le (out_packet_remove_snake p18) (size_packet_remove_snake p18)"
  "len_le (out_packet_debug_reset p19) (size_PacketBase p19)"
  unfolding out_defs by ((rule len_le_weaken, (rule len_intros)+), simp add: size_facts size_defs)+

lemma set_food_fits: "len_le (out_packet_set_food p) (size_packet_set_food p)"
proof -
  have "len_le (puts (map (\<lambda>f. Some (out_food f)) (food_ptr p))) (length (food_ptr p) * 6)"
    by (rule len_le_map) (simp add: len_le_def size_facts)
  from len_le_puts_Cons [OF len_le_Some this, of "out_PacketBase p"] show ?thesis
    by (simp only: out_packet_set_food_def size_packet_set_food_def size_facts)
qed

lemma out_top_fits: "len_le (out_top s) (2 + 3 + 1 + 1 + length (sn_name s))"
  unfolding out_top_def by (rule len_le_weaken, (rule len_intros)+) (simp add: size_facts)

lemma fold_add: "fold (\<lambda>x n. n + g x) xs (k + l) = k + fold (\<lambda>x n. n + g x) xs (l :: nat)"
  by (induction xs arbitrary: l) (simp_all add: add.assoc)

lemma tops_fit: "len_le (puts (map out_top ss)) (fold (\<lambda>s n. n + (2 + 3 + 1 + 1 + length (sn_name s))) ss 0)"
proof (induction ss)
  case Nil
  then show ?case by (simp add: len_le_def)
next
  case (Cons s ss)
  from len_le_puts_Cons [OF out_top_fits Cons.IH, of s] fold_add [of "\<lambda>s. 2 + 3 + 1 + 1 + length (sn_name s)" ss "2 + 3 + 1 + 1 + length (sn_name s)" 0] show ?case by simp
qed

lemma leaderboard_fits: "len_le (out_packet_leaderboard p) (size_packet_leaderboard p)"
proof -
  have "len_le (out_packet_leaderboard p) (8 + fold (\<lambda>s n. n + (2 + 3 + 1 + 1 + length (sn_name s))) (top p) 0)"
    unfolding out_packet_leaderboard_def
    by (rule len_le_weaken, (rule len_intros tops_fit)+) (simp add: size_facts)
  then show ?thesis using fold_add [of "\<lambda>s. 2 + 3 + 1 + 1 + length (sn_name s)" "top p" 8 0] by (simp add: size_packet_leaderboard_def)
qed

lemma debug_draw_fits: "len_le (out_packet_debug_draw p) (size_packet_debug_draw p)"
proof -
  have "length (concat (map f xs)) = length xs * n" if "\<And>x. length (f x) = n" for f :: "'a \<Rightarrow> bytes" and xs n
    using that by (induction xs) simp_all
  note this [of out_dot 11] this [of "out_segment h" 15 for h] this [of out_circle 13]
  then show ?thesis
    by (simp add: len_le_def out_packet_debug_draw_def size_packet_debug_draw_def size_facts out_dot_def out_segment_def
        out_circle_def out_point_def)
qed

lemma offsets_fit: "len_le (out_offsets hx hy ps) (length ps * 2)"
proof (induction ps arbitrary: hx hy)
  case Nil
  then show ?case by (simp add: len_le_def)
next
  case (Cons p ps)
  have "len_le (out_offsets hx hy (p # ps)) (1 + (1 + (length ps * 2 + 0)))"
    unfolding out_offsets.simps Let_def by (rule len_intros Cons.IH)+
  then show ?case by simp
qed

lemma body_fits: "len_le (out_body ps) (nat (6 + (int (length ps) - 2) * 2))"
proof (cases "rev ps")
  case Nil
  then show ?thesis by (simp add: out_body_def len_le_def)
next
  case (Cons t rest)
  then have l: "length ps = Suc (length rest)" by (metis length_Cons length_rev)
  show ?thesis
  proof (cases rest)
    case Nil
    then show ?thesis using Cons by (simp add: out_body_def len_le_def)
  next
    case c: (Cons u us)
    have "len_le (out_body ps) (3 + (3 + (length (butlast rest) * 2 + 0)))"
      unfolding out_body_def Cons c list.case by (rule len_intros offsets_fit)+
    then show ?thesis by (rule len_le_weaken) (simp add: l c le_nat_iff)
  qed
qed

lemma add_snake_fits: "len_le (out_packet_add_snake p) (size_packet_add_snake p)"
proof (cases "parts (as_snake p) = []")
  case True
  then show ?thesis by (simp add: out_packet_add_snake_def Let_def len_le_def)
next
  case False
  show ?thesis
    unfolding out_packet_add_snake_def Let_def if_not_P [OF False]
    by (rule len_le_weaken, (rule len_intros body_fits)+) (simp add: size_facts size_packet_add_snake_def)
qed

interpretation wire_end: outgoing out_packet_end size_packet_end
  by (rule outgoing_intro) (rule packets_fit)

interpretation wire_kill: outgoing out_packet_kill size_packet_kill
  by (rule outgoing_intro) (rule packets_fit)

interpretation wire_set_food: outgoing out_packet_set_food size_packet_set_food
  by (rule outgoing_intro) (rule set_food_fits)

interpretation wire_spawn_food: outgoing out_packet_spawn_food size_packet_spawn_food
  by (rule outgoing_intro) (rule packets_fit)

interpretation wire_add_food: outgoing out_packet_add_food size_packet_add_food
  by (rule outgoing_intro) (rule packets_fit)

interpretation wire_eat_food: outgoing out_packet_eat_food size_packet_eat_food
  by (rule outgoing_intro) (rule packets_fit)

interpretation wire_fullness: outgoing out_packet_fullness size_packet_fullness
  by (rule outgoing_intro) (rule packets_fit)

interpretation wire_remove_part: outgoing out_packet_remove_part size_packet_remove_part
  by (rule outgoing_intro) (rule packets_fit)

interpretation wire_highscore: outgoing out_packet_highscore size_packet_highscore
  by (rule outgoing_intro) (rule packets_fit)

interpretation wire_leaderboard: outgoing out_packet_leaderboard size_packet_leaderboard
  by (rule outgoing_intro) (rule leaderboard_fits)

interpretation wire_inc: outgoing out_packet_inc size_packet_inc
  by (rule outgoing_intro) (rule packets_fit)

interpretation wire_inc_rel: outgoing out_packet_inc_rel size_packet_inc_rel
  by (rule outgoing_intro) (rule packets_fit)

interpretation wire_move: outgoing out_packet_move size_packet_move
  by (rule outgoing_intro) (rule packets_fit)

interpretation wire_move_rel: outgoing out_packet_move_rel size_packet_move_rel
  by (rule outgoing_intro) (rule packets_fit)

interpretation wire_init: outgoing out_PacketInit size_PacketInit
  by (rule outgoing_intro) (rule packets_fit)

interpretation wire_minimap: outgoing out_packet_minimap size_packet_minimap
  by (rule outgoing_intro) (rule packets_fit)

interpretation wire_pong: outgoing out_packet_pong size_PacketBase
  by (rule outgoing_intro) (rule packets_fit)

interpretation wire_sector: outgoing out_packet_sector size_packet_sector
  by (rule outgoing_intro) (rule packets_fit)

interpretation wire_rotation: outgoing out_packet_rotation size_packet_rotation
  by (rule outgoing_intro) (rule packets_fit)

interpretation wire_add_snake: outgoing out_packet_add_snake size_packet_add_snake
  by (rule outgoing_intro) (rule add_snake_fits)

interpretation wire_remove_snake: outgoing out_packet_remove_snake size_packet_remove_snake
  by (rule outgoing_intro) (rule packets_fit)

interpretation wire_debug_reset: outgoing out_packet_debug_reset size_PacketBase
  by (rule outgoing_intro) (rule packets_fit)

interpretation wire_debug_draw: outgoing out_packet_debug_draw size_packet_debug_draw
  by (rule outgoing_intro) (rule debug_draw_fits)

section \<open>Properties\<close>

text \<open>
  C13: no packet is ever cut. For every kind of packet and every content, what \<open>WSPPServer::send\<close> hands to
  the connection is exactly what the packet's \<open>operator<<\<close> writes, whether through the array of 128
  bytes or through the \<open>asio::streambuf\<close> of \<open>get_size\<close> bytes: \<open>get_size\<close> is never too small.
\<close>

theorem packets_sent_whole:
  assumes "asio_ok asio" "length raw = 128"
  shows "send_bytes asio raw out_packet_end size_packet_end p0 = out_packet_end p0 \<and>
    send_bytes asio raw out_packet_kill size_packet_kill p1 = out_packet_kill p1 \<and>
    send_bytes asio raw out_packet_set_food size_packet_set_food p2 = out_packet_set_food p2 \<and>
    send_bytes asio raw out_packet_spawn_food size_packet_spawn_food p3 = out_packet_spawn_food p3 \<and>
    send_bytes asio raw out_packet_add_food size_packet_add_food p4 = out_packet_add_food p4 \<and>
    send_bytes asio raw out_packet_eat_food size_packet_eat_food p5 = out_packet_eat_food p5 \<and>
    send_bytes asio raw out_packet_fullness size_packet_fullness p6 = out_packet_fullness p6 \<and>
    send_bytes asio raw out_packet_remove_part size_packet_remove_part p7 = out_packet_remove_part p7 \<and>
    send_bytes asio raw out_packet_highscore size_packet_highscore p8 = out_packet_highscore p8 \<and>
    send_bytes asio raw out_packet_leaderboard size_packet_leaderboard p9 = out_packet_leaderboard p9 \<and>
    send_bytes asio raw out_packet_inc size_packet_inc p10 = out_packet_inc p10 \<and>
    send_bytes asio raw out_packet_inc_rel size_packet_inc_rel p11 = out_packet_inc_rel p11 \<and>
    send_bytes asio raw out_packet_move size_packet_move p12 = out_packet_move p12 \<and>
    send_bytes asio raw out_packet_move_rel size_packet_move_rel p13 = out_packet_move_rel p13 \<and>
    send_bytes asio raw out_PacketInit size_PacketInit p14 = out_PacketInit p14 \<and>
    send_bytes asio raw out_packet_minimap size_packet_minimap p15 = out_packet_minimap p15 \<and>
    send_bytes asio raw out_packet_pong size_PacketBase p16 = out_packet_pong p16 \<and>
    send_bytes asio raw out_packet_sector size_packet_sector p17 = out_packet_sector p17 \<and>
    send_bytes asio raw out_packet_rotation size_packet_rotation p18 = out_packet_rotation p18 \<and>
    send_bytes asio raw out_packet_add_snake size_packet_add_snake p19 = out_packet_add_snake p19 \<and>
    send_bytes asio raw out_packet_remove_snake size_packet_remove_snake p20 = out_packet_remove_snake p20 \<and>
    send_bytes asio raw out_packet_debug_reset size_PacketBase p21 = out_packet_debug_reset p21 \<and>
    send_bytes asio raw out_packet_debug_draw size_packet_debug_draw p22 = out_packet_debug_draw p22"
  by (intro conjI wire_end.send_exact [OF assms]
      wire_kill.send_exact [OF assms]
      wire_set_food.send_exact [OF assms]
      wire_spawn_food.send_exact [OF assms]
      wire_add_food.send_exact [OF assms]
      wire_eat_food.send_exact [OF assms]
      wire_fullness.send_exact [OF assms]
      wire_remove_part.send_exact [OF assms]
      wire_highscore.send_exact [OF assms]
      wire_leaderboard.send_exact [OF assms]
      wire_inc.send_exact [OF assms]
      wire_inc_rel.send_exact [OF assms]
      wire_move.send_exact [OF assms]
      wire_move_rel.send_exact [OF assms]
      wire_init.send_exact [OF assms]
      wire_minimap.send_exact [OF assms]
      wire_pong.send_exact [OF assms]
      wire_sector.send_exact [OF assms]
      wire_rotation.send_exact [OF assms]
      wire_add_snake.send_exact [OF assms]
      wire_remove_snake.send_exact [OF assms]
      wire_debug_reset.send_exact [OF assms]
      wire_debug_draw.send_exact [OF assms])

theorem packets_sent_whole_witness:
  "send_bytes (\<lambda>n bs. take n bs) (replicate 128 0) out_packet_end size_packet_end (mk_packet_end 1) = Some [0, 0, 118, 1]"
proof -
  have "asio_ok (\<lambda>n bs. take n bs)" by (simp add: asio_ok_def)
  moreover have "out_packet_end (mk_packet_end 1) = Some [0, 0, 118, 1]" by code_simp
  ultimately show ?thesis using packets_sent_whole [of "\<lambda>n bs. take n bs" "replicate 128 0"] by simp
qed

end
