(* ===== verification/GameServer.thy ===== *)
theory GameServer
  imports WorldProps Packets
begin

text \<open>
  \<open>src/src/server/game.h\<close>, \<open>game.cc\<close> and the options of \<open>server/config.h\<close>: the sessions of the players,
  the handlers that websocketpp calls and the updates they broadcast.

  \<^item> A connection handle is a number, its place in the order of \<open>owner_less\<close>; \<open>sessions\<close> is the
    \<open>std::map\<close> as the list of its entries in that order. An iterator is the key it points to, and
    \<open>end()\<close> is \<open>None\<close>: following it is undefined.
  \<^item> \<open>outbox\<close> collects what goes to the connections, \<open>timer\<close> is the delay of the pending timer. What
    is written to the logs is left out.
  \<^item> Everything outside the program is in the argument \<open>env\<close>: the C library, the place of
    insertion of an \<open>unordered_map\<close>, the readings of the steady clock in milliseconds, whether
    \<open>get_con_from_hdl\<close> still finds a connection, \<open>asio::streambuf\<close> and the uninitialised bytes of an array.
\<close>

section \<open>State\<close>

type_synonym hdl = nat

record Session =
  snake_id :: u16
  last_packet_time :: int
  ses_name :: string
  ses_message :: string
  ses_protocol_version :: u8
  ses_skin :: u8

definition mk_Session :: "u16 \<Rightarrow> int \<Rightarrow> Session" where
  "mk_Session i now = \<lparr>snake_id = i, last_packet_time = now, ses_name = [], ses_message = [],
     ses_protocol_version = 0, ses_skin = 0\<rparr>"

record IncomingConfig =
  port :: u16
  cfg_help :: bool
  version :: bool
  verbose :: bool
  debug :: bool
  use_tls :: bool
  tls_cert_file :: string
  tls_key_file :: string
  cfg_world :: WorldConfig

definition default_IncomingConfig :: IncomingConfig where
  "default_IncomingConfig = \<lparr>port = 8080, cfg_help = False, version = False, verbose = False, debug = False,
     use_tls = False, tls_cert_file = [], tls_key_file = [], cfg_world = default_WorldConfig\<rparr>"

type_synonym SessionMap = "(hdl \<times> Session) list"

record GameServer =
  world :: World
  srv_init :: PacketInit
  srv_config :: IncomingConfig
  sessions :: SessionMap
  connections :: "u16 \<Rightarrow> hdl option"
  last_time_point :: int
  timer :: "int option"
  clock :: nat
  outbox :: "(hdl \<times> bytes) list"

record env =
  e_libc :: libc
  e_put :: put
  e_clock :: "nat \<Rightarrow> int"
  e_con :: "nat \<Rightarrow> hdl \<Rightarrow> bool"
  e_asio :: "nat \<Rightarrow> bytes \<Rightarrow> bytes"
  e_raw :: bytes

definition timer_interval_ms :: int where "timer_interval_ms = 10"

definition new_GameServer :: GameServer where
  "new_GameServer = \<lparr>world = empty_World, srv_init = mk_PacketInit, srv_config = default_IncomingConfig, sessions = [],
     connections = \<lambda>_. None, last_time_point = 0, timer = None, clock = 0, outbox = []\<rparr>"

section \<open>The maps\<close>

text \<open>\<open>sessions[h] = v\<close>.\<close>

fun put_session :: "hdl \<Rightarrow> Session \<Rightarrow> SessionMap \<Rightarrow> SessionMap" where
  "put_session h v [] = [(h, v)]"
| "put_session h v ((k, u) # es) =
    (if h = k then (h, v) # es else if h < k then (h, v) # (k, u) # es else (k, u) # put_session h v es)"

definition erase_session :: "hdl \<Rightarrow> GameServer \<Rightarrow> GameServer" where
  "erase_session h g = g\<lparr>sessions := filter (\<lambda>e. fst e \<noteq> h) (sessions g)\<rparr>"

text \<open>The snake behind a pointer, and a change of it.\<close>

definition snake_at :: "addr \<Rightarrow> GameServer \<Rightarrow> Snake option" where
  "snake_at a g = heap (world g) a"

definition set_snake :: "addr \<Rightarrow> Snake \<Rightarrow> GameServer \<Rightarrow> GameServer" where
  "set_snake a s g = g\<lparr>world := (world g)\<lparr>heap := (heap (world g))(a \<mapsto> s)\<rparr>\<rparr>"

section \<open>Sending\<close>

definition GetCurrentTime :: "env \<Rightarrow> GameServer \<Rightarrow> int \<times> GameServer" where
  "GetCurrentTime e g = (e_clock e (clock g), g\<lparr>clock := clock g + 1\<rparr>)"

text \<open>\<open>endpoint.send_binary\<close>: without a connection nothing is written.\<close>

definition endpoint_send :: "env \<Rightarrow> ('p \<Rightarrow> bytes option) \<Rightarrow> ('p \<Rightarrow> nat) \<Rightarrow> 'p \<Rightarrow> hdl \<Rightarrow> GameServer \<Rightarrow> GameServer option" where
  "endpoint_send e enc get_size p h g =
    (if e_con e (clock g) h then do {
       bs \<leftarrow> send_bytes (e_asio e) (e_raw e) enc get_size p;
       Some (g\<lparr>outbox := outbox g @ [(h, bs)]\<rparr>) }
     else Some g)"

text \<open>One packet to one session at the time \<open>now\<close>: the interval since its last packet goes along.\<close>

definition deliver :: "env \<Rightarrow> ('p PacketBase_scheme \<Rightarrow> bytes option) \<Rightarrow> ('p PacketBase_scheme \<Rightarrow> nat) \<Rightarrow> int \<Rightarrow>
    'p PacketBase_scheme \<Rightarrow> hdl \<Rightarrow> GameServer \<Rightarrow> GameServer option" where
  "deliver e enc get_size now p h g = do {
     v \<leftarrow> map_of (sessions g) h;
     let interval = of_int (now - last_packet_time v);
     let g = g\<lparr>sessions := put_session h (v\<lparr>last_packet_time := now\<rparr>) (sessions g)\<rparr>;
     endpoint_send e enc get_size (p\<lparr>client_time := interval\<rparr>) h g }"

definition send_binary :: "env \<Rightarrow> ('p PacketBase_scheme \<Rightarrow> bytes option) \<Rightarrow> ('p PacketBase_scheme \<Rightarrow> nat) \<Rightarrow> hdl option \<Rightarrow>
    'p PacketBase_scheme \<Rightarrow> GameServer \<Rightarrow> GameServer option" where
  "send_binary e enc get_size ses_i p g = do {
     h \<leftarrow> ses_i;
     let (now, g) = GetCurrentTime e g;
     deliver e enc get_size now p h g }"

definition broadcast_binary :: "env \<Rightarrow> ('p PacketBase_scheme \<Rightarrow> bytes option) \<Rightarrow> ('p PacketBase_scheme \<Rightarrow> nat) \<Rightarrow>
    'p PacketBase_scheme \<Rightarrow> GameServer \<Rightarrow> GameServer option" where
  "broadcast_binary e enc get_size p g =
    (let (now, g) = GetCurrentTime e g
     in fold_opt (deliver e enc get_size now p) (map fst (sessions g)) g)"

definition broadcast_debug :: "env \<Rightarrow> ('p \<Rightarrow> bytes option) \<Rightarrow> ('p \<Rightarrow> nat) \<Rightarrow> 'p \<Rightarrow> GameServer \<Rightarrow> GameServer option" where
  "broadcast_debug e enc get_size p g = fold_opt (endpoint_send e enc get_size p) (map fst (sessions g)) g"

section \<open>Looking up sessions and snakes\<close>

text \<open>\<open>end()\<close> when the snake has no connection or the connection no session.\<close>

definition LoadSessionIter :: "u16 \<Rightarrow> GameServer \<Rightarrow> hdl option" where
  "LoadSessionIter i g = do {
     h \<leftarrow> connections g i;
     map_option (\<lambda>_. h) (map_of (sessions g) h) }"

text \<open>The iterator of \<open>GetSnake\<close> is followed without a test for \<open>end()\<close>.\<close>

definition DoSnake :: "u16 \<Rightarrow> (Snake \<Rightarrow> Snake) \<Rightarrow> GameServer \<Rightarrow> GameServer option" where
  "DoSnake i f g =
    (if i > 0 then do {
       a \<leftarrow> GetSnake i (world g);
       s \<leftarrow> snake_at a g;
       Some (set_snake a (f s) g) }
     else Some g)"

definition RemoveSnake_srv :: "u16 \<Rightarrow> GameServer \<Rightarrow> GameServer option" where
  "RemoveSnake_srv i g = do {
     let g = g\<lparr>connections := (connections g)(i := None)\<rparr>;
     w \<leftarrow> RemoveSnake i (world g);
     Some (g\<lparr>world := w\<rparr>) }"

definition RemoveDeadSnakes :: "GameServer \<Rightarrow> GameServer option" where
  "RemoveDeadSnakes g = do {
     g \<leftarrow> fold_opt RemoveSnake_srv (dead (world g)) g;
     Some (g\<lparr>world := (world g)\<lparr>dead := []\<rparr>\<rparr>) }"

section \<open>Updates\<close>

text \<open>A sector is its index; the vector of sectors never changes its length after \<open>Init\<close>.\<close>

definition SendPOVUpdateTo :: "env \<Rightarrow> hdl option \<Rightarrow> addr \<Rightarrow> GameServer \<Rightarrow> GameServer option" where
  "SendPOVUpdateTo e ses_i a g = do {
     s \<leftarrow> snake_at a g;
     g \<leftarrow> fold_opt (\<lambda>k g. do {
         let c = sectors (world g) ! k;
         g \<leftarrow> send_binary e out_packet_sector size_packet_sector ses_i (mk_packet_add_sector (sec_x c) (sec_y c)) g;
         send_binary e out_packet_set_food size_packet_set_food ses_i (mk_packet_set_food (sec_food c)) g })
       (new_sectors (vp s)) g;
     let s = s\<lparr>vp := (vp s)\<lparr>new_sectors := []\<rparr>\<rparr>;
     g \<leftarrow> fold_opt (\<lambda>k g. do {
         let c = sectors (world g) ! k;
         send_binary e out_packet_sector size_packet_sector ses_i (mk_packet_remove_sector (sec_x c) (sec_y c)) g })
       (old_sectors (vp s)) g;
     Some (set_snake a (s\<lparr>vp := (vp s)\<lparr>old_sectors := []\<rparr>\<rparr>) g) }"

definition SendFoodUpdate :: "env \<Rightarrow> addr \<Rightarrow> GameServer \<Rightarrow> GameServer option" where
  "SendFoodUpdate e a g = do {
     s \<leftarrow> snake_at a g;
     g \<leftarrow> fold_opt (\<lambda>f. broadcast_binary e out_packet_eat_food size_packet_eat_food (mk_packet_eat_food (sn_id s) f))
       (eaten s) g;
     let s = s\<lparr>eaten := []\<rparr>;
     g \<leftarrow> fold_opt (\<lambda>f. broadcast_binary e out_packet_spawn_food size_packet_spawn_food (mk_packet_spawn_food f))
       (spawn s) g;
     Some (set_snake a (s\<lparr>spawn := []\<rparr>) g) }"

text \<open>The end of a dying snake: its food, the farewell, the mark that it is dead.\<close>

definition update_dying :: "env \<Rightarrow> addr \<Rightarrow> GameServer \<Rightarrow> GameServer option" where
  "update_dying e a g = do {
     s \<leftarrow> snake_at a g;
     g \<leftarrow> (if \<not> bot s then
             let ses_i = LoadSessionIter (sn_id s) g
             in if ses_i \<noteq> None then send_binary e out_packet_end size_packet_end ses_i (mk_packet_end status_death) g
                else Some g
           else Some g);
     (s, ss, r) \<leftarrow> on_dead_food_spawn (e_libc e) (s, sectors (world g), rng (world g));
     let g = g\<lparr>world := (world g)\<lparr>heap := (heap (world g))(a \<mapsto> s), sectors := ss, rng := r\<rparr>\<rparr>;
     g \<leftarrow> SendFoodUpdate e a g;
     g \<leftarrow> broadcast_binary e out_packet_remove_snake size_packet_remove_snake
       (mk_packet_remove_snake (sn_id s) status_snake_died) g;
     g \<leftarrow> broadcast_binary e out_packet_remove_snake size_packet_remove_snake
       (mk_packet_remove_snake (sn_id s) status_snake_left) g;
     s \<leftarrow> snake_at a g;
     let g = set_snake a (s\<lparr>update := update s OR change_dead\<rparr>) g;
     Some (if bot s then g\<lparr>world := (world g)\<lparr>dead := dead (world g) @ [sn_id s]\<rparr>\<rparr> else g) }"

text \<open>A change of angle or speed; \<open>flags\<close> is \<open>update\<close> as it was before the loop body.\<close>

definition rotation_of :: "u8 \<Rightarrow> Snake \<Rightarrow> packet_rotation" where
  "rotation_of flags s =
    (let rot = (mk_packet_rotation 0)\<lparr>rot_snakeId := sn_id s\<rparr>;
         rot = (if flags AND change_angle \<noteq> 0 then
                  let rot = rot\<lparr>rot_ang := angle s\<rparr>
                  in if flags AND change_wangle \<noteq> 0 then rot\<lparr>rot_wang := wangle s\<rparr> else rot
                else rot)
     in if flags AND change_speed \<noteq> 0 then rot\<lparr>rot_snakeSpeed := fl (uint (speed s)) / lit 320 10\<rparr> else rot)"

definition clear_rotation :: "u8 \<Rightarrow> Snake \<Rightarrow> Snake" where
  "clear_rotation flags s =
    (let s = (if flags AND change_angle \<noteq> 0 then
                let s = s\<lparr>update := update s XOR change_angle\<rparr>
                in if flags AND change_wangle \<noteq> 0 then s\<lparr>update := update s XOR change_wangle\<rparr> else s
              else s)
     in if flags AND change_speed \<noteq> 0 then s\<lparr>update := update s XOR change_speed\<rparr> else s)"

definition update_rotation :: "env \<Rightarrow> u8 \<Rightarrow> addr \<Rightarrow> GameServer \<Rightarrow> GameServer option" where
  "update_rotation e flags a g = do {
     s \<leftarrow> snake_at a g;
     if flags AND (change_angle OR change_speed) \<noteq> 0
     then broadcast_binary e out_packet_rotation size_packet_rotation (rotation_of flags s)
            (set_snake a (clear_rotation flags s) g)
     else Some g }"

text \<open>The length as the clients know it follows the length of the snake by one part per update.\<close>

definition update_length :: "env \<Rightarrow> addr \<Rightarrow> GameServer \<Rightarrow> GameServer option" where
  "update_length e a g = do {
     s \<leftarrow> snake_at a g;
     if clientPartsIndex s < length (parts s) then do {
       p \<leftarrow> mk_packet_inc s;
       g \<leftarrow> broadcast_binary e out_packet_inc size_packet_inc p g;
       Some (set_snake a (s\<lparr>clientPartsIndex := clientPartsIndex s + 1\<rparr>) g) }
     else do {
       g \<leftarrow> (if clientPartsIndex s > length (parts s) then do {
               g \<leftarrow> broadcast_binary e out_packet_remove_part size_packet_remove_part (mk_packet_remove_part s) g;
               Some (set_snake a (s\<lparr>clientPartsIndex := clientPartsIndex s - 1\<rparr>) g) }
             else Some g);
       p \<leftarrow> mk_packet_move s;
       broadcast_binary e out_packet_move size_packet_move p g } }"

definition update_player :: "env \<Rightarrow> u8 \<Rightarrow> addr \<Rightarrow> GameServer \<Rightarrow> GameServer option" where
  "update_player e flags a g = do {
     s \<leftarrow> snake_at a g;
     if \<not> bot s then do {
       let ses_i = LoadSessionIter (sn_id s) g;
       g \<leftarrow> SendPOVUpdateTo e ses_i a g;
       if flags AND change_fullness \<noteq> 0 then do {
         s \<leftarrow> snake_at a g;
         g \<leftarrow> send_binary e out_packet_fullness size_packet_fullness ses_i (mk_packet_fullness s) g;
         Some (set_snake a (s\<lparr>update := update s XOR change_fullness\<rparr>) g) }
       else Some g }
     else Some g }"

definition update_position :: "env \<Rightarrow> u8 \<Rightarrow> addr \<Rightarrow> GameServer \<Rightarrow> GameServer option" where
  "update_position e flags a g =
    (if flags AND change_pos \<noteq> 0 then do {
       s \<leftarrow> snake_at a g;
       let g = set_snake a (s\<lparr>update := update s XOR change_pos\<rparr>) g;
       g \<leftarrow> update_length e a g;
       g \<leftarrow> SendFoodUpdate e a g;
       update_player e flags a g }
     else Some g)"

definition update_snake_to :: "env \<Rightarrow> addr \<Rightarrow> GameServer \<Rightarrow> GameServer option" where
  "update_snake_to e a g = do {
     s \<leftarrow> snake_at a g;
     let flags = update s;
     if flags AND change_dead \<noteq> 0 then Some g
     else if flags AND change_dying \<noteq> 0 then update_dying e a g
     else do {
       g \<leftarrow> update_rotation e flags a g;
       update_position e flags a g } }"

definition BroadcastUpdates :: "env \<Rightarrow> GameServer \<Rightarrow> GameServer option" where
  "BroadcastUpdates e g = do {
     g \<leftarrow> fold_opt (update_snake_to e) (changes (world g)) g;
     Some (g\<lparr>world := FlushChanges (world g)\<rparr>) }"

section \<open>Debug drawing\<close>

text \<open>\<open>push_back(d_draw_circle{sis++, {x, y}, r, color})\<close>; the counter is 16 bits.\<close>

definition push_circle :: "flt \<Rightarrow> flt \<Rightarrow> flt \<Rightarrow> u32 \<Rightarrow> u16 \<times> d_draw_circle list \<Rightarrow> (u16 \<times> d_draw_circle list) option" where
  "push_circle x y r color st = (case st of (sis, cs) \<Rightarrow> do {
     p \<leftarrow> mk_d_draw_point x y;
     c \<leftarrow> mk_d_draw_circle (ucast sis) p r color;
     Some (sis + 1, cs @ [c]) })"

definition push_body :: "flt \<Rightarrow> u32 \<Rightarrow> Body \<Rightarrow> u16 \<times> d_draw_circle list \<Rightarrow> (u16 \<times> d_draw_circle list) option" where
  "push_body r color b = push_circle (body_x b) (body_y b) r color"

text \<open>The windows of the intersection test; the tail has one every \<open>tail_step\<close> parts.\<close>

definition draw_windows :: "Snake \<Rightarrow> u16 \<times> d_draw_circle list \<Rightarrow> (u16 \<times> d_draw_circle list) option" where
  "draw_windows s st =
    (let len = length (parts s)
     in if len \<le> 8 + tail_step then fold_opt (push_body (fl move_step_distance) 0x646464) (parts s) st
        else do {
          st \<leftarrow> push_body (fl (sector_size div 2)) 0x848484 (parts s ! 3) st;
          st \<leftarrow> push_body (fl move_step_distance) 0x646464 (parts s ! 0) st;
          st \<leftarrow> push_body (fl move_step_distance) 0x646464 (parts s ! 8) st;
          fold_opt (\<lambda>i. push_body (fl (sector_size div 2)) 0x848484 (parts s ! i))
            (filter (\<lambda>i. (i - (7 + tail_step div 2)) mod tail_step = 0) [7 + tail_step div 2..<len]) st })"

definition draw_snake :: "World \<Rightarrow> addr \<Rightarrow> d_draw_circle list \<Rightarrow> d_draw_circle list option" where
  "draw_snake w a cs = do {
     s \<leftarrow> heap w a;
     (if length (parts s) < 2 then None else Some ());
     let r1 = get_snake_body_part_radius s;
     let sec = parts s ! 1;
     let st = (sn_id s * 1000, cs);
     st \<leftarrow> push_circle (pos_x (sbb s)) (pos_y (sbb s)) (pos_r (sbb s)) 0xc8c8c8 st;
     st \<leftarrow> push_circle (get_head_x s) (get_head_y s) r1 0xc80000 st;
     st \<leftarrow> push_circle (body_x sec) (body_y sec) r1 0x3c3c3c st;
     st \<leftarrow> push_circle (body_x sec + (get_head_x s - body_x sec) / fl 2) (body_y sec + (get_head_y s - body_y sec) / fl 2)
       r1 0x646464 st;
     st \<leftarrow> push_body r1 0x646464 (last (parts s)) st;
     st \<leftarrow> fold_opt (\<lambda>k. push_circle (pos_x (sec_box (sectors w ! k))) (pos_y (sec_box (sectors w ! k)))
       (pos_r (sec_box (sectors w ! k))) 0x511883) (bb_sectors (sbb s)) st;
     st \<leftarrow> draw_windows s st;
     Some (snd st) }"

definition BroadcastDebug :: "env \<Rightarrow> GameServer \<Rightarrow> GameServer option" where
  "BroadcastDebug e g =
    (if \<not> debug (srv_config g) then Some g
     else do {
       cs \<leftarrow> fold_opt (draw_snake (world g)) (changes (world g)) [];
       let draw = mk_packet_debug_draw\<lparr>circles := cs\<rparr>;
       if \<not> draw_empty draw then broadcast_debug e out_packet_debug_draw size_packet_debug_draw draw g
       else Some g })"

section \<open>Handlers\<close>

definition BuildInitPacket :: PacketInit where
  "BuildInitPacket = mk_PacketInit\<lparr>init_game_radius := of_int game_radius, init_max_snake_parts := of_int max_snake_parts,
     init_sector_size := of_int sector_size, init_sector_count_along_edge := of_int sector_count_along_edge,
     init_spangdv := spangdv, init_nsp1 := nsp1, init_nsp2 := nsp2, init_nsp3 := nsp3,
     snake_ang_speed := fl 8 * snake_angular_speed / fl 1000, prey_ang_speed := fl 8 * prey_angular_speed / fl 1000,
     init_snake_tail_k := snake_tail_k, init_protocol_version := protocol_version\<rparr>"

definition NextTick :: "env \<Rightarrow> int \<Rightarrow> GameServer \<Rightarrow> GameServer" where
  "NextTick e t g =
    (let (now, g) = GetCurrentTime e g
     in g\<lparr>last_time_point := t, timer := Some (max 0 (timer_interval_ms - (now - t)))\<rparr>)"

text \<open>\<open>err\<close> is whether the timer was cancelled or failed: then no other one is set.\<close>

definition on_timer :: "env \<Rightarrow> bool \<Rightarrow> GameServer \<Rightarrow> GameServer option" where
  "on_timer e err g = do {
     let (now, g) = GetCurrentTime e (g\<lparr>timer := None\<rparr>);
     let dt = now - last_time_point g;
     if err then Some g
     else do {
       w \<leftarrow> World_Tick (e_libc e) dt (world g);
       g \<leftarrow> BroadcastDebug e (g\<lparr>world := w\<rparr>);
       g \<leftarrow> BroadcastUpdates e g;
       g \<leftarrow> RemoveDeadSnakes g;
       let (_, g) = GetCurrentTime e g;
       Some (NextTick e now g) } }"

text \<open>The local \<open>shared_ptr\<close> keeps the new snake until the handler returns.\<close>

definition on_open :: "env \<Rightarrow> hdl \<Rightarrow> GameServer \<Rightarrow> GameServer option" where
  "on_open e h g = do {
     (a, w) \<leftarrow> CreateSnake (e_libc e) (world g);
     w \<leftarrow> AddSnake (e_put e) a w;
     s \<leftarrow> heap w a;
     let (now, g) = GetCurrentTime e (g\<lparr>world := w\<rparr>);
     let g = g\<lparr>sessions := put_session h (mk_Session (sn_id s) now) (sessions g),
               connections := (connections g)(sn_id s \<mapsto> h)\<rparr>;
     g \<leftarrow> endpoint_send e out_PacketInit size_PacketInit (srv_init g) h g;
     g \<leftarrow> broadcast_binary e out_packet_add_snake size_packet_add_snake (mk_packet_add_snake s) g;
     p \<leftarrow> mk_packet_move s;
     g \<leftarrow> broadcast_binary e out_packet_move size_packet_move p g;
     g \<leftarrow> SendPOVUpdateTo e (Some h) a g;
     g \<leftarrow> fold_opt (\<lambda>c g. if fst c \<noteq> sn_id s then do {
         t \<leftarrow> snake_at (snd c) g;
         g \<leftarrow> send_binary e out_packet_add_snake size_packet_add_snake (Some h) (mk_packet_add_snake t) g;
         p \<leftarrow> mk_packet_move t;
         send_binary e out_packet_move size_packet_move (Some h) p g }
       else Some g) (snakes (world g)) g;
     Some (g\<lparr>world := release a (world g)\<rparr>) }"

text \<open>\<open>buf >> c\<close> for a byte \<open>c\<close> is formatted input: white space is skipped, at the end \<open>c\<close> stays.\<close>

definition is_space :: "u8 \<Rightarrow> bool" where
  "is_space b \<longleftrightarrow> b = 32 \<or> 9 \<le> b \<and> b \<le> 13"

definition in_byte :: "u8 \<Rightarrow> bytes \<Rightarrow> u8 \<times> bytes" where
  "in_byte old bs = in_get old (dropWhile is_space bs)"

definition set_wangle :: "flt \<Rightarrow> Snake \<Rightarrow> Snake" where
  "set_wangle ang s = s\<lparr>wangle := ang, update := update s OR change_wangle\<rparr>"

definition set_skin :: "string \<Rightarrow> u8 \<Rightarrow> Snake \<Rightarrow> Snake" where
  "set_skin n k s = s\<lparr>sn_name := n, skin := k\<rparr>"

text \<open>
  The version and the skin of a player. \<open>buf.str(ss.name)\<close> replaces the contents of the stream by the
  name instead of reading the name: the session keeps its empty name.
\<close>

definition username_skin :: "hdl \<Rightarrow> Session \<Rightarrow> bytes \<Rightarrow> GameServer \<Rightarrow> GameServer option" where
  "username_skin h v bs g = do {
     let (pv, bs) = in_byte (ses_protocol_version v) bs;
     let (sk, bs) = in_byte (ses_skin v) bs;
     let v = v\<lparr>ses_protocol_version := pv, ses_skin := sk\<rparr>;
     let g = g\<lparr>sessions := put_session h v (sessions g)\<rparr>;
     DoSnake (snake_id v) (set_skin (ses_name v) (ses_skin v)) g }"

definition on_message :: "env \<Rightarrow> hdl \<Rightarrow> bool \<Rightarrow> bytes \<Rightarrow> GameServer \<Rightarrow> GameServer option" where
  "on_message e h binary payload g =
    (if \<not> binary then Some g
     else
       let (packet_type, buf) = in_get in_packet_t_angle payload; len = length payload
       in if len > 255 then Some g
          else case map_of (sessions g) h of
            None \<Rightarrow> Some g
          | Some v \<Rightarrow>
              if packet_type \<le> 250 \<and> len = 1 then
                DoSnake (snake_id v) (set_wangle (f_pi * fl (uint packet_type) / lit 1250 10)) g
              else if packet_type = in_packet_t_ping then
                send_binary e out_packet_pong size_PacketBase (Some h) (mk_packet_pong 0) g
              else if packet_type = in_packet_t_username_skin then username_skin h v buf g
              else if packet_type = in_packet_t_start_acc then DoSnake (snake_id v) (\<lambda>s. s\<lparr>acceleration := True\<rparr>) g
              else if packet_type = in_packet_t_stop_acc then DoSnake (snake_id v) (\<lambda>s. s\<lparr>acceleration := False\<rparr>) g
              else Some g)"

definition on_close :: "hdl \<Rightarrow> GameServer \<Rightarrow> GameServer option" where
  "on_close h g =
    (case map_of (sessions g) h of
       None \<Rightarrow> Some g
     | Some v \<Rightarrow> RemoveSnake_srv (snake_id v) (erase_session h g))"

text \<open>What \<open>Run\<close> does before it enters the event loop; listening and accepting are websocketpp's.\<close>

definition Run_start :: "env \<Rightarrow> nat \<Rightarrow> IncomingConfig \<Rightarrow> GameServer \<Rightarrow> GameServer option" where
  "Run_start e seed in_config g = do {
     let g = g\<lparr>srv_config := in_config\<rparr>;
     w \<leftarrow> World_Init (e_libc e) (e_put e) seed (cfg_world in_config) (world g);
     let g = g\<lparr>world := w, srv_init := BuildInitPacket\<rparr>;
     let (now, g) = GetCurrentTime e g;
     Some (NextTick e now g) }"

section \<open>The event loop\<close>

text \<open>The calls of websocketpp, one at a time; a handler runs to its end before the next one starts.\<close>

datatype event = Open hdl | Message hdl bool bytes | Close hdl | Timer bool

fun handle :: "env \<Rightarrow> event \<Rightarrow> GameServer \<Rightarrow> GameServer option" where
  "handle e (Open h) = on_open e h"
| "handle e (Message h binary payload) = on_message e h binary payload"
| "handle e (Close h) = on_close h"
| "handle e (Timer err) = on_timer e err"

end
