(* ===== verification/PacketProps.thy ===== *)
theory PacketProps
  imports Packets TickSafety
begin

text \<open>
  What a client gets out of the packets: readers for the layouts documented beside the packet structs,
  and for each group of packets whether reading gives back what was written.
\<close>

section \<open>Readers\<close>

definition read_PacketBase :: "bytes \<Rightarrow> (PacketBase \<times> bytes) option" where
  "read_PacketBase bs = do {
     (t, r) \<leftarrow> read16 bs;
     (k, r) \<leftarrow> read8 r;
     Some (\<lparr>client_time = t, packet_type = k\<rparr>, r) }"

definition read_packet_end :: "bytes \<Rightarrow> packet_end option" where
  "read_packet_end bs = do {
     (p, r) \<leftarrow> read_PacketBase bs;
     (st, r) \<leftarrow> read8 r;
     (if packet_type p = packet_t_end \<and> r = [] then Some (PacketBase.extend p (packet_end.fields st)) else None) }"

definition read_packet_sector :: "bytes \<Rightarrow> packet_sector option" where
  "read_packet_sector bs = do {
     (p, r) \<leftarrow> read_PacketBase bs;
     (x, r) \<leftarrow> read8 r;
     (y, r) \<leftarrow> read8 r;
     (if packet_type p \<in> {packet_t_add_sector, packet_t_rem_sector} \<and> r = []
      then Some (PacketBase.extend p (packet_sector.fields x y)) else None) }"

definition read_packet_move :: "bytes \<Rightarrow> packet_move option" where
  "read_packet_move bs = do {
     (p, r) \<leftarrow> read_PacketBase bs;
     (i, r) \<leftarrow> read16 r;
     (x, r) \<leftarrow> read16 r;
     (y, r) \<leftarrow> read16 r;
     (if packet_type p = packet_t_mov \<and> r = [] then Some (PacketBase.extend p (packet_move.fields i x y)) else None) }"

definition read_packet_remove_snake :: "bytes \<Rightarrow> packet_remove_snake option" where
  "read_packet_remove_snake bs = do {
     (p, r) \<leftarrow> read_PacketBase bs;
     (i, r) \<leftarrow> read16 r;
     (st, r) \<leftarrow> read8 r;
     (if packet_type p = packet_t_snake \<and> r = [] then Some (PacketBase.extend p (packet_remove_snake.fields i st))
      else None) }"

text \<open>Food: colour, position, and a fifth of the last byte as the size.\<close>

definition read_food :: "bytes \<Rightarrow> (Food \<times> bytes) option" where
  "read_food bs = do {
     (c, r) \<leftarrow> read8 bs;
     (x, r) \<leftarrow> read16 r;
     (y, r) \<leftarrow> read16 r;
     (v, r) \<leftarrow> read8 r;
     Some (mk_food x y (v div 5) c, r) }"

fun read_foods :: "nat \<Rightarrow> bytes \<Rightarrow> FoodSeq option" where
  "read_foods n [] = Some []"
| "read_foods 0 (b # bs) = None"
| "read_foods (Suc n) (b # bs) = do {
     (f, r) \<leftarrow> read_food (b # bs);
     fs \<leftarrow> read_foods n r;
     Some (f # fs) }"

definition read_packet_set_food :: "bytes \<Rightarrow> FoodSeq option" where
  "read_packet_set_food bs = do {
     (p, r) \<leftarrow> read_PacketBase bs;
     (if packet_type p = packet_t_set_food then read_foods (length r) r else None) }"

text \<open>A fullness in percent, rounded from its share of \<open>0xFFFFFF\<close>.\<close>

definition read_fullness :: "bytes \<Rightarrow> (int \<times> bytes) option" where
  "read_fullness bs = map_option (\<lambda>(v, r). ((uint v * 100 + 8388607) div 16777215, r)) (read24 bs)"

lemma read_PacketBase_out [simp]: "read_PacketBase (out_PacketBase p @ bs) = Some (PacketBase.truncate p, bs)"
  by (simp add: read_PacketBase_def out_PacketBase_def PacketBase.defs)

lemma reads_at_end [simp]: "read8 (write_uint8 v) = Some (v, [])" "read16 (write_uint16 w) = Some (w, [])"
  using read8_write [of v "[]"] read16_write [of w "[]"] by simp_all

section \<open>Small packets\<close>

text \<open>
  C24: the small packets survive the wire. A client reading the bytes of an end, sector, move or
  remove-snake packet gets back the packet itself, every field included.
\<close>

theorem small_packets_roundtrip:
  "map_option read_packet_end (out_packet_end (p1\<lparr>packet_type := packet_t_end\<rparr>)) = Some (Some (p1\<lparr>packet_type := packet_t_end\<rparr>)) \<and>
   map_option read_packet_sector (out_packet_sector (p2\<lparr>packet_type := packet_t_add_sector\<rparr>)) =
     Some (Some (p2\<lparr>packet_type := packet_t_add_sector\<rparr>)) \<and>
   map_option read_packet_sector (out_packet_sector (p2\<lparr>packet_type := packet_t_rem_sector\<rparr>)) =
     Some (Some (p2\<lparr>packet_type := packet_t_rem_sector\<rparr>)) \<and>
   map_option read_packet_move (out_packet_move (p3\<lparr>packet_type := packet_t_mov\<rparr>)) = Some (Some (p3\<lparr>packet_type := packet_t_mov\<rparr>)) \<and>
   map_option read_packet_remove_snake (out_packet_remove_snake (p4\<lparr>packet_type := packet_t_snake\<rparr>)) =
     Some (Some (p4\<lparr>packet_type := packet_t_snake\<rparr>))"
  by (simp add: read_packet_end_def read_packet_sector_def read_packet_move_def read_packet_remove_snake_def
      out_packet_end_def out_packet_sector_def out_packet_move_def out_packet_remove_snake_def
      PacketBase.defs packet_end.defs packet_sector.defs packet_move.defs packet_remove_snake.defs)

section \<open>Food\<close>

lemma uint_byte: "uint (of_int n :: u8) = n mod 256"
  by (simp add: uint_word_of_int)

lemma size_byte: "(of_int (uint (s :: u8) * 5) :: u8) div 5 = s \<longleftrightarrow> s \<le> 51"
proof -
  let ?u = "uint s"
  have u: "0 \<le> ?u" "?u < 256" using uint_lt2p [of s] by simp_all
  have "(of_int (?u * 5) :: u8) div 5 = s \<longleftrightarrow> (?u * 5) mod 256 div 5 = ?u"
    unfolding word_uint_eq_iff uint_div uint_byte by simp
  also have "\<dots> \<longleftrightarrow> ?u \<le> 51"
  proof (cases "?u \<le> 51")
    case True
    then have "?u * 5 < 256" by simp
    then show ?thesis using True u by simp
  next
    case False
    have "(?u * 5) mod 256 < 256" by simp
    then have "(?u * 5) mod 256 div 5 \<le> 51" by linarith
    with False show ?thesis by auto
  qed
  also have "\<dots> \<longleftrightarrow> s \<le> 51" by (simp add: word_le_def)
  finally show ?thesis .
qed

lemma read_food_out: "read_food (out_food f @ bs) = Some (f\<lparr>food_size := of_int (uint (food_size f) * 5) div 5\<rparr>, bs)"
  by (simp add: read_food_def out_food_def mk_food_def)

lemma read_foods_out:
  "length (concat (map out_food fs)) \<le> n \<Longrightarrow> read_foods n (concat (map out_food fs)) =
    Some (map (\<lambda>f. f\<lparr>food_size := of_int (uint (food_size f) * 5) div 5\<rparr>) fs)"
proof (induction fs arbitrary: n)
  case Nil
  then show ?case by (cases n) simp_all
next
  case (Cons f fs)
  obtain b bs where b: "out_food f = b # bs" by (simp add: out_food_def write_uint8_def)
  obtain k where n: "n = Suc k" using Cons.prems b by (cases n) simp_all
  have "length (concat (map out_food fs)) \<le> k" using Cons.prems by (simp add: n length_out_food)
  note ih = Cons.IH [OF this]
  have "read_food (b # (bs @ concat (map out_food fs))) =
      Some (f\<lparr>food_size := of_int (uint (food_size f) * 5) div 5\<rparr>, concat (map out_food fs))"
    using read_food_out [of f "concat (map out_food fs)"] by (simp add: b)
  then show ?case using ih by (simp add: b n)
qed

lemma map_idI_iff: "map g xs = xs \<longleftrightarrow> (\<forall>x \<in> set xs. g x = x)"
  by (induction xs) simp_all

lemma puts_foods: "puts (map (\<lambda>f. Some (out_food f)) fs) = Some (concat (map out_food fs))"
  by (induction fs) simp_all

text \<open>
  C25: food is sent faithfully as long as it is small. A client reading a set-food packet gets the whole
  list of the sector back if and only if no size exceeds 51: the byte holds five times the size.
\<close>

theorem set_food_roundtrip:
  "map_option read_packet_set_food (out_packet_set_food (mk_packet_set_food fs)) = Some (Some fs) \<longleftrightarrow>
    (\<forall>f \<in> set fs. food_size f \<le> 51)"
proof -
  let ?g = "\<lambda>f. f\<lparr>food_size := of_int (uint (food_size f) * 5) div 5\<rparr> :: Food"
  have o: "out_packet_set_food (mk_packet_set_food fs) =
      Some (out_PacketBase (mk_packet_set_food fs) @ concat (map out_food fs))"
    by (simp add: out_packet_set_food_def puts_foods mk_packet_set_food_def)
  have "read_packet_set_food (out_PacketBase (mk_packet_set_food fs) @ concat (map out_food fs)) = Some (map ?g fs)"
    unfolding read_packet_set_food_def read_PacketBase_out using read_foods_out [of fs, OF order_refl]
    by (simp add: mk_packet_set_food_def PacketBase.defs)
  then have r: "map_option read_packet_set_food (out_packet_set_food (mk_packet_set_food fs)) = Some (Some (map ?g fs))"
    unfolding o by simp
  have "map ?g fs = fs \<longleftrightarrow> (\<forall>f \<in> set fs. ?g f = f)" by (rule map_idI_iff)
  moreover have "?g f = f \<longleftrightarrow> food_size f \<le> 51" for f
    unfolding size_byte [symmetric] by (cases f) simp
  ultimately show ?thesis unfolding r by simp
qed

theorem set_food_roundtrip_witness:
  "map_option read_packet_set_food (out_packet_set_food (mk_packet_set_food [mk_food 1 2 10 4])) =
     Some (Some [mk_food 1 2 10 4])"
  using set_food_roundtrip [of "[mk_food 1 2 10 4]"] by (simp add: mk_food_def)

section \<open>Fullness\<close>

lemma fullness_table:
  "list_all (\<lambda>f. case write_fp24 (fl (int f) / fl 100) of Some bs \<Rightarrow> read_fullness bs = Some (int f, []) | None \<Rightarrow> False) [0..<100]"
  by code_simp

lemma fullness_out: "f < 100 \<Longrightarrow> \<exists>bs. write_fp24 (fl (int f) / fl 100) = Some bs \<and> read_fullness bs = Some (int f, [])"
proof -
  assume "f < 100"
  then have "f \<in> set [0..<100]" by simp
  with fullness_table have "case write_fp24 (fl (int f) / fl 100) of Some bs \<Rightarrow> read_fullness bs = Some (int f, []) | None \<Rightarrow> False"
    unfolding list_all_iff by blast
  then show ?thesis by (simp split: option.splits)
qed

text \<open>
  C26: a fullness below 100, as the snake's invariant keeps it, survives the wire: the 24-bit share
  a client reads, rounded to percent, is the fullness itself, after the id of the snake.
\<close>

theorem fullness_roundtrip:
  assumes "fullness s < 100"
  shows "\<exists>bs. out_packet_fullness (mk_packet_fullness s) =
      Some (out_PacketBase (mk_PacketBase packet_t_set_fullness 0) @ write_uint16 (sn_id s) @ bs) \<and>
    read_fullness bs = Some (uint (fullness s), [])"
proof -
  have n: "unat (fullness s) < 100" using assms by (simp add: word_less_nat_alt)
  have u: "uint (ucast (fullness s) :: u8) = int (unat (fullness s))"
    using assms by (simp add: unsigned_ucast_eq take_bit_eq_mod word_less_def)
  from fullness_out [OF n] obtain bs where
    bs: "write_fp24 (fl (int (unat (fullness s))) / fl 100) = Some bs" "read_fullness bs = Some (int (unat (fullness s)), [])"
    by blast
  then show ?thesis
    by (intro exI [of _ bs])
      (simp add: out_packet_fullness_def mk_packet_fullness_def u puts_Cons out_PacketBase_def mk_PacketBase_def)
qed

theorem fullness_roundtrip_witness:
  "\<exists>bs. out_packet_fullness (mk_packet_fullness (centre_snake\<lparr>fullness := 20\<rparr>)) =
      Some (out_PacketBase (mk_PacketBase packet_t_set_fullness 0) @ write_uint16 7 @ bs) \<and>
    read_fullness bs = Some (20, [])"
  using fullness_roundtrip [of "centre_snake\<lparr>fullness := 20\<rparr>"] by (simp add: centre_snake_def sample_snake_def)

section \<open>Rotation\<close>

text \<open>
  The layouts of rotation packets, as a client tells them apart: by the type and the length of the
  packet. The answer is which of angle, wanted angle and speed follow the id.
\<close>

definition rotation_layout :: "u8 \<Rightarrow> nat \<Rightarrow> (bool \<times> bool \<times> bool) option" where
  "rotation_layout t n =
    (if t = of_char (CHR ''e'') then
       (if n = 5 then Some (False, False, False) else if n = 6 then Some (True, False, False)
        else if n = 7 then Some (True, False, True) else if n = 8 then Some (True, True, True) else None)
     else if t = of_char (CHR ''E'') then
       (if n = 6 then Some (False, True, False) else if n = 7 then Some (False, True, True) else None)
     else if t = of_char (CHR ''3'') then
       (if n = 6 then Some (False, False, True) else if n = 7 then Some (True, True, False) else None)
     else if t = of_char (CHR ''4'') then (if n = 8 then Some (True, True, True) else None)
     else if t = of_char (CHR ''5'') then (if n = 7 then Some (True, True, False) else None)
     else None)"

definition present :: "flt \<Rightarrow> bool" where
  "present v \<longleftrightarrow> \<not> feq v (lit (- 1) 1)"

lemma rot_type_layout:
  "rotation_layout (get_rot_type p)
     (5 + of_bool (present (rot_ang p)) + of_bool (present (rot_wang p)) + of_bool (present (rot_snakeSpeed p))) =
   Some (present (rot_ang p), present (rot_wang p), present (rot_snakeSpeed p))"
  by (auto simp: get_rot_type_def rotation_layout_def present_def Let_def packet_t_rot_ccw_ang_def packet_t_rot_ccw_sp_def
      packet_t_rot_ccw_ang_sp_def packet_t_rot_ccw_wang_def packet_t_rot_ccw_wang_sp_def packet_t_rot_cw_ang_wang_def
      packet_t_rot_ccw_ang_wang_def packet_t_rot_cw_ang_wang_sp_def packet_t_rot_ccw_ang_wang_sp_def)

lemma rot_type_direction:
  "present (rot_ang p) \<Longrightarrow> present (rot_wang p) \<Longrightarrow>
   (get_rot_type p \<in> {of_char (CHR ''4''), of_char (CHR ''5'')}) = is_clockwise p"
  by (auto simp: get_rot_type_def present_def Let_def packet_t_rot_cw_ang_wang_def
      packet_t_rot_ccw_ang_wang_def packet_t_rot_cw_ang_wang_sp_def packet_t_rot_ccw_ang_wang_sp_def)

lemma rotation_out:
  assumes "out_packet_rotation p = Some bs"
  shows "length bs = 5 + of_bool (present (rot_ang p)) + of_bool (present (rot_wang p)) + of_bool (present (rot_snakeSpeed p))"
    and "bs ! 2 = get_rot_type p"
proof -
  have "length bs = 5 + of_bool (present (rot_ang p)) + of_bool (present (rot_wang p)) + of_bool (present (rot_snakeSpeed p)) \<and>
    bs ! 2 = get_rot_type p"
    using assms fp_lengths(5)
    by (auto simp: out_packet_rotation_def present_def puts_append puts_Cons bind_eq_Some_conv size_facts
        out_PacketBase_def write_uint16_def write_uint8_def mk_PacketBase_def split: if_splits)
  then show "length bs = 5 + of_bool (present (rot_ang p)) + of_bool (present (rot_wang p)) + of_bool (present (rot_snakeSpeed p))"
    "bs ! 2 = get_rot_type p" by simp_all
qed

text \<open>
  C27: rotation packets are never ambiguous. The nine names of types share five letters, but the letter and
  the length of the packet together determine which of angle, wanted angle and speed are in it, and
  when both angles are, the letter tells the direction of the turn.
\<close>

theorem rotation_unambiguous:
  assumes "out_packet_rotation p = Some bs"
  shows "rotation_layout (bs ! 2) (length bs) =
      Some (present (rot_ang p), present (rot_wang p), present (rot_snakeSpeed p)) \<and>
    (present (rot_ang p) \<and> present (rot_wang p) \<longrightarrow>
      (bs ! 2 \<in> {of_char (CHR ''4''), of_char (CHR ''5'')}) = is_clockwise p)"
  unfolding rotation_out [OF assms] using rot_type_layout rot_type_direction by blast

theorem rotation_unambiguous_witness:
  "\<exists>bs. out_packet_rotation ((mk_packet_rotation 0)\<lparr>rot_snakeId := 7, rot_ang := fl 1\<rparr>) = Some bs \<and>
    rotation_layout (bs ! 2) (length bs) = Some (True, False, False)"
proof -
  have bs: "out_packet_rotation ((mk_packet_rotation 0)\<lparr>rot_snakeId := 7, rot_ang := fl 1\<rparr>) = Some [0, 0, 101, 0, 7, 40]"
    by code_simp
  have "present (fl 1)" "\<not> present (lit (- 1) 1)" by code_simp+
  with rotation_unambiguous [OF bs] bs show ?thesis by (simp add: mk_packet_rotation_def)
qed

section \<open>Angles\<close>

lemma M_2PI_value: "M_2PI = Fin False 7074237752028440 (- 50)"
  by code_simp

lemma f_2pi_out_of_byte: "write_ang8 f_2pi = None" "normalize_angle (lit (- 1) 1000000000) = f_2pi"
  by code_simp+

lemma grid_double_dyadic: "\<bar>k\<bar> \<le> 9007199254740992 \<Longrightarrow> - 1074 \<le> j \<Longrightarrow> grid double (of_int k * 2 powi j)"
  unfolding grid_def
  by (rule exI [of _ k], rule exI [of _ j]) (simp add: double_def pow2_eq)

lemma top_double: "1000 \<le> top_pow double"
proof -
  have "(2::real) powi 10 \<le> 2 powi 1023" by (rule power_int_increasing) simp_all
  then show ?thesis by (simp add: top_pow_def double_def)
qed

lemma to_u8_defined:
  assumes "isfin x" "- 1 < fval x" "fval x < 256"
  shows "to_u8 x \<noteq> None"
proof -
  define n where "n = (if fval x < 0 then \<lceil>fval x\<rceil> else \<lfloor>fval x\<rfloor>)"
  have "0 \<le> n" "n \<le> 255" using assms(2,3) by (auto simp: n_def le_ceiling_iff ceiling_le_iff floor_le_iff)
  then show ?thesis using trunc_value [OF assms(1)] by (simp add: to_u8_def cast_range_def n_def [symmetric])
qed

lemma write_ang8_defined:
  assumes "isfin v" "- 1 / 64 \<le> fval v" "fval v \<le> 13176794 / 2097152"
  shows "write_ang8 v \<noteq> None"
proof -
  let ?w = "fl 256 * v"
  have f: "isfin (fl 256)" "fval (fl 256) = 256" using fl_value [of 256] by simp_all
  have r: "- 4 \<le> 256 * fval v" "256 * fval v \<le> of_int 13176794 * 2 powi (- 13)"
    using assms(2,3) by (simp_all add: power_int_def power_divide)
  have "\<bar>fval (fl 256) * fval v\<bar> \<le> top_pow single" unfolding f(2) using assms(2,3) top_single by simp
  note m = mult_value [OF f(1) assms(1) this, unfolded f(2)]
  have g: "grid single (of_int 13176794 * 2 powi (- 13))" "grid single (- 4)"
    using grid_single_dyadic [of 13176794 "- 13"] grid_single_int [of "- 4"] by simp_all
  have w: "- 4 \<le> fval ?w" "fval ?w \<le> of_int 13176794 * 2 powi (- 13)"
    by (rule rnd_of_ge [OF m(2) g(2) r(1)], rule rnd_of_le [OF m(2) g(1) r(2)])
  have M: "isfin M_2PI" "fval M_2PI = 7074237752028440 / 1125899906842624"
    unfolding M_2PI_value by (simp_all add: power_int_def power_divide)
  let ?N = "of_int 33554431 * 2 powi (- 17) :: real" and ?L = "of_int (- 3) * 2 powi (- 2) :: real"
  have N: "?N = 33554431 / 131072" "?L = - 3 / 4" by (simp_all add: power_int_def power_divide)
  have q: "?L \<le> fval ?w / fval M_2PI" "fval ?w / fval M_2PI \<le> ?N"
    using w unfolding M(2) N by (simp_all add: power_int_def power_divide)
  have "\<bar>fval ?w / fval M_2PI\<bar> \<le> top_pow double" using q top_double unfolding N by linarith
  moreover have "fval M_2PI \<noteq> 0" by (simp add: M(2))
  ultimately have dv: "isfin (fl_div double ?w M_2PI) \<and> rnd_of double (fval ?w / fval M_2PI) (fval (fl_div double ?w M_2PI))"
    by (intro fl_div_value [OF fmt_ok_double m(1) M(1)])
  then have d: "isfin (fl_div double ?w M_2PI)" "rnd_of double (fval ?w / fval M_2PI) (fval (fl_div double ?w M_2PI))" by blast+
  have "grid double ?N" "grid double ?L" by (rule grid_double_dyadic; simp)+
  from rnd_of_le [OF d(2) this(1) q(2)] rnd_of_ge [OF d(2) this(2) q(1)]
  have b: "- 1 < fval (fl_div double ?w M_2PI)" "fval (fl_div double ?w M_2PI) < 256" unfolding N by simp_all
  from to_u8_defined [OF d(1) this] show ?thesis by (simp add: write_ang8_def)
qed

text \<open>
  C28: the edge of the angle byte. Writing an angle is defined for every float from a little below 0 up to
  the last one below \<open>f_2pi\<close>, but not for \<open>f_2pi\<close> itself, and \<open>normalize_angle\<close> gives just that for a
  tiny negative angle: the conversion to a byte is then out of range.
\<close>

theorem angle_byte_range:
  "(isfin v \<and> - 1 / 64 \<le> fval v \<and> fval v \<le> 13176794 / 2097152 \<longrightarrow> write_ang8 v \<noteq> None) \<and>
   fval f_2pi = 13176795 / 2097152 \<and> write_ang8 f_2pi = None \<and> normalize_angle (lit (- 1) 1000000000) = f_2pi"
  using f_2pi_out_of_byte f_2pi_value write_ang8_defined by simp

theorem angle_byte_range_witness:
  "write_ang8 (fl 6) \<noteq> None"
  using angle_byte_range [of "fl 6"] fl_value [of 6] by simp

section \<open>Bodies\<close>

lemma puts_None: "None \<in> set ws \<Longrightarrow> puts ws = None"
  by (induction ws) (auto simp: puts_Cons bind_eq_None_conv)

text \<open>An offset of a quarter pixel is written as none at all.\<close>

lemma exact_quarter: "\<bar>k\<bar> \<le> 16777216 \<Longrightarrow> rnd_of single (of_int k / 4) v \<Longrightarrow> v = of_int k / 4"
  using rnd_of_exact [of single "of_int k / 4" v] grid_single_dyadic [of k "- 2"]
  by (simp add: power_int_def power_divide)

lemma small_offset:
  assumes "isfin d" "fval d = 0 \<or> fval d = 1 / 4"
  shows "map_option write_uint8 (to_u8 (d * fl 2 + lit 1270 10)) = Some [127]"
proof -
  have c: "lit 1270 10 = fl 127" by code_simp
  have f: "isfin (fl 2)" "fval (fl 2) = 2" "isfin (fl 127)" "fval (fl 127) = 127"
    using fl_value [of 2] fl_value [of 127] by simp_all
  obtain k :: int where k: "fval d * 2 = of_int k / 4" "k = 0 \<or> k = 2"
    using assms(2) that [of 0] that [of 2] by auto
  have "\<bar>fval d * fval (fl 2)\<bar> \<le> top_pow single" using k top_single by (auto simp: f)
  note m = mult_value [OF assms(1) f(1) this, unfolded f k(1)]
  have v: "fval (d * fl 2) = of_int k / 4" using exact_quarter [OF _ m(2)] k(2) by auto
  have s: "fval (d * fl 2) + fval (fl 127) = of_int (k + 508) / 4" by (simp add: v f)
  have "\<bar>fval (d * fl 2) + fval (fl 127)\<bar> \<le> top_pow single" using k(2) top_single by (auto simp: s)
  note a = add_value [OF m(1) f(3) this, unfolded s]
  have w: "fval (d * fl 2 + fl 127) = of_int (k + 508) / 4" using exact_quarter [OF _ a(2)] k(2) by auto
  have "\<lfloor>fval (d * fl 2 + fl 127)\<rfloor> = 127" using k(2) by (auto simp: w floor_eq_iff)
  moreover have "\<not> fval (d * fl 2 + fl 127) < 0" using k(2) by (auto simp: w)
  ultimately have "trunc (d * fl 2 + fl 127) = Some 127" using trunc_value [OF a(1)] by simp
  then show ?thesis by (simp add: c to_u8_def cast_range_def write_uint8_def)
qed

definition slant :: "int \<Rightarrow> Body" where
  "slant i = \<lparr>body_x = Fin False (86400 + i) (- 2), body_y = fl 21600\<rparr>"

lemma slant_offsets:
  assumes "isfin hx" "fval hx = (86400 + of_int i) / 4" "isfin hy" "fval hy = 21600" "0 \<le> i" "i + int n \<le> 4000"
  shows "out_offsets hx hy (map slant [i + 1..i + int n]) = Some (replicate (2 * n) 127)"
  using assms
proof (induction n arbitrary: i hx hy)
  case 0
  then show ?case by simp
next
  case (Suc n)
  let ?p = "slant (i + 1)"
  have px: "isfin (body_x ?p)" "fval (body_x ?p) = (86400 + of_int (i + 1)) / 4"
    using Suc.prems(5) by (simp_all add: slant_def power_int_def power_divide)
  have py: "isfin (body_y ?p)" "fval (body_y ?p) = 21600" using fl_value [of 21600] by (simp_all add: slant_def)
  have dx: "fval (body_x ?p) - fval hx = of_int 1 / 4" and dy: "fval (body_y ?p) - fval hy = of_int 0 / 4"
    using Suc.prems(2,4) px(2) py(2) by (simp_all add: field_simps)
  have t: "\<bar>of_int 1 / 4 :: real\<bar> \<le> top_pow single" "\<bar>of_int 0 / 4 :: real\<bar> \<le> top_pow single" using top_single by simp_all
  note x = diff_value [OF px(1) Suc.prems(1), unfolded dx, OF t(1)]
  note y = diff_value [OF py(1) Suc.prems(3), unfolded dy, OF t(2)]
  have vx: "fval (body_x ?p - hx) = 1 / 4" and vy: "fval (body_y ?p - hy) = 0"
    using exact_quarter [OF _ x(2)] exact_quarter [OF _ y(2)] by simp_all
  have sx: "fval hx + fval (body_x ?p - hx) = of_int (86400 + (i + 1)) / 4"
    and sy: "fval hy + fval (body_y ?p - hy) = of_int 86400 / 4" using Suc.prems(2,4) vx vy by (simp_all add: field_simps)
  have u: "\<bar>of_int (86400 + (i + 1)) / 4 :: real\<bar> \<le> top_pow single" "\<bar>of_int 86400 / 4 :: real\<bar> \<le> top_pow single"
    using top_single Suc.prems(5,6) by simp_all
  note hx = add_value [OF Suc.prems(1) x(1), unfolded sx, OF u(1)]
  note hy = add_value [OF Suc.prems(3) y(1), unfolded sy, OF u(2)]
  have "fval (hx + (body_x ?p - hx)) = (86400 + of_int (i + 1)) / 4" "fval (hy + (body_y ?p - hy)) = 21600"
    using exact_quarter [OF _ hx(2)] exact_quarter [OF _ hy(2)] Suc.prems(5,6) by simp_all
  note ih = Suc.IH [OF hx(1) this(1) hy(1) this(2)]
  have "out_offsets (hx + (body_x ?p - hx)) (hy + (body_y ?p - hy)) (map slant [i + 2..i + int (Suc n)]) =
      Some (replicate (2 * n) 127)"
    using ih Suc.prems(5,6) by (simp add: algebra_simps)
  moreover have "[i + 1..i + int (Suc n)] = (i + 1) # [i + 2..i + int (Suc n)]" by (simp add: upto_rec1 add.commute)
  moreover have "map_option write_uint8 (to_u8 ((body_x ?p - hx) * fl 2 + lit 1270 10)) = Some [127]"
    "map_option write_uint8 (to_u8 ((body_y ?p - hy) * fl 2 + lit 1270 10)) = Some [127]"
    using small_offset [OF x(1)] small_offset [OF y(1)] vx vy by blast+
  ultimately show ?case by (simp only: list.map out_offsets.simps Let_def puts_Cons bind.bind_lunit) simp
qed

text \<open>
  C30: a line of parts the client misplaces. On the line of up to 4000 parts that each lie a quarter pixel
  further, every offset is written as "no movement", because the position the offsets start from follows
  the exact parts and not the parts the client sees: behind the first \<open>n\<close> parts of this line the client
  is \<open>n / 4\<close> pixels off. This is one line, not a bound: on other bodies an offset may lose up to half
  a pixel.
\<close>

theorem body_rounding_drifts:
  assumes "n \<le> 4000"
  shows "out_offsets (body_x (slant 0)) (body_y (slant 0)) (map slant [1..int n]) = Some (replicate (2 * n) 127) \<and>
    fval (body_x (slant (int n))) - fval (body_x (slant 0)) = real n / 4"
proof -
  have "isfin (fl 21600)" "fval (fl 21600) = 21600" using fl_value [of 21600] by simp_all
  then have "out_offsets (body_x (slant 0)) (body_y (slant 0)) (map slant [0 + 1..0 + int n]) = Some (replicate (2 * n) 127)"
    using assms by (intro slant_offsets) (simp_all add: slant_def power_int_def power_divide)
  then show ?thesis by (simp add: slant_def power_int_def power_divide field_simps)
qed

theorem body_rounding_drifts_witness:
  "out_offsets (body_x (slant 0)) (body_y (slant 0)) (map slant [1..400]) = Some (replicate 800 127) \<and>
    fval (body_x (slant 400)) - fval (body_x (slant 0)) = 100"
  using body_rounding_drifts [of 400] by simp

end
