(* ===== verification/DyingFood.thy ===== *)
theory DyingFood
  imports WorldCreate
begin

text \<open>
  The food a dead snake leaves (\<open>Snake::on_dead_food_spawn\<close>): the call always returns for a snake on the
  map, and only adds food to the sectors and to the list of spawned food.
\<close>

lemma to_u16_sector:
  assumes "to_u16 (x / fl sector_size) = Some w" "uint w \<le> 143"
  shows "sector_coord x = Some (uint w)"
proof -
  from assms(1) obtain n where n: "cast_range 0 65535 (x / fl sector_size) = Some n" "w = of_int n"
    by (auto simp: to_u16_def)
  then have "0 \<le> n" "n \<le> 65535" using cast_range_bounds by blast+
  then have u: "uint w = n" using n(2) uint_of_int_u16 by simp
  have "trunc (x / fl sector_size) = Some n" using n(1) by (simp add: cast_range_def split: option.splits if_splits)
  then show ?thesis using \<open>0 \<le> n\<close> assms(2) unfolding u
    by (simp add: sector_coord_def to_i16_def cast_range_def)
qed

lemma part_cell:
  assumes "coord_ok x" "to_u16 (x / fl sector_size) = Some w" "0 < w" "uint w < 143"
  shows "between (300 * uint w - 1) (300 * uint w + 301) x"
proof -
  have x: "isfin x" "0 \<le> fval x" "fval x \<le> 43200" using assms(1) by (simp_all add: coord_ok_def between_def)
  have "sector_coord x = Some (uint w)" using assms(2,4) by (intro to_u16_sector) simp_all
  from sector_coord_cell [OF this x] show ?thesis using x(1)
    by (simp add: between_def abs_le_iff)
qed

lemma grid_ok_cell:
  assumes "grid_ok ss" "on_map i j"
  shows "uint (sec_x (ss ! nat (j * 144 + i))) = i \<and> uint (sec_y (ss ! nat (j * 144 + i))) = j"
proof -
  from assms(2) have ij: "0 \<le> i" "i < 144" "0 \<le> j" "j < 144"
    by (simp_all add: on_map_def count_along_edge)
  then have "nat (j * 144 + i) < 20736" by linarith
  moreover have "uint (of_int i :: u8) = i" "uint (of_int j :: u8) = j"
    using ij by (simp_all add: uint_word_of_int_eq take_bit_int_eq_self)
  ultimately show ?thesis using assms
    by (simp add: grid_ok_def InitSectors_nth mk_Sector_def Let_def)
qed

text \<open>A coordinate of the food: within the spread around the part.\<close>

lemma scatter:
  assumes "between (300 * n - 1) (300 * n + 301) x" "0 < n" "n < 143" "between 14 87 r" "between 0 1 f"
    and "0 \<le> q" "q \<le> 261"
  shows "\<exists>w. to_u16 (x + r - f * fl q) = Some w \<and> \<bar>uint w - (300 * n + 150)\<bar> \<le> 1000"
proof -
  have "between (- 1) 1 f" "between (- 261) 261 (fl q)"
    using between_weaken [OF assms(5)] between_weaken [OF between_fl [of q]] assms(6,7) by simp_all
  from between_mult_sym [OF this] have m: "between (- 261) 261 (f * fl q)" by simp
  have "between (300 * n + 13) (300 * n + 388) (x + r)"
    using between_add [OF assms(1,4)] assms(2,3) by (simp add: add.commute)
  from between_diff [OF this m] assms(2,3) have "between (300 * n - 248) (300 * n + 649) (x + r - f * fl q)"
    by (simp add: algebra_simps)
  from to_u16_between [OF this] assms(2,3) obtain w where
    "to_u16 (x + r - f * fl q) = Some w" "300 * n - 248 \<le> uint w" "uint w \<le> 300 * n + 649" by auto
  then show ?thesis by (intro exI [of _ w]) (simp add: abs_le_iff)
qed

definition scattered :: "Snake \<Rightarrow> SectorSeq \<Rightarrow> Snake \<times> SectorSeq \<times> nat \<Rightarrow> bool" where
  "scattered s ss st \<longleftrightarrow> (\<exists>fs. fst st = s\<lparr>spawn := fs\<rparr>) \<and> food_step ss (fst (snd st))"

lemma dead_food_total:
  assumes "scattered s ss (t, tt, r0)" "grid_ok ss" "on_map i j" "0 < i" "i < 143" "0 < j" "j < 143" "rand_ok m"
    and "between (300 * i - 1) (300 * i + 301) (body_x p)" "between (300 * j - 1) (300 * j + 301) (body_y p)"
    and "between 14 87 r" "uint r2 \<le> 261" "sz \<le> 100"
  shows "\<exists>st'. dead_food m p r r2 sz (nat (j * 144 + i)) (t, tt, r0) = Some st' \<and> scattered s ss st'"
proof -
  let ?k = "nat (j * 144 + i)"
  have q: "0 \<le> uint r2" by simp
  note R = NextRandomf_range [OF assms(8)]
  obtain x where x: "to_u16 (body_x p + r - fst (NextRandomf m r0) * fl (uint r2)) = Some x" "\<bar>uint x - (300 * i + 150)\<bar> \<le> 1000"
    using scatter [OF assms(9,4,5,11) R q assms(12)] by blast
  obtain y where y: "to_u16 (body_y p + r - fst (NextRandomf m (r0 + 1)) * fl (uint r2)) = Some y" "\<bar>uint y - (300 * j + 150)\<bar> \<le> 1000"
    using scatter [OF assms(10,6,7,11) R q assms(12)] by blast
  have "between (- 1) 1 (fst (NextRandomf m (r0 + 2)))" "between (- 29) 29 (fl 29)"
    using between_weaken [OF R] between_weaken [OF between_fl [of 29]] by simp_all
  have b: "0 \<le> fval (fl 29) * fval (fst (NextRandomf m (r0 + 2)))" "fval (fl 29) * fval (fst (NextRandomf m (r0 + 2))) \<le> 29"
    using R [of "r0 + 2"] fl_value [of 29] by (simp_all add: between_def)
  have "\<bar>fval (fl 29) * fval (fst (NextRandomf m (r0 + 2)))\<bar> \<le> top_pow single" using b top_single by linarith
  from mult_value [OF _ _ this] R [of "r0 + 2"] fl_value [of 29]
  have mv: "isfin (fl 29 * fst (NextRandomf m (r0 + 2)))"
    "rnd_of single (fval (fl 29) * fval (fst (NextRandomf m (r0 + 2)))) (fval (fl 29 * fst (NextRandomf m (r0 + 2))))"
    by (simp_all add: between_def)
  have "between 0 29 (fl 29 * fst (NextRandomf m (r0 + 2)))"
    using rnd_between [OF mv(2), of 0 29] b mv(1) by (simp add: between_def)
  from cast_range_between [OF this, of 0 255] obtain c where c: "to_u8 (fl 29 * fst (NextRandomf m (r0 + 2))) = Some c"
    by (auto simp: to_u8_def)
  let ?f = "mk_food x y sz c"
  have g: "food_step ss tt" "\<exists>fs. t = s\<lparr>spawn := fs\<rparr>" using assms(1) by (simp_all add: scattered_def)
  have "grid_ok tt" using grid_step_ok [OF food_step_grid [OF g(1)] assms(2)] .
  have "uint (sec_x (tt ! ?k)) = i \<and> uint (sec_y (tt ! ?k)) = j"
    using \<open>grid_ok tt\<close> assms(3-7) by (simp add: grid_ok_cell)
  then have "near_sector (tt ! ?k) ?f" using x(2) y(2) by (simp add: near_sector_def mk_food_def)
  then have "food_step tt (tt[?k := Sector_Insert ?f (tt ! ?k)])"
    using assms(13) by (intro food_step_update) (simp_all add: foods_ok_insert mk_food_def)
  from food_step_trans [OF g(1) this] g(2) have
    "scattered s ss (t\<lparr>spawn := spawn t @ [?f]\<rparr>, tt[?k := Sector_Insert ?f (tt ! ?k)], r0 + 3)"
    by (auto simp: scattered_def)
  then show ?thesis using x(1) y(1) c by (simp add: dead_food_def NextRandomf_def numeral_3_eq_3 Let_def)
qed

lemma dead_part_total:
  assumes "scattered s ss st" "grid_ok ss" "rand_ok m" "coord_ok (body_x p)" "coord_ok (body_y p)"
    and "between 14 87 r" "uint r2 \<le> 261" "sz \<le> 100"
  shows "\<exists>st'. dead_part m r r2 cnt sz p st = Some st' \<and> scattered s ss st'"
proof -
  have s: "isfin (fl sector_size)" "exact 300 (fl sector_size)" using exact_fl [of 300] by (simp_all add: sector_size_def exact_def)
  have cell: "\<exists>w. to_u16 (x / fl sector_size) = Some w" if "coord_ok x" for x
  proof -
    have "between 0 43200 x" using that by (simp add: coord_ok_def)
    from between_div [OF this s(2), of 0 144] have "between 0 144 (x / fl sector_size)" by simp
    from to_u16_between [OF this] show ?thesis by auto
  qed
  obtain sx sy where c: "to_u16 (body_x p / fl sector_size) = Some sx" "to_u16 (body_y p / fl sector_size) = Some sy"
    using cell assms(4,5) by blast
  show ?thesis
  proof (cases "0 < sx \<and> uint sx < sector_count_along_edge - 1 \<and> 0 < sy \<and> uint sy < sector_count_along_edge - 1")
    case False
    then have "dead_part m r r2 cnt sz p st = Some st" using c by (auto simp: dead_part_def)
    then show ?thesis using assms(1) by blast
  next
    case True
    then have e: "0 < sx" "uint sx < 143" "0 < sy" "uint sy < 143" by (simp_all add: count_along_edge)
    then have pos: "0 < uint sx" "0 < uint sy" by (simp_all add: word_less_def)
    have om: "on_map (uint sx) (uint sy)" using e by (simp add: on_map_def count_along_edge)
    have "length (fst (snd st)) = 20736" using assms(1,2) by (simp add: scattered_def food_step_def)
    from get_sector_on_map [OF om this] have
      k: "get_sector (fst (snd st)) sx sy = Some (nat (uint sy * 144 + uint sx))" by simp
    have "\<exists>st'. fold_opt (\<lambda>_. dead_food m p r r2 sz (nat (uint sy * 144 + uint sx))) [0..<cnt] st = Some st' \<and> scattered s ss st'"
    proof (rule fold_opt_total [where P = "scattered s ss", OF _ assms(1)])
      fix i u assume "scattered s ss u"
      moreover obtain t tt q where u: "u = (t, tt, q)" by (metis surj_pair)
      ultimately show "\<exists>st'. dead_food m p r r2 sz (nat (uint sy * 144 + uint sx)) u = Some st' \<and> scattered s ss st'"
        using dead_food_total [OF _ assms(2) om pos(1) e(2) pos(2) e(4) assms(3) part_cell [OF assms(4) c(1) e(1,2)]
            part_cell [OF assms(5) c(2) e(3,4)] assms(6-8)] by simp
    qed
    then show ?thesis using True c k by (simp add: dead_part_def)
  qed
qed

lemma on_dead_food_spawn_total:
  assumes "grid_ok ss" "body_ok (parts s)" "consts_ok s" "rand_ok m"
  shows "\<exists>fs ss' r'. on_dead_food_spawn m (s, ss, r) = Some (s\<lparr>spawn := fs\<rparr>, ss', r') \<and> food_step ss ss'"
proof -
  let ?r = "get_snake_body_part_radius s"
  have c: "between 14 87 ?r" "between 1 6 (sc s)" using assms(3) by (simp_all add: consts_ok_def get_snake_body_part_radius_def)
  have mul: "between (a * k) (b * k) (x * fl k)" if "between a b x" "0 \<le> k" "k \<le> 100" "\<bar>a * k\<bar> \<le> 16777216" "\<bar>b * k\<bar> \<le> 16777216" for a b k x
  proof -
    have k: "isfin (fl k)" "fval (fl k) = of_int k" using fl_value [of k] that(2,3) by simp_all
    have x: "isfin x" "of_int a \<le> fval x" "fval x \<le> of_int b" using that(1) by (simp_all add: between_def)
    have "of_int (a * k) \<le> fval x * fval (fl k)" "fval x * fval (fl k) \<le> of_int (b * k)"
      using x that(2) by (simp_all add: k mult_right_mono)
    note b = this
    from mult_value [OF x(1) k(1) small_le_top [OF b that(4,5)]] show ?thesis
      using rnd_between [OF _ b that(4,5)] by (simp add: between_def)
  qed
  from mul [OF c(1), of 3] obtain r2 where r2: "to_u16 (?r * fl 3) = Some r2" "uint r2 \<le> 261"
    using to_u16_between [of 42 261 "?r * fl 3"] by auto
  from mul [OF c(2), of 2] have "between 2 12 (sc s * fl 2)" by simp
  from cast_range_between [OF this, of 0 18446744073709551615] obtain n where
    n: "to_size (sc s * fl 2) = Some (nat n)" "2 \<le> n" "n \<le> 12" by (auto simp: to_size_def)
  have "100 div nat n \<le> 100" by (rule div_le_dividend)
  moreover from this have "100 div nat n mod 256 = 100 div nat n" by (intro mod_less) linarith
  ultimately have sz: "(of_nat (100 div nat n) :: u8) \<le> 100" by (simp add: word_le_nat_alt unat_of_nat take_bit_nat_eq_self)
  have "\<exists>st'. fold_opt (dead_part m ?r r2 (nat n) (of_nat (100 div nat n))) (parts s) (s, ss, r) = Some st' \<and> scattered s ss st'"
  proof (rule fold_opt_total [where P = "scattered s ss"])
    show "scattered s ss (s, ss, r)" by (auto simp: scattered_def intro: exI [of _ "spawn s"])
    fix p st assume "p \<in> set (parts s)" "scattered s ss st"
    then show "\<exists>st'. dead_part m ?r r2 (nat n) (of_nat (100 div nat n)) p st = Some st' \<and> scattered s ss st'"
      using assms(2) by (intro dead_part_total assms(1,4) c(1) r2(2) sz) (auto simp: body_ok_def)
  qed
  then obtain st' where st': "on_dead_food_spawn m (s, ss, r) = Some st'" "scattered s ss st'"
    using r2(1) n by (auto simp: on_dead_food_spawn_def)
  then show ?thesis by (cases st') (auto simp: scattered_def)
qed

end
