(* ===== verification/ServerSends.thy ===== *)
theory ServerSends
  imports GameServer PacketProps DyingFood
begin

text \<open>
  Sending, for the proofs about the server: what a send may change (\<open>sent\<close>), and when it returns. A
  handler can only fail where a packet has no defined bytes; \<open>outcome E r P\<close> says that the result \<open>r\<close>
  satisfies \<open>P\<close>, or that there is none and \<open>E\<close> holds. With \<open>E\<close> true this is partial correctness, with
  \<open>E\<close> false (and every packet encodable) total correctness, from one proof.
\<close>

section \<open>Outcomes\<close>

definition outcome :: "bool \<Rightarrow> 'a option \<Rightarrow> ('a \<Rightarrow> bool) \<Rightarrow> bool" where
  "outcome E r P \<longleftrightarrow> (case r of None \<Rightarrow> E | Some x \<Rightarrow> P x)"

lemma outcome_Some [simp]: "outcome E (Some x) P = P x"
  by (simp add: outcome_def)

lemma outcome_bind: "outcome E r P \<Longrightarrow> (\<And>x. P x \<Longrightarrow> outcome E (f x) Q) \<Longrightarrow> outcome E (Option.bind r f) Q"
  by (cases r) (auto simp: outcome_def)

lemma outcome_if: "(c \<Longrightarrow> outcome E r P) \<Longrightarrow> (\<not> c \<Longrightarrow> outcome E q P) \<Longrightarrow> outcome E (if c then r else q) P"
  by simp

lemma outcome_mono: "outcome E r P \<Longrightarrow> (\<And>x. P x \<Longrightarrow> Q x) \<Longrightarrow> outcome E r Q"
  by (cases r) (auto simp: outcome_def)

lemma outcome_total: "outcome False r P \<Longrightarrow> \<exists>x. r = Some x \<and> P x"
  by (cases r) (auto simp: outcome_def)

lemma outcome_partial: "outcome True r P \<Longrightarrow> r = Some x \<Longrightarrow> P x"
  by (simp add: outcome_def)

lemma outcome_fold:
  assumes "\<And>x s. x \<in> set xs \<Longrightarrow> P s \<Longrightarrow> outcome E (f x s) P" and "P s"
  shows "outcome E (fold_opt f xs s) P"
  using assms
proof (induction xs arbitrary: s)
  case Nil
  then show ?case by simp
next
  case (Cons x xs)
  from Cons.prems(1) [OF _ Cons.prems(2), of x] have "outcome E (f x s) P" by simp
  then show ?case using Cons.IH Cons.prems(1) by (auto intro!: outcome_bind)
qed

lemma outcome_fold_prefix:
  assumes "\<And>ys x zs s. xs = ys @ x # zs \<Longrightarrow> P ys s \<Longrightarrow> outcome E (f x s) (P (ys @ [x]))" and "P [] s"
  shows "outcome E (fold_opt f xs s) (P xs)"
proof -
  have "outcome E (fold_opt f zs s) (P (ys @ zs))" if "xs = ys @ zs" "P ys s" for ys zs s
    using that
  proof (induction zs arbitrary: ys s)
    case Nil
    then show ?case by simp
  next
    case (Cons z zs)
    have "outcome E (fold_opt f zs t) (P (ys @ z # zs))" if "P (ys @ [z]) t" for t
      using Cons.IH [of "ys @ [z]" t] Cons.prems(1) that by simp
    then show ?case using assms(1) [OF Cons.prems] by (auto intro: outcome_bind)
  qed
  from this [of "[]" xs s] assms(2) show ?thesis by simp
qed

section \<open>The map of sessions\<close>

definition keys_ordered :: "SessionMap \<Rightarrow> bool" where
  "keys_ordered es \<longleftrightarrow> sorted_wrt (<) (map fst es)"

definition who :: "SessionMap \<Rightarrow> (hdl \<times> u16) list" where
  "who es = map (\<lambda>(h, v). (h, snake_id v)) es"

lemma keys_who: "map fst (who es) = map fst es"
  by (induction es) (auto simp: who_def)

lemma keys_ordered_who: "who es = who fs \<Longrightarrow> keys_ordered es = keys_ordered fs"
  by (metis keys_ordered_def keys_who)

lemma put_session_same:
  "keys_ordered es \<Longrightarrow> map_of es h = Some u \<Longrightarrow> snake_id v = snake_id u \<Longrightarrow> who (put_session h v es) = who es"
proof (induction es)
  case (Cons e es)
  obtain k w where e: "e = (k, w)" by (cases e)
  have "k < h" if "h \<noteq> k"
  proof -
    have "h \<in> fst ` set es" using Cons.prems(2) that by (auto simp: e dest: map_of_SomeD intro: rev_image_eqI)
    then show ?thesis using Cons.prems(1) by (auto simp: keys_ordered_def e)
  qed
  then show ?case using Cons by (auto simp: e who_def keys_ordered_def)
qed simp

lemma put_session_new:
  "keys_ordered es \<Longrightarrow> h \<notin> fst ` set es \<Longrightarrow> keys_ordered (put_session h v es) \<and> set (put_session h v es) = insert (h, v) (set es)"
proof (induction es)
  case Nil
  then show ?case by (simp add: keys_ordered_def)
next
  case (Cons e es)
  obtain k w where e: "e = (k, w)" by (cases e)
  have "\<forall>x \<in> fst ` set es. k < x" using Cons.prems(1) by (simp add: keys_ordered_def e)
  moreover have "h \<noteq> k" "h \<notin> fst ` set es" using Cons.prems(2) by (auto simp: e)
  moreover have "keys_ordered es" using Cons.prems(1) by (simp add: keys_ordered_def)
  ultimately show ?case using Cons.IH by (auto simp: e keys_ordered_def)
qed

lemma who_in: "(h, v) \<in> set es \<Longrightarrow> (h, snake_id v) \<in> set (who es)"
  by (force simp: who_def)

lemma in_who: "(h, i) \<in> set (who es) \<Longrightarrow> \<exists>v. (h, v) \<in> set es \<and> snake_id v = i"
  by (auto simp: who_def)

lemma map_of_who: "(h, i) \<in> set (who es) \<Longrightarrow> \<exists>v. map_of es h = Some v"
  by (auto dest!: in_who) (metis map_of_eq_None_iff not_None_eq fst_conv image_eqI)

section \<open>What sending leaves alone\<close>

definition sent :: "GameServer \<Rightarrow> GameServer \<Rightarrow> bool" where
  "sent g g' \<longleftrightarrow> world g' = world g \<and> connections g' = connections g \<and> who (sessions g') = who (sessions g) \<and>
     srv_config g' = srv_config g \<and> srv_init g' = srv_init g \<and> last_time_point g' = last_time_point g \<and> timer g' = timer g \<and> clock g \<le> clock g'"

lemma sent_refl [simp]: "sent g g"
  by (simp add: sent_def)

lemma sent_trans: "sent a b \<Longrightarrow> sent b c \<Longrightarrow> sent a c"
  by (auto simp: sent_def)

lemma sent_fields [simp]: "sent g (g'\<lparr>outbox := x\<rparr>) = sent g g'" "clock g' \<le> n \<Longrightarrow> sent g g' \<Longrightarrow> sent g (g'\<lparr>clock := n\<rparr>)"
  by (simp_all add: sent_def)

lemma sent_keys: "sent g u \<Longrightarrow> keys_ordered (sessions u) = keys_ordered (sessions g)"
  by (rule keys_ordered_who) (simp add: sent_def)

lemma sent_hdls: "sent g u \<Longrightarrow> fst ` set (sessions u) = fst ` set (sessions g)"
  unfolding list.set_map [symmetric] keys_who [symmetric] by (simp add: sent_def)

definition env_ok :: "env \<Rightarrow> bool" where
  "env_ok e \<longleftrightarrow> asio_ok (e_asio e) \<and> length (e_raw e) = 128 \<and> libm_ok (e_libc e) \<and> rand_ok (e_libc e) \<and>
     sort_ok (m_sort (e_libc e)) \<and> put_ok (e_put e)"

definition encodes :: "('p PacketBase_scheme \<Rightarrow> bytes option) \<Rightarrow> 'p PacketBase_scheme \<Rightarrow> bool" where
  "encodes enc p \<longleftrightarrow> (\<forall>t. enc (p\<lparr>client_time := t\<rparr>) \<noteq> None)"

text \<open>
  A kind of packet that goes to sessions: on top of fitting its size it carries the time since the
  session's last packet.
\<close>

locale timed_packet = outgoing enc get_size
  for enc :: "'p PacketBase_scheme \<Rightarrow> bytes option" and get_size :: "'p PacketBase_scheme \<Rightarrow> nat"
begin

lemma deliver_outcome:
  assumes "env_ok e" "keys_ordered (sessions g)" "h \<in> fst ` set (sessions g)" "E \<or> encodes enc p"
  shows "outcome E (deliver e enc get_size now p h g) (sent g)"
proof -
  obtain v where v: "map_of (sessions g) h = Some v" using assms(3) by (metis map_of_eq_None_iff not_None_eq)
  define t :: u16 where "t = of_int (now - last_packet_time v)"
  define u where "u = g\<lparr>sessions := put_session h (v\<lparr>last_packet_time := now\<rparr>) (sessions g)\<rparr>"
  have u: "sent g u" using put_session_same [OF assms(2) v] by (simp add: sent_def u_def)
  have d: "deliver e enc get_size now p h g = endpoint_send e enc get_size (p\<lparr>client_time := t\<rparr>) h u"
    unfolding deliver_def v t_def u_def Let_def by (simp only: bind.simps)
  have s: "send_bytes (e_asio e) (e_raw e) enc get_size (p\<lparr>client_time := t\<rparr>) = enc (p\<lparr>client_time := t\<rparr>)"
    using assms(1) by (intro send_exact) (simp_all add: env_ok_def)
  show ?thesis
  proof (cases "enc (p\<lparr>client_time := t\<rparr>)")
    case None
    then have E using assms(4) unfolding encodes_def by blast
    then show ?thesis using u by (simp add: d endpoint_send_def s None outcome_def)
  next
    case (Some bs)
    then show ?thesis using u by (simp add: d endpoint_send_def s)
  qed
qed

lemma send_outcome:
  assumes "env_ok e" "keys_ordered (sessions g)" "h \<in> fst ` set (sessions g)" "E \<or> encodes enc p"
  shows "outcome E (send_binary e enc get_size (Some h) p g) (sent g)"
proof -
  have "outcome E (deliver e enc get_size (e_clock e (clock g)) p h (g\<lparr>clock := clock g + 1\<rparr>)) (sent (g\<lparr>clock := clock g + 1\<rparr>))"
    using assms by (intro deliver_outcome) simp_all
  then show ?thesis
    by (auto simp: send_binary_def GetCurrentTime_def sent_def elim: outcome_mono)
qed

lemma broadcast_outcome:
  assumes "env_ok e" "keys_ordered (sessions g)" "E \<or> encodes enc p"
  shows "outcome E (broadcast_binary e enc get_size p g) (sent g)"
proof -
  have "outcome E (fold_opt (deliver e enc get_size now p) (map fst (sessions g)) (g\<lparr>clock := clock g + 1\<rparr>)) (sent g)" for now
  proof (rule outcome_fold)
    fix h u assume h: "h \<in> set (map fst (sessions g))" and u: "sent g u"
    then have "keys_ordered (sessions u)" "h \<in> fst ` set (sessions u)" using assms(2) by (simp_all add: sent_keys sent_hdls)
    then have "outcome E (deliver e enc get_size now p h u) (sent u)" using assms by (intro deliver_outcome)
    then show "outcome E (deliver e enc get_size now p h u) (sent g)" using u sent_trans by (blast intro: outcome_mono)
  qed simp
  then show ?thesis by (simp add: broadcast_binary_def GetCurrentTime_def)
qed

lemma broadcasts_outcome:
  assumes "env_ok e" "keys_ordered (sessions g)" "\<And>x. x \<in> set xs \<Longrightarrow> E \<or> encodes enc (p x)"
  shows "outcome E (fold_opt (\<lambda>x. broadcast_binary e enc get_size (p x)) xs g) (sent g)"
proof (rule outcome_fold)
  fix x u assume x: "x \<in> set xs" and u: "sent g u"
  then have "keys_ordered (sessions u)" using assms(2) by (simp add: sent_keys)
  then have "outcome E (broadcast_binary e enc get_size (p x) u) (sent u)" using assms x by (intro broadcast_outcome)
  then show "outcome E (broadcast_binary e enc get_size (p x) u) (sent g)" using u sent_trans by (blast intro: outcome_mono)
qed simp

end

interpretation to_end: timed_packet out_packet_end size_packet_end ..
interpretation to_set_food: timed_packet out_packet_set_food size_packet_set_food ..
interpretation to_spawn_food: timed_packet out_packet_spawn_food size_packet_spawn_food ..
interpretation to_eat_food: timed_packet out_packet_eat_food size_packet_eat_food ..
interpretation to_fullness: timed_packet out_packet_fullness size_packet_fullness ..
interpretation to_remove_part: timed_packet out_packet_remove_part size_packet_remove_part ..
interpretation to_inc: timed_packet out_packet_inc size_packet_inc ..
interpretation to_move: timed_packet out_packet_move size_packet_move ..
interpretation to_pong: timed_packet out_packet_pong size_PacketBase ..
interpretation to_sector: timed_packet out_packet_sector size_packet_sector ..
interpretation to_rotation: timed_packet out_packet_rotation size_packet_rotation ..
interpretation to_add_snake: timed_packet out_packet_add_snake size_packet_add_snake ..
interpretation to_remove_snake: timed_packet out_packet_remove_snake size_packet_remove_snake ..

section \<open>Packets that always encode\<close>

lemma encodes_plain [simp]:
  "encodes out_packet_end p1" "encodes out_packet_spawn_food p2" "encodes out_packet_eat_food p3" "encodes out_packet_move p4"
  "encodes out_packet_pong p5" "encodes out_packet_sector p6" "encodes out_packet_remove_snake p7" "encodes out_packet_set_food p8"
  by (simp_all add: encodes_def out_defs puts_foods)

end
