(* ===== verification/ServerUpdates.thy ===== *)
theory ServerUpdates
  imports ServerSends
begin

text \<open>
  The broadcast of the updates (\<open>BroadcastUpdates\<close> and what it calls). Every step of it works on one
  snake in place: \<open>hand\<close> follows that snake through the steps, with what they leave alone.
\<close>

section \<open>Packets of a snake\<close>

definition angles_encode :: "Snake \<Rightarrow> bool" where
  "angles_encode s \<longleftrightarrow> write_ang8 (angle s) \<noteq> None \<and> write_ang8 (wangle s) \<noteq> None"

lemma puts_defined: "(\<forall>w \<in> set ws. w \<noteq> None) \<Longrightarrow> puts ws \<noteq> None"
  by (induction ws) (auto simp: puts_Cons)

lemma percent_out: "f < 100 \<Longrightarrow> write_fp24 (fl (uint (ucast (f :: u16) :: u8)) / fl 100) \<noteq> None"
proof -
  assume f: "f < 100"
  then have "uint f < 100" by (simp add: word_less_def)
  then have u: "uint (ucast f :: u8) = int (unat f)" by (simp add: unsigned_ucast_eq take_bit_int_eq_self)
  have "unat f < 100" using f by (simp add: word_less_nat_alt)
  from fullness_out [OF this] show ?thesis unfolding u by blast
qed

lemma encodes_percent:
  assumes "fullness s < 100"
  shows "encodes out_packet_fullness (mk_packet_fullness s)" "encodes out_packet_remove_part (mk_packet_remove_part s)"
    "mk_packet_inc s = Some p \<Longrightarrow> encodes out_packet_inc p"
  using percent_out [OF assms]
  by (auto simp: encodes_def out_defs mk_packet_fullness_def mk_packet_remove_part_def mk_packet_inc_def bind_eq_Some_conv puts_Cons)

lemma head_packets:
  assumes "body_ok (parts s)" "3 \<le> length (parts s)"
  shows "\<exists>p. mk_packet_inc s = Some p" "\<exists>p. mk_packet_move s = Some p"
proof -
  have "parts s \<noteq> []" using assms(2) by auto
  then have "between 0 43200 (get_head_x s)" "between 0 43200 (get_head_y s)"
    using body_ok_nth [OF assms(1), of 0] by (simp_all add: get_head_x_def get_head_y_def coord_ok_def)
  then obtain x y where "to_u16 (get_head_x s) = Some x" "to_u16 (get_head_y s) = Some y"
    using to_u16_between [of 0 43200] by fastforce
  then show "\<exists>p. mk_packet_inc s = Some p" "\<exists>p. mk_packet_move s = Some p"
    by (simp_all add: mk_packet_inc_def mk_packet_move_def)
qed

lemma speed_table: "list_all (\<lambda>k. to_u8 (fl k / lit 320 10 * lit 180 10) \<noteq> None) [185..448]"
  by code_simp

lemma no_angle: "feq (lit (- 1) 1) (lit (- 1) 1)"
  by code_simp

lemma encodes_rotation:
  assumes "angles_encode s" "base_move_speed \<le> speed s" "speed s \<le> boost_speed"
  shows "encodes out_packet_rotation (rotation_of f s)"
proof -
  have "185 \<le> uint (speed s) \<and> uint (speed s) \<le> 448"
    using assms(2,3) by (simp add: base_move_speed_def boost_speed_def word_le_def)
  then have "uint (speed s) \<in> set [185..448]" by (simp only: set_upto atLeastAtMost_iff)
  then have sp: "to_u8 (fl (uint (speed s)) / lit 320 10 * lit 180 10) \<noteq> None"
    using speed_table unfolding list_all_iff by blast
  have "puts (([Some a, Some b] @ (if \<not> feq (rot_ang p) (lit (- 1) 1) then [write_ang8 (rot_ang p)] else []) @
     (if \<not> feq (rot_wang p) (lit (- 1) 1) then [write_ang8 (rot_wang p)] else []) @
     (if \<not> feq (rot_snakeSpeed p) (lit (- 1) 1)
      then [map_option write_uint8 (to_u8 (rot_snakeSpeed p * lit 180 10))] else []))) \<noteq> None"
    if p: "rot_ang p \<in> {angle s, lit (- 1) 1}" "rot_wang p \<in> {wangle s, lit (- 1) 1}"
      "rot_snakeSpeed p \<in> {fl (uint (speed s)) / lit 320 10, lit (- 1) 1}" for a b and p :: packet_rotation
    by (rule puts_defined) (use assms(1) sp p no_angle in \<open>auto simp: angles_encode_def split: if_splits\<close>)
  note out = this
  have r: "rot_ang (rotation_of f s) \<in> {angle s, lit (- 1) 1}" "rot_wang (rotation_of f s) \<in> {wangle s, lit (- 1) 1}"
    "rot_snakeSpeed (rotation_of f s) \<in> {fl (uint (speed s)) / lit 320 10, lit (- 1) 1}"
    by (simp_all add: rotation_of_def mk_packet_rotation_def Let_def)
  have "out_packet_rotation (rotation_of f s\<lparr>client_time := t\<rparr>) \<noteq> None" for t
    unfolding out_packet_rotation_def by (rule out) (use r in simp_all)
  then show ?thesis by (simp add: encodes_def)
qed

section \<open>One snake in hand\<close>

text \<open>A change of a snake that no packet and no tick depends on, but for its flags.\<close>

definition like :: "Snake \<Rightarrow> Snake \<Rightarrow> bool" where
  "like s s' \<longleftrightarrow> sn_id s' = sn_id s \<and> bot s' = bot s \<and> parts s' = parts s \<and> angle s' = angle s \<and> wangle s' = wangle s \<and>
     fullness s' = fullness s \<and> speed s' = speed s \<and> mov_ticks s' = mov_ticks s \<and> rot_ticks s' = rot_ticks s \<and>
     ai_ticks s' = ai_ticks s \<and> sbb s' = sbb s \<and> (\<forall>ss. vp_ok ss (vp s) \<longrightarrow> vp_ok ss (vp s')) \<and> sbpr s' = sbpr s \<and> sc s' = sc s"

lemma like_trans: "like a b \<Longrightarrow> like b c \<Longrightarrow> like a c"
  by (simp add: like_def)

lemma like_refl [simp]: "like s s"
  by (simp add: like_def)

lemma like_fields [simp]:
  "like s (s'\<lparr>update := u\<rparr>) = like s s'" "like s (s'\<lparr>eaten := fs\<rparr>) = like s s'" "like s (s'\<lparr>spawn := fs\<rparr>) = like s s'"
  "like s (s'\<lparr>clientPartsIndex := n\<rparr>) = like s s'" "like s (s'\<lparr>sn_name := n2\<rparr>) = like s s'" "like s (s'\<lparr>skin := k\<rparr>) = like s s'"
  "like s (s'\<lparr>acceleration := c\<rparr>) = like s s'"
  by (simp_all add: like_def)

lemma like_vp: "like s s' \<Longrightarrow> like s (s'\<lparr>vp := (vp s')\<lparr>new_sectors := []\<rparr>\<rparr>) \<and> like s (s'\<lparr>vp := (vp s')\<lparr>old_sectors := []\<rparr>\<rparr>)"
  by (auto simp: like_def vp_ok_def)

lemma like_snake_ok: "like s s' \<Longrightarrow> snake_ok (s, ss) \<Longrightarrow> snake_ok (s', ss)"
  by (simp add: like_def snake_ok_def boxes_ok_def)

lemma like_ready: "like s s' \<Longrightarrow> tick_ready s' = tick_ready s \<and> on_board s' = on_board s \<and> angles_encode s' = angles_encode s"
  by (simp add: like_def tick_ready_def on_board_def angles_encode_def consts_ok_def get_head_x_def get_head_y_def)

definition live_server :: "GameServer \<Rightarrow> bool" where
  "live_server g \<longleftrightarrow> owns (snakes (world g)) (world g) \<and> keys_ordered (sessions g)"

text \<open>What the updates leave alone.\<close>

definition kept :: "GameServer \<Rightarrow> GameServer \<Rightarrow> bool" where
  "kept g g' \<longleftrightarrow> snakes (world g') = snakes (world g) \<and> changes (world g') = changes (world g) \<and>
     ticks (world g') = ticks (world g) \<and> frames (world g') = frames (world g) \<and>
     lastSnakeId (world g') = lastSnakeId (world g) \<and> config (world g') = config (world g) \<and>
     connections g' = connections g \<and> who (sessions g') = who (sessions g) \<and> srv_config g' = srv_config g \<and>
     srv_init g' = srv_init g \<and> last_time_point g' = last_time_point g \<and> timer g' = timer g \<and>
     clock g \<le> clock g'"

lemma kept_refl [simp]: "kept g g"
  by (simp add: kept_def)

lemma kept_trans: "kept a b \<Longrightarrow> kept b c \<Longrightarrow> kept a c"
  by (auto simp: kept_def)

lemma sent_kept: "sent g g' \<Longrightarrow> kept g g'"
  by (simp add: sent_def kept_def)

lemma kept_keys: "kept g u \<Longrightarrow> keys_ordered (sessions u) = keys_ordered (sessions g)"
  by (rule keys_ordered_who) (simp add: kept_def)

lemma kept_hdls: "kept g u \<Longrightarrow> fst ` set (sessions u) = fst ` set (sessions g)"
  unfolding list.set_map [symmetric] keys_who [symmetric] by (simp add: kept_def)

text \<open>The snake \<open>s0\<close> at \<open>a\<close> has become \<open>s\<close> while \<open>g0\<close> has become \<open>g\<close>.\<close>

definition hand :: "u16 \<times> addr \<Rightarrow> Snake \<Rightarrow> GameServer \<Rightarrow> Snake \<Rightarrow> GameServer \<Rightarrow> bool" where
  "hand e s0 g0 s g \<longleftrightarrow> live_server g \<and> e \<in> set (snakes (world g)) \<and> heap (world g) (snd e) = Some s \<and> like s0 s \<and>
     kept g0 g \<and> dead (world g) = dead (world g0) \<and> (\<forall>b. b \<noteq> snd e \<longrightarrow> heap (world g) b = heap (world g0) b)"

lemma handD:
  assumes "hand e s0 g0 s g"
  shows "snake_at (snd e) g = Some s" "keys_ordered (sessions g)" "snake_ok (s, sectors (world g))" "like s0 s" "kept g0 g"
proof -
  have "owns (snakes (world g)) (world g)" "(fst e, snd e) \<in> set (snakes (world g))" "heap (world g) (snd e) = Some s"
    using assms by (simp_all add: hand_def live_server_def)
  from ownsD [OF this(1,2)] this(3) show "snake_ok (s, sectors (world g))" by auto
qed (use assms in \<open>simp_all add: hand_def live_server_def snake_at_def\<close>)

lemma hand_start:
  "live_server g \<Longrightarrow> e \<in> set (snakes (world g)) \<Longrightarrow> heap (world g) (snd e) = Some s \<Longrightarrow> hand e s g s g"
  by (simp add: hand_def)

lemma hand_sent:
  assumes "hand e s0 g0 s g" "sent g g'"
  shows "hand e s0 g0 s g'"
proof -
  have w: "world g' = world g" using assms(2) by (simp add: sent_def)
  have "live_server g'" using assms sent_keys [OF assms(2)] by (simp add: hand_def live_server_def w)
  moreover have "kept g0 g'" using handD(5) [OF assms(1)] sent_kept [OF assms(2)] by (rule kept_trans)
  ultimately show ?thesis using assms(1) by (simp add: hand_def w)
qed

lemma kept_set [simp]:
  "kept g0 (set_snake a s g) = kept g0 g" "kept g0 (g\<lparr>world := (world g)\<lparr>dead := d\<rparr>\<rparr>) = kept g0 g"
  "kept g0 (g\<lparr>world := (world g)\<lparr>heap := h, sectors := ss, rng := r\<rparr>\<rparr>) = kept g0 g"
  by (simp_all add: kept_def set_snake_def)

lemma hand_set:
  assumes "hand e s0 g0 s g" "like s s'"
  shows "hand e s0 g0 s' (set_snake (snd e) s' g)"
proof -
  have o: "owns (snakes (world g)) (world g)" "(fst e, snd e) \<in> set (snakes (world g))" "heap (world g) (snd e) = Some s"
    using assms by (simp_all add: hand_def live_server_def)
  have "owns (snakes (world g)) (update_snake (snd e) s' (sectors (world g)) (world g))"
    by (rule owns_put [OF o])
      (use assms(2) like_snake_ok [OF assms(2) handD(3) [OF assms(1)]] in \<open>simp_all add: like_def\<close>)
  then have "live_server (set_snake (snd e) s' g)"
    using handD(2) [OF assms(1)] by (simp add: live_server_def set_snake_def update_snake_def)
  moreover have "like s0 s'" using handD(4) [OF assms(1)] assms(2) by (rule like_trans)
  ultimately show ?thesis using assms(1) handD(5) [OF assms(1)] by (simp add: hand_def) (simp add: set_snake_def)
qed

text \<open>Sends and broadcasts keep the snake in hand.\<close>

lemma hand_after: "hand e s0 g0 s g \<Longrightarrow> outcome E r (sent g) \<Longrightarrow> outcome E r (hand e s0 g0 s)"
  by (erule outcome_mono) (rule hand_sent)

lemma food_update_hand:
  assumes "env_ok v" "hand e s0 g0 s g"
  shows "outcome E (SendFoodUpdate v (snd e) g) (\<lambda>g'. \<exists>s'. hand e s0 g0 s' g' \<and> update s' = update s)"
  unfolding SendFoodUpdate_def handD(1) [OF assms(2)] bind.simps Let_def
proof (rule outcome_bind)
  show "outcome E (fold_opt (\<lambda>f. broadcast_binary v out_packet_eat_food size_packet_eat_food (mk_packet_eat_food (sn_id s) f))
     (eaten s) g) (hand e s0 g0 s)"
    by (rule hand_after [OF assms(2)], rule to_eat_food.broadcasts_outcome [OF assms(1) handD(2) [OF assms(2)]]) simp
  fix g1 assume h1: "hand e s0 g0 s g1"
  show "outcome E (Option.bind (fold_opt (\<lambda>f. broadcast_binary v out_packet_spawn_food size_packet_spawn_food (mk_packet_spawn_food f))
     (spawn (s\<lparr>eaten := []\<rparr>)) g1) (\<lambda>g. Some (set_snake (snd e) (s\<lparr>eaten := [], spawn := []\<rparr>) g)))
     (\<lambda>g'. \<exists>s'. hand e s0 g0 s' g' \<and> update s' = update s)"
  proof (rule outcome_bind)
    show "outcome E (fold_opt (\<lambda>f. broadcast_binary v out_packet_spawn_food size_packet_spawn_food (mk_packet_spawn_food f))
      (spawn (s\<lparr>eaten := []\<rparr>)) g1) (hand e s0 g0 s)"
      by (rule hand_after [OF h1], rule to_spawn_food.broadcasts_outcome [OF assms(1) handD(2) [OF h1]]) simp
    fix g2 assume "hand e s0 g0 s g2"
    then have "hand e s0 g0 (s\<lparr>eaten := [], spawn := []\<rparr>) (set_snake (snd e) (s\<lparr>eaten := [], spawn := []\<rparr>) g2)"
      by (rule hand_set) simp
    then show "outcome E (Some (set_snake (snd e) (s\<lparr>eaten := [], spawn := []\<rparr>) g2)) (\<lambda>g'. \<exists>s'. hand e s0 g0 s' g' \<and> update s' = update s)"
      by (auto intro!: exI [of _ "s\<lparr>eaten := [], spawn := []\<rparr>"])
  qed
qed

lemma rotation_hand:
  assumes "env_ok v" "hand e s0 g0 s g" "E \<or> angles_encode s"
  shows "outcome E (update_rotation v f (snd e) g) (\<lambda>g'. \<exists>s'. hand e s0 g0 s' g' \<and>
    update s' = (if f AND (change_angle OR change_speed) \<noteq> 0 then update (clear_rotation f s) else update s))"
proof (cases "f AND (change_angle OR change_speed) \<noteq> 0")
  case True
  let ?s = "clear_rotation f s"
  have sp: "base_move_speed \<le> speed s" "speed s \<le> boost_speed" using handD(3) [OF assms(2)] by (simp_all add: snake_ok_def)
  have "like s ?s" by (simp add: clear_rotation_def Let_def)
  from hand_set [OF assms(2) this] have h: "hand e s0 g0 ?s (set_snake (snd e) ?s g)" .
  have "outcome E (broadcast_binary v out_packet_rotation size_packet_rotation (rotation_of f s) (set_snake (snd e) ?s g)) (hand e s0 g0 ?s)"
    using assms(1,3) encodes_rotation [OF _ sp] handD(2) [OF h] by (intro hand_after [OF h] to_rotation.broadcast_outcome) auto
  then show ?thesis using True by (auto simp: update_rotation_def handD(1) [OF assms(2)] elim!: outcome_mono)
next
  case False
  then show ?thesis using assms(2) by (auto simp: update_rotation_def handD(1) [OF assms(2)])
qed

lemma length_hand:
  assumes "env_ok v" "hand e s0 g0 s g" "body_ok (parts s)"
  shows "outcome E (update_length v (snd e) g) (\<lambda>g'. \<exists>s'. hand e s0 g0 s' g' \<and> update s' = update s)"
proof -
  have ok: "3 \<le> length (parts s)" "fullness s < 100" using handD(3) [OF assms(2)] by (simp_all add: snake_ok_def)
  from head_packets [OF assms(3) ok(1)] obtain p q where pq: "mk_packet_inc s = Some p" "mk_packet_move s = Some q" by blast
  have bc: "outcome E (broadcast_binary v out_packet_inc size_packet_inc p g) (hand e s0 g0 s)"
    using assms(1) encodes_percent(3) [OF ok(2) pq(1)] handD(2) [OF assms(2)]
    by (intro hand_after [OF assms(2)] to_inc.broadcast_outcome) auto
  have mv: "outcome E (broadcast_binary v out_packet_move size_packet_move q g1) (\<lambda>g'. \<exists>s'. hand e s0 g0 s' g' \<and> update s' = update s)"
    if h: "hand e s0 g0 s1 g1" "update s1 = update s" for s1 g1
  proof -
    have "outcome E (broadcast_binary v out_packet_move size_packet_move q g1) (hand e s0 g0 s1)"
      using assms(1) handD(2) [OF h(1)] by (intro hand_after [OF h(1)] to_move.broadcast_outcome) auto
    then show ?thesis by (rule outcome_mono) (use h(2) in blast)
  qed
  have rm: "outcome E (broadcast_binary v out_packet_remove_part size_packet_remove_part (mk_packet_remove_part s) g) (hand e s0 g0 s)"
    using assms(1) encodes_percent(2) [OF ok(2)] handD(2) [OF assms(2)]
    by (intro hand_after [OF assms(2)] to_remove_part.broadcast_outcome) auto
  have set: "hand e s0 g0 (s\<lparr>clientPartsIndex := n\<rparr>) (set_snake (snd e) (s\<lparr>clientPartsIndex := n\<rparr>) g1)" if "hand e s0 g0 s g1" for n g1
    using that by (rule hand_set) simp
  consider "clientPartsIndex s < length (parts s)" | "clientPartsIndex s > length (parts s)" | "clientPartsIndex s = length (parts s)"
    by linarith
  then show ?thesis
  proof cases
    case 1
    have "outcome E (Option.bind (broadcast_binary v out_packet_inc size_packet_inc p g)
       (\<lambda>g. Some (set_snake (snd e) (s\<lparr>clientPartsIndex := clientPartsIndex s + 1\<rparr>) g))) (\<lambda>g'. \<exists>s'. hand e s0 g0 s' g' \<and> update s' = update s)"
      by (rule outcome_bind [OF bc]) (auto intro!: exI [of _ "s\<lparr>clientPartsIndex := clientPartsIndex s + 1\<rparr>"] set)
    with 1 show ?thesis by (simp add: update_length_def handD(1) [OF assms(2)] pq)
  next
    case 2
    have "outcome E (Option.bind (Option.bind (broadcast_binary v out_packet_remove_part size_packet_remove_part (mk_packet_remove_part s) g)
       (\<lambda>g. Some (set_snake (snd e) (s\<lparr>clientPartsIndex := clientPartsIndex s - 1\<rparr>) g)))
       (broadcast_binary v out_packet_move size_packet_move q)) (\<lambda>g'. \<exists>s'. hand e s0 g0 s' g' \<and> update s' = update s)"
    proof (rule outcome_bind)
      show "outcome E (Option.bind (broadcast_binary v out_packet_remove_part size_packet_remove_part (mk_packet_remove_part s) g)
        (\<lambda>g. Some (set_snake (snd e) (s\<lparr>clientPartsIndex := clientPartsIndex s - 1\<rparr>) g)))
        (hand e s0 g0 (s\<lparr>clientPartsIndex := clientPartsIndex s - 1\<rparr>))"
        by (rule outcome_bind [OF rm]) (auto intro: set)
    qed (rule mv, assumption, simp)
    with 2 show ?thesis by (simp add: update_length_def handD(1) [OF assms(2)] pq)
  next
    case 3
    then show ?thesis using mv [OF assms(2)] by (simp add: update_length_def handD(1) [OF assms(2)] pq)
  qed
qed

text \<open>The player of a snake can be reached.\<close>

definition reached :: "u16 \<Rightarrow> GameServer \<Rightarrow> bool" where
  "reached i g \<longleftrightarrow> (\<exists>h. connections g i = Some h \<and> h \<in> fst ` set (sessions g))"

lemma reached_kept: "kept g g' \<Longrightarrow> reached i g' = reached i g"
  using kept_hdls [of g g'] by (simp add: reached_def kept_def)

lemma reached_iter: "reached i g \<Longrightarrow> \<exists>h. LoadSessionIter i g = Some h \<and> h \<in> fst ` set (sessions g)"
  unfolding reached_def by (force simp: LoadSessionIter_def dest: weak_map_of_SomeI)

lemma pov_hand:
  assumes "env_ok v" "hand e s0 g0 s g" "h \<in> fst ` set (sessions g)"
  shows "outcome E (SendPOVUpdateTo v (Some h) (snd e) g) (\<lambda>g'. \<exists>s'. hand e s0 g0 s' g' \<and> update s' = update s)"
proof -
  have hs: "h \<in> fst ` set (sessions g1)" if "hand e s0 g0 s1 g1" for s1 g1
    using kept_hdls [OF handD(5) [OF that]] kept_hdls [OF handD(5) [OF assms(2)]] assms(3) by simp
  have sec: "outcome E (send_binary v out_packet_sector size_packet_sector (Some h) p g1) (hand e s0 g0 s1)"
    if "hand e s0 g0 s1 g1" for p s1 g1
    by (rule hand_after [OF that], rule to_sector.send_outcome [OF assms(1) handD(2) [OF that] hs [OF that]]) simp
  have food: "outcome E (send_binary v out_packet_set_food size_packet_set_food (Some h) p g1) (hand e s0 g0 s1)"
    if "hand e s0 g0 s1 g1" for p s1 g1
    by (rule hand_after [OF that], rule to_set_food.send_outcome [OF assms(1) handD(2) [OF that] hs [OF that]]) simp
  let ?s = "s\<lparr>vp := (vp s)\<lparr>new_sectors := [], old_sectors := []\<rparr>\<rparr>"
  have s: "like s ?s" using like_vp [OF like_refl [of s]] like_vp [of s "s\<lparr>vp := (vp s)\<lparr>new_sectors := []\<rparr>\<rparr>"] by simp
  have last: "outcome E (Option.bind (fold_opt (\<lambda>k g. send_binary v out_packet_sector size_packet_sector (Some h)
       (mk_packet_remove_sector (sec_x (sectors (world g) ! k)) (sec_y (sectors (world g) ! k))) g) ks g1)
       (\<lambda>g. Some (set_snake (snd e) ?s g))) (\<lambda>g'. \<exists>s'. hand e s0 g0 s' g' \<and> update s' = update s)"
    if "hand e s0 g0 s g1" for ks g1
  proof (rule outcome_bind)
    show "outcome E (fold_opt (\<lambda>k g. send_binary v out_packet_sector size_packet_sector (Some h)
       (mk_packet_remove_sector (sec_x (sectors (world g) ! k)) (sec_y (sectors (world g) ! k))) g) ks g1) (hand e s0 g0 s)"
      by (rule outcome_fold [where P = "hand e s0 g0 s", OF _ that]) (rule sec)
    fix g2 assume "hand e s0 g0 s g2"
    from hand_set [OF this s] show "outcome E (Some (set_snake (snd e) ?s g2)) (\<lambda>g'. \<exists>s'. hand e s0 g0 s' g' \<and> update s' = update s)"
      by (simp only: outcome_Some) (rule exI [of _ ?s], simp)
  qed
  show ?thesis unfolding SendPOVUpdateTo_def handD(1) [OF assms(2)] bind.simps Let_def
  proof (rule outcome_bind)
    show "outcome E (fold_opt (\<lambda>k g. Option.bind (send_binary v out_packet_sector size_packet_sector (Some h)
         (mk_packet_add_sector (sec_x (sectors (world g) ! k)) (sec_y (sectors (world g) ! k))) g)
         (send_binary v out_packet_set_food size_packet_set_food (Some h) (mk_packet_set_food (sec_food (sectors (world g) ! k)))))
       (new_sectors (vp s)) g) (hand e s0 g0 s)"
      by (rule outcome_fold [where P = "hand e s0 g0 s", OF _ assms(2)]) (rule outcome_bind, erule sec, erule food)
    fix g1 assume "hand e s0 g0 s g1"
    from last [OF this, of "old_sectors (vp s)"] show "outcome E (Option.bind (fold_opt (\<lambda>k g. send_binary v out_packet_sector size_packet_sector (Some h)
       (mk_packet_remove_sector (sec_x (sectors (world g) ! k)) (sec_y (sectors (world g) ! k))) g)
       (old_sectors (vp (s\<lparr>vp := (vp s)\<lparr>new_sectors := []\<rparr>\<rparr>))) g1)
       (\<lambda>g. Some (set_snake (snd e) (s\<lparr>vp := (vp s)\<lparr>new_sectors := []\<rparr>, vp := (vp (s\<lparr>vp := (vp s)\<lparr>new_sectors := []\<rparr>\<rparr>))\<lparr>old_sectors := []\<rparr>\<rparr>) g)))
       (\<lambda>g'. \<exists>s'. hand e s0 g0 s' g' \<and> update s' = update s)" by simp
  qed
qed

text \<open>The fullness bit is the only flag of the last part.\<close>

lemma xor_fullness: "(u XOR change_fullness) AND 107 = u AND (107 :: u8)"
  by (simp add: change_fullness_def bit.conj_xor_distrib2)

lemma player_hand:
  assumes "env_ok v" "hand e s0 g0 s g" "bot s \<or> reached (sn_id s) g"
  shows "outcome E (update_player v f (snd e) g) (\<lambda>g'. \<exists>s'. hand e s0 g0 s' g' \<and> update s' AND 107 = update s AND 107)"
proof (cases "bot s")
  case True
  then show ?thesis using assms(2) by (auto simp: update_player_def handD(1) [OF assms(2)])
next
  case False
  with assms(3) reached_iter obtain h where h: "LoadSessionIter (sn_id s) g = Some h" "h \<in> fst ` set (sessions g)" by blast
  let ?P = "\<lambda>g'. \<exists>s'. hand e s0 g0 s' g' \<and> update s' AND 107 = update s AND 107"
  have "outcome E (if f AND change_fullness \<noteq> 0 then do {
         s \<leftarrow> snake_at (snd e) g1;
         g \<leftarrow> send_binary v out_packet_fullness size_packet_fullness (Some h) (mk_packet_fullness s) g1;
         Some (set_snake (snd e) (s\<lparr>update := update s XOR change_fullness\<rparr>) g) }
       else Some g1) ?P"
    if h1: "hand e s0 g0 s1 g1" and u: "update s1 = update s" for s1 g1
  proof (cases "f AND change_fullness \<noteq> 0")
    case True
    have "fullness s1 < 100" using handD(3) [OF h1] by (simp add: snake_ok_def)
    from encodes_percent(1) [OF this]
    have "outcome E (send_binary v out_packet_fullness size_packet_fullness (Some h) (mk_packet_fullness s1) g1) (hand e s0 g0 s1)"
      using kept_hdls [OF handD(5) [OF h1]] kept_hdls [OF handD(5) [OF assms(2)]] h(2)
      by (intro hand_after [OF h1] to_fullness.send_outcome [OF assms(1) handD(2) [OF h1]]) simp_all
    then have "outcome E (Option.bind (send_binary v out_packet_fullness size_packet_fullness (Some h) (mk_packet_fullness s1) g1)
      (\<lambda>g. Some (set_snake (snd e) (s1\<lparr>update := update s1 XOR change_fullness\<rparr>) g))) ?P"
    proof (rule outcome_bind)
      fix g2 assume "hand e s0 g0 s1 g2"
      from hand_set [OF this, of "s1\<lparr>update := update s1 XOR change_fullness\<rparr>"] xor_fullness [of "update s"]
      show "outcome E (Some (set_snake (snd e) (s1\<lparr>update := update s1 XOR change_fullness\<rparr>) g2)) ?P"
        by (auto intro!: exI [of _ "s1\<lparr>update := update s1 XOR change_fullness\<rparr>"] simp: u)
    qed
    with True show ?thesis by (simp add: handD(1) [OF h1])
  next
    case False
    with h1 u show ?thesis by auto
  qed
  then have "outcome E (Option.bind (SendPOVUpdateTo v (Some h) (snd e) g) (\<lambda>g. if f AND change_fullness \<noteq> 0 then do {
         s \<leftarrow> snake_at (snd e) g;
         g \<leftarrow> send_binary v out_packet_fullness size_packet_fullness (Some h) (mk_packet_fullness s) g;
         Some (set_snake (snd e) (s\<lparr>update := update s XOR change_fullness\<rparr>) g) }
       else Some g)) ?P"
    by (intro outcome_bind [OF pov_hand [OF assms(1,2) h(2)]]) blast
  with False show ?thesis by (simp add: update_player_def handD(1) [OF assms(2)] h(1) Let_def)
qed

lemma position_hand:
  assumes "env_ok v" "hand e s0 g0 s g" "bot s \<or> reached (sn_id s) g" "body_ok (parts s)"
  shows "outcome E (update_position v f (snd e) g) (\<lambda>g'. \<exists>s'. hand e s0 g0 s' g' \<and>
    update s' AND 107 = (if f AND change_pos \<noteq> 0 then update s XOR change_pos else update s) AND 107)"
proof (cases "f AND change_pos \<noteq> 0")
  case True
  let ?s = "s\<lparr>update := update s XOR change_pos\<rparr>"
  from hand_set [OF assms(2), of ?s] have h: "hand e s0 g0 ?s (set_snake (snd e) ?s g)" by simp
  have same: "bot s' \<or> reached (sn_id s') g'" if "hand e s0 g0 s' g'" for s' g'
    using handD(4) [OF that] handD(4) [OF assms(2)] assms(3) reached_kept [OF handD(5) [OF that], of "sn_id s'"]
      reached_kept [OF handD(5) [OF assms(2)], of "sn_id s"] by (simp add: like_def)
  have "outcome E (Option.bind (Option.bind (update_length v (snd e) (set_snake (snd e) ?s g)) (SendFoodUpdate v (snd e)))
    (update_player v f (snd e))) (\<lambda>g'. \<exists>s'. hand e s0 g0 s' g' \<and> update s' AND 107 = update ?s AND 107)"
  proof (rule outcome_bind)
    show "outcome E (Option.bind (update_length v (snd e) (set_snake (snd e) ?s g)) (SendFoodUpdate v (snd e)))
      (\<lambda>g'. \<exists>s'. hand e s0 g0 s' g' \<and> update s' = update ?s)"
    proof (rule outcome_bind)
      show "outcome E (update_length v (snd e) (set_snake (snd e) ?s g)) (\<lambda>g'. \<exists>s'. hand e s0 g0 s' g' \<and> update s' = update ?s)"
        by (rule length_hand [OF assms(1) h]) (use assms(4) in simp)
      fix g1 assume "\<exists>s'. hand e s0 g0 s' g1 \<and> update s' = update ?s"
      then obtain s1 where s1: "hand e s0 g0 s1 g1" "update s1 = update ?s" by blast
      from food_update_hand [OF assms(1) s1(1), of E] show "outcome E (SendFoodUpdate v (snd e) g1)
        (\<lambda>g'. \<exists>s'. hand e s0 g0 s' g' \<and> update s' = update ?s)" unfolding s1(2) .
    qed
    fix g1 assume "\<exists>s'. hand e s0 g0 s' g1 \<and> update s' = update ?s"
    then obtain s1 where s1: "hand e s0 g0 s1 g1" "update s1 = update ?s" by blast
    from player_hand [OF assms(1) s1(1) same [OF s1(1)], of E f] show "outcome E (update_player v f (snd e) g1)
      (\<lambda>g'. \<exists>s'. hand e s0 g0 s' g' \<and> update s' AND 107 = update ?s AND 107)" unfolding s1(2) .
  qed
  with True show ?thesis by (simp add: update_position_def handD(1) [OF assms(2)] Let_def)
next
  case False
  then show ?thesis using assms(2) by (auto simp: update_position_def)
qed

section \<open>The flags after an update\<close>

definition rot_flags :: "u8 \<Rightarrow> u8 \<Rightarrow> u8" where
  "rot_flags f u =
    (let u = (if f AND change_angle \<noteq> 0 then
                let u = u XOR change_angle in if f AND change_wangle \<noteq> 0 then u XOR change_wangle else u
              else u)
     in if f AND change_speed \<noteq> 0 then u XOR change_speed else u)"

lemma clear_rotation_flags: "update (clear_rotation f s) = rot_flags f (update s)"
  by (simp add: clear_rotation_def rot_flags_def Let_def)

lemma flags_table: "list_all (\<lambda>u. let r = (if u AND (change_angle OR change_speed) \<noteq> 0 then rot_flags u u else u);
     p = (if u AND change_pos \<noteq> 0 then r XOR change_pos else r)
   in p AND 11 = 0 \<and> p AND 96 = u AND 96) (map word_of_nat [0..<256])"
  by code_simp

lemma u8_all: "list_all P (map word_of_nat [0..<256]) \<Longrightarrow> P (u :: u8)"
proof -
  assume a: "list_all P (map word_of_nat [0..<256])"
  have "unat u < 256" using unsigned_less [where ?'a = nat, of u] by simp
  then have "word_of_nat (unat u) \<in> set (map word_of_nat [0..<256] :: u8 list)" by (simp only: set_map set_upt) (rule imageI, simp)
  with a show "P u" unfolding list_all_iff by fastforce
qed

lemma flags_updated:
  fixes u :: u8
  defines "r \<equiv> if u AND (change_angle OR change_speed) \<noteq> 0 then rot_flags u u else u"
  assumes "w AND 107 = (if u AND change_pos \<noteq> 0 then r XOR change_pos else r) AND 107"
  shows "w AND 11 = 0" "w AND 96 = u AND 96"
  using u8_all [OF flags_table, of u, unfolded Let_def, folded r_def] flags_of_107 [OF assms(2)] by (simp_all only:)

section \<open>A snake and its mark\<close>

text \<open>A dead bot waits in \<open>dead\<close>, a dead player waits for the close of its connection.\<close>

definition buried :: "u16 list \<Rightarrow> Snake \<Rightarrow> bool" where
  "buried D s \<longleftrightarrow> (update s AND change_dead \<noteq> 0 \<longrightarrow> bot s \<longrightarrow> sn_id s \<in> set D)"

definition pending :: "u16 list \<Rightarrow> Snake \<Rightarrow> bool" where
  "pending D s \<longleftrightarrow> tick_ready s \<and> (doomed s \<or> on_board s) \<and> buried D s"

definition settled :: "u16 list \<Rightarrow> Snake \<Rightarrow> bool" where
  "settled D s \<longleftrightarrow> tick_ready s \<and> buried D s \<and> (update s AND change_dead \<noteq> 0 \<or> \<not> doomed s \<and> on_board s \<and> flushed s)"

lemma dead_doomed: "u AND change_dead \<noteq> 0 \<Longrightarrow> u AND (change_dying OR change_dead) \<noteq> (0 :: u8)"
proof -
  have "u AND 64 = (u AND 96) AND (64 :: u8)" unfolding and.assoc by simp
  then show "u AND change_dead \<noteq> 0 \<Longrightarrow> u AND (change_dying OR change_dead) \<noteq> 0"
    by (auto simp: change_dead_def change_dying_def)
qed

lemma settled_pending: "settled D s \<Longrightarrow> pending D s"
  using dead_doomed [of "update s"] by (auto simp: settled_def pending_def doomed_def)

lemma flags_96: "u AND 64 = 0 \<Longrightarrow> u AND 32 = 0 \<Longrightarrow> u AND 96 = (0 :: u8)"
  using bit.conj_disj_distrib [of u 64 32] by simp

text \<open>A bot that has died and whose farewell is not sent yet: \<open>RemoveDeadSnakes\<close> is going to remove it.\<close>

definition leaving :: "Snake \<Rightarrow> bool" where
  "leaving s \<longleftrightarrow> bot s \<and> update s AND change_dying \<noteq> 0 \<and> update s AND change_dead = 0"

lemma dying_doomed: "u AND change_dying \<noteq> 0 \<Longrightarrow> u AND (change_dying OR change_dead) \<noteq> (0 :: u8)"
proof -
  have "u AND 32 = (u AND 96) AND (32 :: u8)" unfolding and.assoc by simp
  then show "u AND change_dying \<noteq> 0 \<Longrightarrow> u AND (change_dying OR change_dead) \<noteq> 0"
    by (auto simp: change_dead_def change_dying_def)
qed

lemma settled_stays: "settled D s \<Longrightarrow> \<not> leaving s"
  using dying_doomed [of "update s"] by (auto simp: settled_def leaving_def doomed_def)

text \<open>The result of one round of the loop.\<close>

definition worked :: "u16 \<times> addr \<Rightarrow> Snake \<Rightarrow> GameServer \<Rightarrow> GameServer \<Rightarrow> bool" where
  "worked e s0 g0 g \<longleftrightarrow> live_server g \<and> kept g0 g \<and> (\<forall>b. b \<noteq> snd e \<longrightarrow> heap (world g) b = heap (world g0) b) \<and>
     (\<exists>s. heap (world g) (snd e) = Some s \<and> like s0 s \<and> settled (dead (world g)) s) \<and>
     dead (world g) = dead (world g0) @ (if leaving s0 then [sn_id s0] else [])"

lemma hand_worked:
  assumes "hand e s0 g0 s g" "settled (dead (world g)) s" "\<not> leaving s0"
  shows "worked e s0 g0 g"
  using assms by (simp add: hand_def worked_def)

lemma food_step_snake_ok:
  assumes "snake_ok (s, ss)" "food_step ss ss'"
  shows "snake_ok (s, ss')"
proof -
  have "sn_id s \<noteq> sn_id s + 1" by simp
  from other_snake_ok [OF assms(1) this food_step_grid [OF assms(2)]] show ?thesis .
qed

lemma scatter_hand:
  assumes "hand e s0 g0 s g" "food_step (sectors (world g)) ss"
  shows "hand e s0 g0 (s\<lparr>spawn := fs\<rparr>) (g\<lparr>world := (world g)\<lparr>heap := (heap (world g))(snd e \<mapsto> s\<lparr>spawn := fs\<rparr>), sectors := ss, rng := r\<rparr>\<rparr>)"
proof -
  let ?s = "s\<lparr>spawn := fs\<rparr>"
  have o: "owns (snakes (world g)) (world g)" "(fst e, snd e) \<in> set (snakes (world g))" "heap (world g) (snd e) = Some s"
    using assms by (simp_all add: hand_def live_server_def)
  have "snake_ok (?s, ss)" using food_step_snake_ok [OF handD(3) [OF assms(1)] assms(2)] by (rule like_snake_ok [rotated]) simp
  then have "owns (snakes (world g)) (update_snake (snd e) ?s ss (world g))"
    by (intro owns_put [OF o] food_step_grid [OF assms(2)]) simp_all
  then show ?thesis using assms(1) by (simp add: hand_def live_server_def update_snake_def)
qed

lemma dying_worked:
  assumes "env_ok v" "hand e s0 g0 s g" "bot s \<or> reached (sn_id s) g" "tick_ready s" "leaving s0 = bot s0"
  shows "outcome E (update_dying v (snd e) g) (worked e s0 g0)"
proof -
  have fin: "worked e s0 g0 (if bot s2 then u\<lparr>world := (world u)\<lparr>dead := dead (world u) @ [sn_id s2]\<rparr>\<rparr> else u)"
    if h: "hand e s0 g0 s2 g2" and u: "u = set_snake (snd e) (s2\<lparr>update := update s2 OR change_dead\<rparr>) g2" for s2 g2 u
  proof -
    have h2: "hand e s0 g0 (s2\<lparr>update := update s2 OR change_dead\<rparr>) u" unfolding u by (rule hand_set [OF h]) simp
    have l: "like s0 s2" "like s0 s" using handD(4) [OF h] handD(4) [OF assms(2)] by simp_all
    have d: "(update s2 OR change_dead) AND change_dead \<noteq> 0" by (simp add: change_dead_def bit.conj_disj_distrib2)
    have "tick_ready s2" using assms(4) like_ready [OF l(1)] like_ready [OF l(2)] by simp
    then have tr: "tick_ready (s2\<lparr>update := update s2 OR change_dead\<rparr>)"
      using like_ready [of s2 "s2\<lparr>update := update s2 OR change_dead\<rparr>"] by simp
    show ?thesis
    proof (cases "bot s2")
      case False
      have "settled (dead (world u)) (s2\<lparr>update := update s2 OR change_dead\<rparr>)"
        using tr d False by (simp add: settled_def buried_def)
      moreover have "\<not> leaving s0" using False l by (simp add: assms(5) like_def)
      ultimately show ?thesis using hand_worked [OF h2] False by simp
    next
      case True
      have "settled (dead (world u) @ [sn_id s2]) (s2\<lparr>update := update s2 OR change_dead\<rparr>)"
        using tr d l by (simp add: settled_def buried_def like_def)
      moreover have "leaving s0" "sn_id s2 = sn_id s0" using True l by (simp_all add: assms(5) like_def)
      ultimately show ?thesis using True h2 by (simp add: worked_def hand_def live_server_def)
    qed
  qed
  have rem: "outcome E (broadcast_binary v out_packet_remove_snake size_packet_remove_snake p u) (hand e s0 g0 t)"
    if "hand e s0 g0 t u" for p t u
    by (rule hand_after [OF that], rule to_remove_snake.broadcast_outcome [OF assms(1) handD(2) [OF that]]) simp
  have farewell: "outcome E (if \<not> bot s then
             let ses_i = LoadSessionIter (sn_id s) g
             in if ses_i \<noteq> None then send_binary v out_packet_end size_packet_end ses_i (mk_packet_end status_death) g
                else Some g
           else Some g) (hand e s0 g0 s)"
  proof (cases "bot s")
    case False
    with assms(3) reached_iter obtain h where h: "LoadSessionIter (sn_id s) g = Some h" "h \<in> fst ` set (sessions g)" by blast
    have "outcome E (send_binary v out_packet_end size_packet_end (Some h) (mk_packet_end status_death) g) (hand e s0 g0 s)"
      by (rule hand_after [OF assms(2)], rule to_end.send_outcome [OF assms(1) handD(2) [OF assms(2)] h(2)]) simp
    with False h(1) show ?thesis by simp
  qed (use assms(2) in simp)
  let ?k = "\<lambda>t g. do {
     g \<leftarrow> SendFoodUpdate v (snd e) g;
     g \<leftarrow> broadcast_binary v out_packet_remove_snake size_packet_remove_snake (mk_packet_remove_snake (sn_id t) status_snake_died) g;
     g \<leftarrow> broadcast_binary v out_packet_remove_snake size_packet_remove_snake (mk_packet_remove_snake (sn_id t) status_snake_left) g;
     s \<leftarrow> snake_at (snd e) g;
     let g = set_snake (snd e) (s\<lparr>update := update s OR change_dead\<rparr>) g;
     Some (if bot s then g\<lparr>world := (world g)\<lparr>dead := dead (world g) @ [sn_id s]\<rparr>\<rparr> else g) }"
  have tail: "outcome E (?k t u) (worked e s0 g0)" if t: "hand e s0 g0 t u" for t u
  proof (intro outcome_bind [OF food_update_hand [OF assms(1) t]])
    fix u1 assume "\<exists>s'. hand e s0 g0 s' u1 \<and> update s' = update t"
    then obtain t1 where t1: "hand e s0 g0 t1 u1" by blast
    show "outcome E (do {
     g \<leftarrow> broadcast_binary v out_packet_remove_snake size_packet_remove_snake (mk_packet_remove_snake (sn_id t) status_snake_died) u1;
     g \<leftarrow> broadcast_binary v out_packet_remove_snake size_packet_remove_snake (mk_packet_remove_snake (sn_id t) status_snake_left) g;
     s \<leftarrow> snake_at (snd e) g;
     let g = set_snake (snd e) (s\<lparr>update := update s OR change_dead\<rparr>) g;
     Some (if bot s then g\<lparr>world := (world g)\<lparr>dead := dead (world g) @ [sn_id s]\<rparr>\<rparr> else g) }) (worked e s0 g0)"
    proof (rule outcome_bind [OF rem [OF t1]], rule outcome_bind [OF rem], assumption)
      fix u2 u3 assume u3: "hand e s0 g0 t1 u3"
      from fin [OF u3 refl] show "outcome E (do { s \<leftarrow> snake_at (snd e) u3;
         let g = set_snake (snd e) (s\<lparr>update := update s OR change_dead\<rparr>) u3;
         Some (if bot s then g\<lparr>world := (world g)\<lparr>dead := dead (world g) @ [sn_id s]\<rparr>\<rparr> else g) }) (worked e s0 g0)"
        by (simp only: handD(1) [OF u3] Let_def bind.simps outcome_Some)
    qed
  qed
  show ?thesis unfolding update_dying_def handD(1) [OF assms(2)] bind.simps
  proof (rule outcome_bind [OF farewell])
    fix u assume u: "hand e s0 g0 s u"
    have ok: "grid_ok (sectors (world u))" "body_ok (parts s)" "consts_ok s"
      using handD(3) [OF u] assms(4) by (simp_all add: snake_ok_def tick_ready_def)
    have "rand_ok (e_libc v)" using assms(1) by (simp add: env_ok_def)
    from on_dead_food_spawn_total [OF ok this, of "rng (world u)"] obtain fs ss r where
      d: "on_dead_food_spawn (e_libc v) (s, sectors (world u), rng (world u)) = Some (s\<lparr>spawn := fs\<rparr>, ss, r)"
        "food_step (sectors (world u)) ss" by blast
    from tail [OF scatter_hand [OF u d(2)]] show "outcome E (do {
       (s, ss, r) \<leftarrow> on_dead_food_spawn (e_libc v) (s, sectors (world u), rng (world u));
       let g = u\<lparr>world := (world u)\<lparr>heap := (heap (world u))(snd e \<mapsto> s), sectors := ss, rng := r\<rparr>\<rparr>;
       ?k s g }) (worked e s0 g0)" by (simp add: d(1))
  qed
qed

section \<open>The loop over the changed snakes\<close>

lemma update_worked:
  assumes v: "env_ok v" and g: "live_server g" "e \<in> set (snakes (world g))" "heap (world g) (snd e) = Some s"
    and s: "pending (dead (world g)) s" "bot s \<or> reached (sn_id s) g" and E: "E \<or> angles_encode s"
  shows "outcome E (update_snake_to v (snd e) g) (worked e s g)"
proof -
  note h = hand_start [OF g]
  have tr: "tick_ready s" using s(1) by (simp add: pending_def)
  consider "update s AND change_dead \<noteq> 0" | "update s AND change_dead = 0" "update s AND change_dying \<noteq> 0"
    | "update s AND change_dead = 0" "update s AND change_dying = 0" by blast
  then show ?thesis
  proof cases
    case 1
    then have "settled (dead (world g)) s" using s(1) by (simp add: settled_def pending_def)
    from hand_worked [OF h this settled_stays [OF this]] 1 show ?thesis by (simp add: update_snake_to_def handD(1) [OF h])
  next
    case 2
    then have "leaving s = bot s" by (simp add: leaving_def)
    from dying_worked [OF v h s(2) tr this, of E] 2 show ?thesis by (simp add: update_snake_to_def handD(1) [OF h])
  next
    case 3
    then have nd: "update s AND 96 = 0" by (simp add: change_dying_def change_dead_def flags_96)
    have ob: "on_board s" using s(1) nd by (auto simp: pending_def doomed_def change_dying_def change_dead_def)
    let ?r = "if update s AND (change_angle OR change_speed) \<noteq> 0 then rot_flags (update s) (update s) else update s"
    have "outcome E (Option.bind (update_rotation v (update s) (snd e) g) (update_position v (update s) (snd e))) (worked e s g)"
    proof (rule outcome_bind [OF rotation_hand [OF v h E]])
      fix g1 assume "\<exists>s'. hand e s g s' g1 \<and> update s' = (if update s AND (change_angle OR change_speed) \<noteq> 0
        then update (clear_rotation (update s) s) else update s)"
      then obtain s1 where s1: "hand e s g s1 g1" "update s1 = ?r" by (auto simp: clear_rotation_flags)
      have l1: "like s s1" using handD(4) [OF s1(1)] .
      have "bot s1 \<or> reached (sn_id s1) g1" using s(2) l1 reached_kept [OF handD(5) [OF s1(1)]] by (simp add: like_def)
      moreover have "body_ok (parts s1)" using tr l1 by (simp add: tick_ready_def like_def)
      ultimately have "outcome E (update_position v (update s) (snd e) g1) (\<lambda>g'. \<exists>s'. hand e s g s' g' \<and>
        update s' AND 107 = (if update s AND change_pos \<noteq> 0 then ?r XOR change_pos else ?r) AND 107)"
        using position_hand [OF v s1(1), of E "update s"] unfolding s1(2) by blast
      then show "outcome E (update_position v (update s) (snd e) g1) (worked e s g)"
      proof (rule outcome_mono)
        fix g2 assume "\<exists>s'. hand e s g s' g2 \<and>
          update s' AND 107 = (if update s AND change_pos \<noteq> 0 then ?r XOR change_pos else ?r) AND 107"
        then obtain s2 where s2: "hand e s g s2 g2" "update s2 AND 107 = (if update s AND change_pos \<noteq> 0 then ?r XOR change_pos else ?r) AND 107"
          by blast
        have l2: "like s s2" using handD(4) [OF s2(1)] .
        from flags_updated [OF s2(2)] have f: "update s2 AND 11 = 0" "update s2 AND 96 = 0" using nd by simp_all
        have "settled (dead (world g2)) s2" using f tr ob like_ready [OF l2] dead_of_96 [of "update s2" 0]
          by (simp add: settled_def buried_def doomed_def flushed_def move_flags_value change_dying_def change_dead_def)
        moreover have "\<not> leaving s" using 3(2) by (simp add: leaving_def)
        ultimately show "worked e s g g2" by (rule hand_worked [OF s2(1)])
      qed
    qed
    with 3 show ?thesis by (simp add: update_snake_to_def handD(1) [OF h] Let_def)
  qed
qed

end
