(* ===== verification/DebugDraw.thy ===== *)
theory DebugDraw
  imports ServerSends
begin

text \<open>
  \<open>BroadcastDebug\<close>: drawing the snakes that changed, with the option \<open>--debug\<close>. The circles of the body
  and of the sectors always have coordinates of 16 bits; those of the box may not, since its radius grows
  with the snake.
\<close>

text \<open>The box fits a circle of the debug packet.\<close>

definition drawable :: "'a BoundBoxPos_scheme \<Rightarrow> bool" where
  "drawable b \<longleftrightarrow> to_u16 (pos_x b) \<noteq> None \<and> to_u16 (pos_y b) \<noteq> None \<and> to_u16 (pos_r b) \<noteq> None"

lemma circle_outcome:
  "to_u16 x \<noteq> None \<Longrightarrow> to_u16 y \<noteq> None \<Longrightarrow> to_u16 r \<noteq> None \<Longrightarrow> outcome E (push_circle x y r c st) (\<lambda>_. True)"
  by (auto simp: push_circle_def mk_d_draw_point_def mk_d_draw_circle_def split: prod.splits)

lemma to_u16_fits: "between a b x \<Longrightarrow> 0 \<le> a \<Longrightarrow> b \<le> 65535 \<Longrightarrow> to_u16 x \<noteq> None"
  using to_u16_between by blast

lemma to_u16_coord: "coord_ok x \<Longrightarrow> to_u16 x \<noteq> None"
  using to_u16_fits [of 0 43200 x] by (simp add: coord_ok_def)

lemma body_outcome:
  assumes "body_ok ps" "p \<in> set ps" "to_u16 r \<noteq> None"
  shows "outcome E (push_body r c p st) (\<lambda>_. True)"
proof -
  have "coord_ok (body_x p)" "coord_ok (body_y p)" using assms(1,2) by (simp_all add: body_ok_def)
  then show ?thesis unfolding push_body_def by (intro circle_outcome assms(3) to_u16_coord)
qed

lemma sector_drawable:
  assumes "grid_ok ss" "k < 20736"
  shows "drawable (sec_box (ss ! k))"
proof -
  let ?i = "int k mod 144" and ?j = "int k div 144"
  have "0 \<le> ?j" "?j < 144" using assms(2) by linarith+
  then have m: "on_map ?i ?j" by (simp add: on_map_def count_along_edge)
  have k: "nat (?j * 144 + ?i) = k" by simp
  have c: "to_u16 (fl 1 * fl (300 * i + 150)) \<noteq> None" if "0 \<le> i" "i < 144" for i
  proof -
    have "between 0 43200 (fl 1 * fl (300 * i + 150))"
      using fl_times_1 [of "300 * i + 150"] that by (simp add: between_def)
    then show ?thesis by (rule to_u16_fits) simp_all
  qed
  have r: "to_u16 (fl sector_diag_size / fl 2) \<noteq> None" by code_simp
  from grid_ok_centre [OF assms(1) m, unfolded k] c [of ?i] c [of ?j] r m show ?thesis
    by (simp add: drawable_def mk_pos_def on_map_def count_along_edge)
qed

lemma windows_outcome:
  assumes "body_ok (parts s)"
  shows "outcome E (draw_windows s st) (\<lambda>_. True)"
proof -
  have r: "to_u16 (fl (sector_size div 2)) \<noteq> None" "to_u16 (fl move_step_distance) \<noteq> None" by code_simp+
  note body = body_outcome [OF assms]
  have all: "outcome E (fold_opt (push_body r c) ps st) (\<lambda>_. True)" if "set ps \<subseteq> set (parts s)" "to_u16 r \<noteq> None" for ps r c st
    by (rule outcome_fold) (use that body in \<open>blast | simp\<close>)+
  have tail: "outcome E (fold_opt (\<lambda>i. push_body r c (parts s ! i)) is st) (\<lambda>_. True)"
    if "\<forall>i \<in> set is. i < length (parts s)" "to_u16 r \<noteq> None" for "is" r c st
    by (rule outcome_fold) (use that in \<open>simp_all add: body\<close>)
  show ?thesis
  proof (cases "length (parts s) \<le> 8 + tail_step")
    case True
    then show ?thesis using all r by (simp add: draw_windows_def)
  next
    case False
    then have "parts s ! 0 \<in> set (parts s)" "parts s ! 3 \<in> set (parts s)" "parts s ! 8 \<in> set (parts s)"
      by (intro nth_mem, linarith)+
    from outcome_bind [OF body [OF this(2) r(1)] outcome_bind [OF body [OF this(1) r(2)] outcome_bind [OF body [OF this(3) r(2)] tail [OF _ r(1)]]]]
    show ?thesis using False unfolding draw_windows_def Let_def by simp
  qed
qed

lemma snake_outcome:
  assumes "heap w a = Some s" "3 \<le> length (parts s)" "body_ok (parts s)" "consts_ok s" "grid_ok (sectors w)"
    and "\<forall>k \<in> set (bb_sectors (sbb s)). k < 20736" "E \<or> drawable (sbb s)"
  shows "outcome E (draw_snake w a cs) (\<lambda>_. True)"
proof (cases "drawable (sbb s)")
  case True
  have p: "coord_ok (body_x (parts s ! i))" "coord_ok (body_y (parts s ! i))" if "i < 3" for i
    using body_ok_nth [OF assms(3), of i] that assms(2) by simp_all
  have "to_u16 (get_snake_body_part_radius s) \<noteq> None"
    using to_u16_fits [of 14 87] assms(4) by (simp add: consts_ok_def get_snake_body_part_radius_def)
  note r = this
  have c: "to_u16 (get_head_x s) \<noteq> None" "to_u16 (get_head_y s) \<noteq> None"
    "to_u16 (body_x (parts s ! 1)) \<noteq> None" "to_u16 (body_y (parts s ! 1)) \<noteq> None"
    "to_u16 (body_x (parts s ! 1) + (get_head_x s - body_x (parts s ! 1)) / fl 2) \<noteq> None"
    "to_u16 (body_y (parts s ! 1) + (get_head_y s - body_y (parts s ! 1)) / fl 2) \<noteq> None"
    using p [of 0] p [of 1] by (simp_all add: get_head_x_def get_head_y_def to_u16_coord coord_middle)
  have two: "(if length (parts s) < 2 then None else Some ()) = Some ()" using assms(2) by simp
  note circles = circle_outcome [where E = E]
  have secs: "outcome E (fold_opt (\<lambda>k. push_circle (pos_x (sec_box (sectors w ! k))) (pos_y (sec_box (sectors w ! k)))
       (pos_r (sec_box (sectors w ! k))) 0x511883) (bb_sectors (sbb s)) st) (\<lambda>_. True)" for st
    by (rule outcome_fold) (use sector_drawable [OF assms(5)] assms(6) in \<open>auto simp: drawable_def intro: circle_outcome\<close>)
  have tl: "outcome E (push_body (get_snake_body_part_radius s) 0x646464 (last (parts s)) st) (\<lambda>_. True)" for st
    by (rule body_outcome [OF assms(3) last_in_set r]) (use assms(2) in auto)
  have box: "to_u16 (pos_x (sbb s)) \<noteq> None" "to_u16 (pos_y (sbb s)) \<noteq> None" "to_u16 (pos_r (sbb s)) \<noteq> None"
    using True by (simp_all add: drawable_def)
  show ?thesis
    unfolding draw_snake_def assms(1) bind.simps Let_def two
    by (rule outcome_bind [OF circles [OF box]], rule outcome_bind [OF circles [OF c(1,2) r]],
        rule outcome_bind [OF circles [OF c(3,4) r]], rule outcome_bind [OF circles [OF c(5,6) r]],
        rule outcome_bind [OF tl], rule outcome_bind [OF secs], rule outcome_bind [OF windows_outcome [OF assms(3)]]) simp
qed (use assms(7) in \<open>simp add: outcome_def split: option.split\<close>)

text \<open>A debug packet goes to every session and, unlike the others, does not tell the time.\<close>

lemma debug_send_outcome:
  assumes "env_ok v"
  shows "outcome E (broadcast_debug v out_packet_debug_draw size_packet_debug_draw p g) (sent g)"
proof -
  have "send_bytes (e_asio v) (e_raw v) out_packet_debug_draw size_packet_debug_draw p = out_packet_debug_draw p"
    using assms by (intro wire_debug_draw.send_exact) (simp_all add: env_ok_def)
  then have one: "outcome E (endpoint_send v out_packet_debug_draw size_packet_debug_draw p h u) (sent u)" for h u
    by (simp add: endpoint_send_def out_packet_debug_draw_def)
  show ?thesis unfolding broadcast_debug_def
    by (rule outcome_fold [where P = "sent g"]) (rule outcome_mono [OF one], erule (1) sent_trans, simp)
qed

lemma debug_outcome:
  assumes "env_ok v"
    and "\<And>a. a \<in> set (changes (world g)) \<Longrightarrow> \<exists>s. heap (world g) a = Some s \<and> snake_ok (s, sectors (world g)) \<and> tick_ready s \<and>
      (E \<or> (debug (srv_config g) \<longrightarrow> drawable (sbb s)))"
  shows "outcome E (BroadcastDebug v g) (sent g)"
proof (cases "debug (srv_config g)")
  case True
  have "outcome E (draw_snake (world g) a cs) (\<lambda>_. True)" if "a \<in> set (changes (world g))" for a cs
  proof -
    from assms(2) [OF that] True obtain s where s: "heap (world g) a = Some s" "snake_ok (s, sectors (world g))" "tick_ready s"
      "E \<or> drawable (sbb s)" by blast
    from s(2) have k: "3 \<le> length (parts s)" "grid_ok (sectors (world g))" "registered (sbb s) (sectors (world g))"
      by (simp_all add: snake_ok_def boxes_ok_def box_ok_def)
    then have "\<forall>k \<in> set (bb_sectors (sbb s)). k < 20736" by (simp add: registered_def)
    with s k show ?thesis by (intro snake_outcome) (simp_all add: tick_ready_def)
  qed
  then have "outcome E (fold_opt (draw_snake (world g)) (changes (world g)) []) (\<lambda>_. True)"
    by (intro outcome_fold) simp_all
  then show ?thesis using True debug_send_outcome [OF assms(1), of E]
    by (simp add: BroadcastDebug_def Let_def) (erule outcome_bind, simp)
qed (simp add: BroadcastDebug_def)

text \<open>The box of a snake of 5500 parts does not fit, and nothing keeps snakes shorter.\<close>

lemma long_box_undrawable:
  assumes "length (parts s) = 5500"
  shows "\<not> drawable (sbb (UpdateBoxRadius s))"
proof -
  have "to_u16 ((fl 42 + fl 42 + fl 42 + lit 377 10 + lit 377 10 + fl 33 + lit 285 10 + tail_step_distance * fl 5492 +
    fl move_step_distance) / fl 2) = None" by code_simp
  then show ?thesis using assms by (simp add: UpdateBoxRadius_def drawable_def)
qed

end
