(* ===== verification/ServerInvariant.thy ===== *)
theory ServerInvariant
  imports ServerUpdates DebugDraw
begin

text \<open>
  The invariant of the server between two events, and the handlers of websocketpp: each of them keeps it.
\<close>

section \<open>All changed snakes\<close>

lemma settled_mono: "settled D s \<Longrightarrow> set D \<subseteq> set D' \<Longrightarrow> settled D' s"
  and pending_mono: "pending D s \<Longrightarrow> set D \<subseteq> set D' \<Longrightarrow> pending D' s"
  by (auto simp: settled_def pending_def buried_def)

definition bots_only :: "World \<Rightarrow> u16 list \<Rightarrow> bool" where
  "bots_only w D \<longleftrightarrow> (\<forall>i \<in> set D. \<exists>a s. (i, a) \<in> set (snakes w) \<and> heap w a = Some s \<and> bot s)"

text \<open>
  \<open>vis\<close> are the snakes the loop has visited; \<open>gone\<close> are the ids it has put into \<open>dead\<close> on the way.
\<close>

definition gone :: "World \<Rightarrow> addr list \<Rightarrow> u16 set" where
  "gone w vis = {i. \<exists>a s. (i, a) \<in> set (snakes w) \<and> a \<in> set vis \<and> heap w a = Some s \<and> leaving s}"

lemma gone_step:
  assumes "owns (snakes w) w" "e \<in> set (snakes w)" "heap w (snd e) = Some s"
  shows "gone w (vis @ [snd e]) = gone w vis \<union> (if leaving s then {sn_id s} else {})"
proof -
  have i: "(i, snd e) \<in> set (snakes w) \<longleftrightarrow> i = sn_id s" for i
  proof
    assume "(i, snd e) \<in> set (snakes w)"
    from ownsD [OF assms(1) this] assms(3) show "i = sn_id s" by auto
  next
    have e: "(fst e, snd e) \<in> set (snakes w)" using assms(2) by simp
    from ownsD [OF assms(1) e] assms(3) have "sn_id s = fst e" by auto
    then show "i = sn_id s \<Longrightarrow> (i, snd e) \<in> set (snakes w)" using e by simp
  qed
  have "j \<in> gone w (vis @ [snd e]) \<longleftrightarrow> j \<in> gone w vis \<or> (j, snd e) \<in> set (snakes w) \<and> leaving s" for j
    using assms(3) by (auto simp: gone_def)
  then show ?thesis unfolding i by auto
qed

definition looping :: "GameServer \<Rightarrow> addr list \<Rightarrow> GameServer \<Rightarrow> bool" where
  "looping g0 vis g \<longleftrightarrow> live_server g \<and> kept g0 g \<and> set (dead (world g)) = gone (world g0) vis \<and>
     (\<forall>e \<in> set (snakes (world g0)). \<exists>s0 s. heap (world g0) (snd e) = Some s0 \<and> heap (world g) (snd e) = Some s \<and> like s0 s \<and>
        (snd e \<notin> set vis \<longrightarrow> s = s0) \<and>
        (if snd e \<in> set vis \<or> snd e \<notin> set (changes (world g0)) then settled (dead (world g)) s else pending (dead (world g)) s))"

lemma loopingD:
  assumes "looping g0 vis g" "e \<in> set (snakes (world g0))"
  obtains s0 s where "heap (world g0) (snd e) = Some s0" "heap (world g) (snd e) = Some s" "like s0 s"
    "if snd e \<in> set vis \<or> snd e \<notin> set (changes (world g0)) then settled (dead (world g)) s else pending (dead (world g)) s"
    "snd e \<notin> set vis \<longrightarrow> s = s0"
  using assms unfolding looping_def by blast

lemma looping_bots: "looping g0 vis g \<Longrightarrow> bots_only (world g0) (dead (world g))"
  unfolding looping_def bots_only_def gone_def leaving_def by blast

lemma looping_step:
  assumes "looping g0 vis g" "e \<in> set (snakes (world g0))" "live_server g0" "worked e s g g'"
    and "heap (world g) (snd e) = Some s"
  shows "looping g0 (vis @ [snd e]) g'"
proof -
  have w: "live_server g'" "kept g g'" "\<forall>b. b \<noteq> snd e \<longrightarrow> heap (world g') b = heap (world g) b"
    "dead (world g') = dead (world g) @ (if leaving s then [sn_id s] else [])"
    using assms(4) by (simp_all add: worked_def)
  from assms(4) obtain s' where s': "heap (world g') (snd e) = Some s'" "like s s'" "settled (dead (world g')) s'"
    by (auto simp: worked_def)
  have l: "kept g0 g" "set (dead (world g)) = gone (world g0) vis" using assms(1) by (simp_all add: looping_def)
  have D: "set (dead (world g)) \<subseteq> set (dead (world g'))" using w(4) by auto
  have "set (dead (world g')) = gone (world g0) (vis @ [snd e])"
  proof (cases "snd e \<in> set vis")
    case True
    with loopingD [OF assms(1,2)] assms(5) have "settled (dead (world g)) s" by auto
    with settled_stays have "\<not> leaving s" by blast
    with True show ?thesis using l(2) w(4) by (simp add: gone_def insert_absorb)
  next
    case False
    with loopingD [OF assms(1,2)] assms(5) have "heap (world g0) (snd e) = Some s" by auto
    moreover have "owns (snakes (world g0)) (world g0)" using assms(3) by (simp add: live_server_def)
    ultimately show ?thesis using gone_step assms(2) l(2) w(4) by simp
  qed
  moreover have "\<exists>s0 t. heap (world g0) (snd f) = Some s0 \<and> heap (world g') (snd f) = Some t \<and> like s0 t \<and>
        (snd f \<notin> set (vis @ [snd e]) \<longrightarrow> t = s0) \<and>
        (if snd f \<in> set (vis @ [snd e]) \<or> snd f \<notin> set (changes (world g0)) then settled (dead (world g')) t else pending (dead (world g')) t)"
    if f: "f \<in> set (snakes (world g0))" for f
  proof -
    from loopingD [OF assms(1) f] obtain s0 t where t: "heap (world g0) (snd f) = Some s0" "heap (world g) (snd f) = Some t" "like s0 t"
      "if snd f \<in> set vis \<or> snd f \<notin> set (changes (world g0)) then settled (dead (world g)) t else pending (dead (world g)) t"
      "snd f \<notin> set vis \<longrightarrow> t = s0" .
    show ?thesis
    proof (cases "snd f = snd e")
      case True
      then have "t = s" using t(2) assms(5) by simp
      with t(3) s'(2) have "like s0 s'" using like_trans by blast
      with True t(1) s' show ?thesis by simp
    next
      case False
      with w(3) t(2) have "heap (world g') (snd f) = Some t" by simp
      moreover have "if snd f \<in> set (vis @ [snd e]) \<or> snd f \<notin> set (changes (world g0))
        then settled (dead (world g')) t else pending (dead (world g')) t"
        using t(4) False settled_mono [OF _ D] pending_mono [OF _ D] by (auto split: if_splits)
      ultimately show ?thesis using t(1,3,5) by simp
    qed
  qed
  moreover have "kept g0 g'" using l(1) w(2) by (rule kept_trans)
  ultimately show ?thesis using w(1) by (simp add: looping_def)
qed

lemma loop_outcome:
  assumes v: "env_ok v" and g: "live_server g0" "dead (world g0) = []"
    and each: "each_snake (\<lambda>a s. pending [] s \<and> (a \<in> set (changes (world g0)) \<or> settled [] s) \<and> (bot s \<or> reached (sn_id s) g0)) (world g0)"
    and E: "\<And>a s. a \<in> set (changes (world g0)) \<Longrightarrow> heap (world g0) a = Some s \<Longrightarrow> E \<or> angles_encode s"
  shows "outcome E (fold_opt (update_snake_to v) (changes (world g0)) g0) (looping g0 (changes (world g0)))"
proof (rule outcome_fold_prefix)
  show "looping g0 [] g0" using g each by (fastforce simp: looping_def gone_def each_snake_def)
  fix ys x zs g assume p: "changes (world g0) = ys @ x # zs" "looping g0 ys g"
  have x: "x \<in> set (changes (world g0))" by (simp add: p(1))
  then have "x \<in> snd ` set (snakes (world g0))" using g(1) unfolding live_server_def owns_def by blast
  then obtain e where e: "e \<in> set (snakes (world g0))" "x = snd e" by blast
  from p(2) e(1) obtain s0 s where s: "heap (world g0) (snd e) = Some s0" "heap (world g) (snd e) = Some s" "like s0 s"
    "if snd e \<in> set ys \<or> snd e \<notin> set (changes (world g0)) then settled (dead (world g)) s else pending (dead (world g)) s"
    by (rule loopingD)
  have k: "kept g0 g" "live_server g" using p(2) by (simp_all add: looping_def)
  have "e \<in> set (snakes (world g))" using k(1) e(1) by (simp add: kept_def)
  moreover have "pending (dead (world g)) s" using s(4) settled_pending by (auto split: if_splits)
  moreover have "bot s0 \<or> reached (sn_id s0) g0" using each e(1) s(1) unfolding each_snake_def by fastforce
  then have "bot s \<or> reached (sn_id s) g" using s(3) reached_kept [OF k(1)] by (simp add: like_def)
  moreover have "E \<or> angles_encode s" using E [OF x] s(1) like_ready [OF s(3)] by (simp add: e(2))
  ultimately have "outcome E (update_snake_to v (snd e) g) (worked e s g)"
    using k(2) s(2) by (intro update_worked [OF v])
  then show "outcome E (update_snake_to v x g) (looping g0 (ys @ [x]))" unfolding e(2)
    by (rule outcome_mono) (rule looping_step [OF p(2) e(1) g(1) _ s(2)])
qed

section \<open>Players and bots\<close>

text \<open>
  Sessions, connections and the snakes of players match one to one: \<open>who\<close> pairs each handle with the
  id of its snake.
\<close>

definition roster :: "GameServer \<Rightarrow> bool" where
  "roster g \<longleftrightarrow> (\<forall>(h, i) \<in> set (who (sessions g)). connections g i = Some h \<and> \<not> bots_only (world g) [i] \<and> i \<in> fst ` set (snakes (world g))) \<and>
     (\<forall>i h. connections g i = Some h \<longrightarrow> (h, i) \<in> set (who (sessions g))) \<and>
     (\<forall>e \<in> set (snakes (world g)). bots_only (world g) [fst e] \<or> connections g (fst e) \<noteq> None)"

lemma rosterD:
  assumes "roster g"
  shows "(h, i) \<in> set (who (sessions g)) \<Longrightarrow> connections g i = Some h \<and> \<not> bots_only (world g) [i] \<and> i \<in> fst ` set (snakes (world g))"
    and "connections g i = Some h \<Longrightarrow> (h, i) \<in> set (who (sessions g))"
    and "e \<in> set (snakes (world g)) \<Longrightarrow> bots_only (world g) [fst e] \<or> connections g (fst e) \<noteq> None"
  using assms unfolding roster_def by (fast, fast, fast)

lemma rosterI:
  assumes "\<And>h i. (h, i) \<in> set (who (sessions g)) \<Longrightarrow> connections g i = Some h \<and> \<not> bots_only (world g) [i] \<and> i \<in> fst ` set (snakes (world g))"
    and "\<And>h i. connections g i = Some h \<Longrightarrow> (h, i) \<in> set (who (sessions g))"
    and "\<And>e. e \<in> set (snakes (world g)) \<Longrightarrow> bots_only (world g) [fst e] \<or> connections g (fst e) \<noteq> None"
  shows "roster g"
  using assms unfolding roster_def by fast

lemma who_keys: "(h, i) \<in> set (who es) \<Longrightarrow> h \<in> fst ` set es"
  using in_who [of h i es] by (auto intro: rev_image_eqI)

lemma bots_only_entry:
  assumes "owns (snakes w) w" "(i, a) \<in> set (snakes w)" "heap w a = Some s"
  shows "bots_only w [i] = bot s"
proof -
  have u: "b = a" if "(i, b) \<in> set (snakes w)" for b
    using owns_unique [OF assms(1) that assms(2)] by simp
  show ?thesis
  proof
    assume "bots_only w [i]"
    then obtain b t where "(i, b) \<in> set (snakes w)" "heap w b = Some t" "bot t" by (auto simp: bots_only_def)
    with u assms(3) show "bot s" by auto
  next
    assume "bot s"
    with assms(2,3) show "bots_only w [i]" unfolding bots_only_def by auto
  qed
qed

lemma roster_reached:
  assumes "roster g" "owns (snakes (world g)) (world g)" "e \<in> set (snakes (world g))" "heap (world g) (snd e) = Some s"
  shows "bot s \<or> reached (sn_id s) g"
proof -
  have e: "(fst e, snd e) \<in> set (snakes (world g))" using assms(3) by simp
  from ownsD [OF assms(2) e] obtain t where "heap (world g) (snd e) = Some t" "sn_id t = fst e" .
  with assms(4) have i: "sn_id s = fst e" by simp
  note b = bots_only_entry [OF assms(2) e assms(4)]
  show ?thesis
  proof (cases "bot s")
    case False
    then have "connections g (fst e) \<noteq> None" using rosterD(3) [OF assms(1,3)] unfolding b by simp
    then obtain h where h: "connections g (fst e) = Some h" by blast
    from who_keys [OF rosterD(2) [OF assms(1) h]] have "h \<in> fst ` set (sessions g)" .
    with h show ?thesis unfolding reached_def i by blast
  qed simp
qed

text \<open>The roster only depends on who is a bot.\<close>

lemma roster_same:
  assumes "roster g" "snakes (world g') = snakes (world g)" "who (sessions g') = who (sessions g)" "connections g' = connections g"
    and "\<And>e. e \<in> set (snakes (world g)) \<Longrightarrow> map_option bot (heap (world g') (snd e)) = map_option bot (heap (world g) (snd e))"
  shows "roster g'"
proof -
  have "bots_only (world g') D = bots_only (world g) D" for D
  proof -
    have "(\<exists>s. heap (world g') a = Some s \<and> bot s) = (\<exists>s. heap (world g) a = Some s \<and> bot s)"
      if "(i, a) \<in> set (snakes (world g))" for i a
      using assms(5) [OF that] by (cases "heap (world g) a"; cases "heap (world g') a") auto
    then show ?thesis unfolding bots_only_def assms(2) by blast
  qed
  with assms(1) show ?thesis unfolding roster_def assms(2-4) by simp
qed

section \<open>The invariant between two events\<close>

definition server_ok :: "GameServer \<Rightarrow> bool" where
  "server_ok g \<longleftrightarrow> world_ok (world g) \<and> keys_ordered (sessions g) \<and> changes (world g) = [] \<and> dead (world g) = [] \<and>
     each_snake (\<lambda>_. settled []) (world g) \<and> ids_below (world g) \<and> config_ok (config (world g)) \<and> roster g \<and> srv_init g = BuildInitPacket"

lemma server_okD:
  assumes "server_ok g"
  shows "live_server g" "world_ok (world g)" "owns (snakes (world g)) (world g)" "keys_ordered (sessions g)" "roster g"
    "each_snake (\<lambda>_. settled []) (world g)" "ids_below (world g)" "config_ok (config (world g))"
    "changes (world g) = []" "dead (world g) = []" "0 \<le> ticks (world g)" "ticks (world g) < 8"
    "srv_init g = BuildInitPacket"
  using assms by (simp_all add: server_ok_def live_server_def world_ok_def)

lemma settled_ready: "settled [] s \<Longrightarrow> ready s"
  using dead_doomed [of "update s"] by (auto simp: settled_def ready_def doomed_def)

lemma server_ready: "server_ok g \<Longrightarrow> each_snake (\<lambda>_. ready) (world g)"
  using settled_ready by (fastforce simp: server_ok_def each_snake_def)

text \<open>What concerns neither snakes nor sessions.\<close>

lemma server_ok_fields [simp]:
  "server_ok (g\<lparr>timer := t\<rparr>) = server_ok g" "server_ok (g\<lparr>clock := n\<rparr>) = server_ok g" "server_ok (g\<lparr>outbox := os\<rparr>) = server_ok g"
  "server_ok (g\<lparr>last_time_point := l\<rparr>) = server_ok g"
  by (simp_all add: server_ok_def roster_def)

lemma server_ok_sent:
  assumes "server_ok g" "sent g g'"
  shows "server_ok g'"
proof -
  have w: "world g' = world g" using assms(2) by (simp add: sent_def)
  have "roster g'" by (rule roster_same [OF server_okD(5) [OF assms(1)]]) (use assms(2) in \<open>simp_all add: sent_def\<close>)
  moreover have "srv_init g' = srv_init g" using assms(2) by (simp add: sent_def)
  ultimately show ?thesis using assms(1) sent_keys [OF assms(2)] by (simp add: server_ok_def w)
qed

section \<open>Leaving\<close>

lemma remove_total:
  assumes "live_server g"
  shows "\<exists>w. RemoveSnake_srv i g = Some (g\<lparr>connections := (connections g)(i := None), world := w\<rparr>) \<and> owns (snakes w) w \<and>
    snakes w = filter (\<lambda>e. fst e \<noteq> i) (snakes (world g)) \<and> (\<forall>e \<in> set (snakes w). heap w (snd e) = heap (world g) (snd e)) \<and>
    (changes (world g) = [] \<longrightarrow> changes w = []) \<and> ticks w = ticks (world g) \<and> dead w = dead (world g) \<and>
    lastSnakeId w = lastSnakeId (world g) \<and> config w = config (world g)"
proof -
  have "owns (snakes (world g)) (world g)" using assms by (simp add: live_server_def)
  from RemoveSnake_total [OF this, of i] obtain w where
    w: "RemoveSnake i (world g) = Some w" "owns (snakes w) w" "snakes w = filter (\<lambda>e. fst e \<noteq> i) (snakes (world g))"
      "\<forall>e \<in> set (snakes w). heap w (snd e) = heap (world g) (snd e)"
      "changes w = filter (\<lambda>a. map_option sn_id (heap (world g) a) \<noteq> Some i) (changes (world g))"
      "ticks w = ticks (world g)" "dead w = dead (world g)" "lastSnakeId w = lastSnakeId (world g)" "config w = config (world g)"
    by blast
  have "RemoveSnake_srv i g = Some (g\<lparr>connections := (connections g)(i := None), world := w\<rparr>)"
    using w(1) by (simp add: RemoveSnake_srv_def)
  with w(2-) show ?thesis by (intro exI [of _ w]) simp
qed

text \<open>The dead snakes of \<open>ids\<close> are gone.\<close>

definition burying :: "GameServer \<Rightarrow> u16 list \<Rightarrow> GameServer \<Rightarrow> bool" where
  "burying g0 ids g \<longleftrightarrow> live_server g \<and> snakes (world g) = filter (\<lambda>e. fst e \<notin> set ids) (snakes (world g0)) \<and>
     (\<forall>e \<in> set (snakes (world g)). heap (world g) (snd e) = heap (world g0) (snd e)) \<and> connections g = connections g0 \<and>
     sessions g = sessions g0 \<and> dead (world g) = dead (world g0) \<and> changes (world g) = [] \<and> ticks (world g) = ticks (world g0) \<and>
     lastSnakeId (world g) = lastSnakeId (world g0) \<and> config (world g) = config (world g0) \<and> timer g = timer g0 \<and>
     last_time_point g = last_time_point g0 \<and> clock g = clock g0 \<and> outbox g = outbox g0 \<and> srv_config g = srv_config g0 \<and> srv_init g = srv_init g0"

lemma bury_step:
  assumes "burying g0 ids g" "connections g0 i = None"
  shows "\<exists>g'. RemoveSnake_srv i g = Some g' \<and> burying g0 (ids @ [i]) g'"
proof -
  have l: "live_server g" "connections g = connections g0" using assms(1) by (simp_all add: burying_def)
  have c: "(connections g)(i := None) = connections g" using l(2) assms(2) by auto
  from remove_total [OF l(1), of i] obtain w where
    w: "RemoveSnake_srv i g = Some (g\<lparr>world := w\<rparr>)" "owns (snakes w) w" "snakes w = filter (\<lambda>e. fst e \<noteq> i) (snakes (world g))"
      "\<forall>e \<in> set (snakes w). heap w (snd e) = heap (world g) (snd e)" "changes (world g) = [] \<longrightarrow> changes w = []"
      "ticks w = ticks (world g)" "dead w = dead (world g)" "lastSnakeId w = lastSnakeId (world g)" "config w = config (world g)"
    unfolding c by (auto simp: c)
  have "burying g0 (ids @ [i]) (g\<lparr>world := w\<rparr>)"
    using assms(1) w(2-) by (auto simp: burying_def live_server_def intro!: filter_cong)
  with w(1) show ?thesis by blast
qed

text \<open>Some snakes have left, the others are as they were.\<close>

lemma bots_only_left:
  assumes "snakes w' = filter (\<lambda>e. fst e \<notin> D) (snakes w)" "\<forall>e \<in> set (snakes w'). heap w' (snd e) = heap w (snd e)" "j \<notin> D"
  shows "bots_only w' [j] = bots_only w [j]"
proof -
  have "heap w' a = heap w a" if "(j, a) \<in> set (snakes w)" for a
  proof -
    have "(j, a) \<in> set (snakes w')" using that assms(1,3) by simp
    with assms(2) show ?thesis by fastforce
  qed
  moreover have "(j, a) \<in> set (snakes w') \<longleftrightarrow> (j, a) \<in> set (snakes w)" for a using assms(1,3) by simp
  ultimately show ?thesis by (auto simp: bots_only_def)
qed

lemma roster_left:
  assumes "roster g" "snakes (world g') = filter (\<lambda>e. fst e \<notin> D) (snakes (world g))"
    and "\<forall>e \<in> set (snakes (world g')). heap (world g') (snd e) = heap (world g) (snd e)"
    and "set (who (sessions g')) = {p \<in> set (who (sessions g)). snd p \<notin> D}"
    and "\<And>i. connections g' i = (if i \<in> D then None else connections g i)"
  shows "roster g'"
proof -
  note left = bots_only_left [OF assms(2,3)]
  have "connections g' i = Some h \<and> \<not> bots_only (world g') [i] \<and> i \<in> fst ` set (snakes (world g'))"
    if "(h, i) \<in> set (who (sessions g'))" for h i
  proof -
    from that have i: "(h, i) \<in> set (who (sessions g))" "i \<notin> D" by (simp_all add: assms(4))
    from rosterD(1) [OF assms(1) i(1)] have r: "connections g i = Some h" "\<not> bots_only (world g) [i]" "i \<in> fst ` set (snakes (world g))"
      by simp_all
    from r(3) i(2) have "i \<in> fst ` set (snakes (world g'))" by (auto simp: assms(2))
    with r i(2) left [OF i(2)] show ?thesis by (simp add: assms(5))
  qed
  moreover have "(h, i) \<in> set (who (sessions g'))" if "connections g' i = Some h" for h i
    using that rosterD(2) [OF assms(1), of i h] by (simp add: assms(4,5) split: if_splits)
  moreover have "bots_only (world g') [fst e] \<or> connections g' (fst e) \<noteq> None" if "e \<in> set (snakes (world g'))" for e
  proof -
    from that have e: "e \<in> set (snakes (world g))" "fst e \<notin> D" by (simp_all add: assms(2))
    from rosterD(3) [OF assms(1) e(1)] left [OF e(2)] e(2) show ?thesis by (simp add: assms(5))
  qed
  ultimately show ?thesis by (rule rosterI)
qed

lemma bury_all:
  assumes "live_server g" "changes (world g) = []" "roster g" "bots_only (world g) D"
  shows "\<exists>g'. fold_opt RemoveSnake_srv D g = Some g' \<and> burying g D g' \<and> roster g'"
proof -
  have none: "connections g i = None" and bot: "bots_only (world g) [i]" if "i \<in> set D" for i
  proof -
    show b: "bots_only (world g) [i]" using assms(4) that by (simp add: bots_only_def)
    show "connections g i = None"
    proof (rule ccontr)
      assume "connections g i \<noteq> None"
      then obtain h where "connections g i = Some h" by blast
      from rosterD(1) [OF assms(3) rosterD(2) [OF assms(3) this]] b show False by simp
    qed
  qed
  have start: "burying g [] g" using assms(1,2) by (simp add: burying_def)
  have step: "\<exists>u'. RemoveSnake_srv x u = Some u' \<and> burying g (ys @ [x]) u'" if "D = ys @ x # zs" "burying g ys u" for ys x zs u
    using that bury_step [OF that(2) none [of x]] by simp
  have "\<exists>g'. fold_opt RemoveSnake_srv D g = Some g' \<and> burying g D g'"
    by (rule fold_opt_prefix [where P = "burying g"]) (erule (1) step, rule start)
  then obtain g' where g': "fold_opt RemoveSnake_srv D g = Some g'" "burying g D g'" by blast
  have b: "snakes (world g') = filter (\<lambda>e. fst e \<notin> set D) (snakes (world g))"
    "\<forall>e \<in> set (snakes (world g')). heap (world g') (snd e) = heap (world g) (snd e)"
    "connections g' = connections g" "sessions g' = sessions g"
    using g'(2) by (simp_all add: burying_def)
  have "roster g'"
  proof (rule roster_left [OF assms(3) b(1,2)])
    show "set (who (sessions g')) = {p \<in> set (who (sessions g)). snd p \<notin> set D}"
      using rosterD(1) [OF assms(3)] bot unfolding b(4) by fastforce
    show "connections g' i = (if i \<in> set D then None else connections g i)" for i using none by (simp add: b(3))
  qed
  with g' show ?thesis by blast
qed

section \<open>The timer\<close>

lemma each_snakeD: "each_snake P w \<Longrightarrow> e \<in> set (snakes w) \<Longrightarrow> \<exists>s. heap w (snd e) = Some s \<and> P (snd e) s"
  by (simp add: each_snake_def)

text \<open>After the tick: what has not changed is settled.\<close>

lemma ticked:
  assumes "settled [] s0" "tick_ready s" "doomed s \<or> on_board s" "traced c s0 s"
  shows "pending [] s" "\<not> c \<Longrightarrow> settled [] s"
proof -
  have b: "buried [] s" using assms(1,4) by (auto simp: settled_def buried_def traced_def)
  with assms(2,3) show "pending [] s" by (simp add: pending_def)
  assume "\<not> c"
  with assms(4) have u: "update s AND 107 = update s0 AND 107" "update s AND change_dead = update s0 AND change_dead"
    by (simp_all add: traced_def)
  from flags_of_107 [OF u(1)] have f: "update s AND 11 = update s0 AND 11" "update s AND 96 = update s0 AND 96" by simp_all
  have "doomed s = doomed s0" using f(2) by (simp add: doomed_def change_dying_def change_dead_def)
  moreover have "flushed s = flushed s0" using f(1) by (simp add: flushed_def move_flags_value)
  ultimately show "settled [] s" using assms(1-3) b u(2) by (auto simp: settled_def)
qed

definition on_time :: "env \<Rightarrow> GameServer \<Rightarrow> bool" where
  "on_time v g \<longleftrightarrow> 0 \<le> e_clock v (clock g) - last_time_point g \<and> e_clock v (clock g) - last_time_point g \<le> 242"

text \<open>The world after the tick of \<open>on_timer\<close>, when every snake is ready.\<close>

lemma timer_tick:
  assumes "env_ok v" "server_ok g" "0 \<le> dt" "dt \<le> 242"
  obtains w where "World_Tick (e_libc v) dt (world g) = Some w" "world_ok w" "snakes w = snakes (world g)" "dead w = []"
    "lastSnakeId w = lastSnakeId (world g)" "config w = config (world g)"
    "each_snake (\<lambda>a s. pending [] s \<and> (a \<in> set (changes w) \<or> settled [] s) \<and> (\<exists>s0. heap (world g) a = Some s0 \<and> bot s = bot s0)) w"
proof -
  note g = server_okD [OF assms(2)]
  have "libm_ok (e_libc v)" using assms(1) by (simp add: env_ok_def)
  from World_Tick_total [OF g(2) server_ready [OF assms(2)] this assms(3,4)] obtain w where
    w: "World_Tick (e_libc v) dt (world g) = Some w" "world_ok w" "snakes w = snakes (world g)" "dead w = dead (world g)"
      "lastSnakeId w = lastSnakeId (world g)" "config w = config (world g)"
    and each: "each_snake (\<lambda>a s. tick_ready s \<and> (doomed s \<or> on_board s) \<and>
      (\<exists>s0. heap (world g) a = Some s0 \<and> traced (a \<in> set (changes w)) s0 s)) w" by blast
  have "each_snake (\<lambda>a s. pending [] s \<and> (a \<in> set (changes w) \<or> settled [] s) \<and> (\<exists>s0. heap (world g) a = Some s0 \<and> bot s = bot s0)) w"
    unfolding each_snake_def
  proof
    fix e assume e: "e \<in> set (snakes w)"
    from each_snakeD [OF each e] obtain s s0 where s: "heap w (snd e) = Some s" "tick_ready s" "doomed s \<or> on_board s"
      "heap (world g) (snd e) = Some s0" "traced (snd e \<in> set (changes w)) s0 s" by blast
    from each_snakeD [OF g(6)] e s(4) w(3) have "settled [] s0" by fastforce
    from ticked [OF this s(2,3,5)] s(1,4,5) show "\<exists>s. heap w (snd e) = Some s \<and> pending [] s \<and>
      (snd e \<in> set (changes w) \<or> settled [] s) \<and> (\<exists>s0. heap (world g) (snd e) = Some s0 \<and> bot s = bot s0)"
      by (auto simp: traced_def)
  qed
  with w g(10) show ?thesis by (intro that) simp_all
qed

text \<open>The loop and the removal of the dead: exactly the bots that have died are removed.\<close>

definition staying :: "World \<Rightarrow> (u16 \<times> addr) list" where
  "staying w = filter (\<lambda>e. \<not> (\<exists>s. heap w (snd e) = Some s \<and> leaving s)) (snakes w)"

lemma staying_gone:
  assumes "owns (snakes w) w" "each_snake (\<lambda>a s. a \<in> set (changes w) \<or> settled [] s) w"
  shows "staying w = filter (\<lambda>e. fst e \<notin> gone w (changes w)) (snakes w)"
  unfolding staying_def
proof (rule filter_cong [OF refl])
  fix e assume e: "e \<in> set (snakes w)"
  then have e2: "(fst e, snd e) \<in> set (snakes w)" by simp
  from each_snakeD [OF assms(2) e] obtain s where s: "heap w (snd e) = Some s" "snd e \<in> set (changes w) \<or> settled [] s" by blast
  have "fst e \<in> gone w (changes w) \<longleftrightarrow> leaving s"
  proof
    assume "fst e \<in> gone w (changes w)"
    then obtain a t where t: "(fst e, a) \<in> set (snakes w)" "heap w a = Some t" "leaving t" unfolding gone_def by blast
    have "a = snd e" using owns_unique [OF assms(1) t(1) e2] by (cases e) simp
    with t(2,3) s(1) show "leaving s" by simp
  next
    assume "leaving s"
    with s(2) settled_stays have "snd e \<in> set (changes w)" by blast
    with e2 s(1) \<open>leaving s\<close> show "fst e \<in> gone w (changes w)" unfolding gone_def by blast
  qed
  with s(1) show "(\<not> (\<exists>s. heap w (snd e) = Some s \<and> leaving s)) = (fst e \<notin> gone w (changes w))" by simp
qed

lemma updates_outcome:
  assumes v: "env_ok v" and g: "live_server g" "dead (world g) = []" "0 \<le> ticks (world g)" "ticks (world g) < 8" "roster g"
      "ids_below (world g)" "config_ok (config (world g))" "srv_init g = BuildInitPacket"
    and each: "each_snake (\<lambda>a s. pending [] s \<and> (a \<in> set (changes (world g)) \<or> settled [] s)) (world g)"
    and E: "\<And>a s. a \<in> set (changes (world g)) \<Longrightarrow> heap (world g) a = Some s \<Longrightarrow> E \<or> angles_encode s"
  shows "outcome E (Option.bind (BroadcastUpdates v g) RemoveDeadSnakes)
    (\<lambda>g'. server_ok g' \<and> snakes (world g') = staying (world g) \<and> who (sessions g') = who (sessions g) \<and> clock g \<le> clock g')"
proof -
  have o: "owns (snakes (world g)) (world g)" using g(1) by (simp add: live_server_def)
  have "each_snake (\<lambda>a s. pending [] s \<and> (a \<in> set (changes (world g)) \<or> settled [] s) \<and> (bot s \<or> reached (sn_id s) g)) (world g)"
    unfolding each_snake_def
  proof
    fix e assume e: "e \<in> set (snakes (world g))"
    from each_snakeD [OF each e] obtain s where s: "heap (world g) (snd e) = Some s" "pending [] s"
      "snd e \<in> set (changes (world g)) \<or> settled [] s" by blast
    with roster_reached [OF g(5) o e s(1)] show "\<exists>s. heap (world g) (snd e) = Some s \<and> pending [] s \<and>
      (snd e \<in> set (changes (world g)) \<or> settled [] s) \<and> (bot s \<or> reached (sn_id s) g)" by blast
  qed
  note ready = this
  have "each_snake (\<lambda>a s. a \<in> set (changes (world g)) \<or> settled [] s) (world g)"
    using each unfolding each_snake_def by blast
  note st = staying_gone [OF o this]
  from loop_outcome [OF v g(1,2) ready E]
  have loop: "outcome E (fold_opt (update_snake_to v) (changes (world g)) g) (looping g (changes (world g)))" .
  have rest: "outcome E (RemoveDeadSnakes (u\<lparr>world := FlushChanges (world u)\<rparr>))
    (\<lambda>g'. server_ok g' \<and> snakes (world g') = staying (world g) \<and> who (sessions g') = who (sessions g) \<and> clock g \<le> clock g')"
    if u: "looping g (changes (world g)) u" for u
  proof -
    let ?u = "u\<lparr>world := FlushChanges (world u)\<rparr>"
    have k: "live_server u" "kept g u" "bots_only (world g) (dead (world u))" "set (dead (world u)) = gone (world g) (changes (world g))"
      using u looping_bots [OF u] by (simp_all add: looping_def)
    have ss: "snakes (world u) = snakes (world g)" using k(2) by (simp add: kept_def)
    have l: "live_server ?u" using k(1) owns_changes [of _ "world u" "[]"] by (simp add: live_server_def FlushChanges_def)
    have same: "map_option bot (heap (world u) (snd e)) = map_option bot (heap (world g) (snd e))"
      if "e \<in> set (snakes (world g))" for e
      by (rule loopingD [OF u that]) (simp add: like_def)
    have r: "roster ?u" by (rule roster_same [OF g(5)]) (use k(2) same in \<open>simp_all add: FlushChanges_def kept_def\<close>)
    have bo: "bots_only (world ?u) (dead (world ?u))"
      unfolding bots_only_def
    proof
      fix i assume "i \<in> set (dead (world ?u))"
      with k(3) obtain a s where s: "(i, a) \<in> set (snakes (world g))" "heap (world g) a = Some s" "bot s"
        by (auto simp: bots_only_def FlushChanges_def)
      with same [OF s(1)] show "\<exists>a s. (i, a) \<in> set (snakes (world ?u)) \<and> heap (world ?u) a = Some s \<and> bot s"
        by (auto simp: FlushChanges_def ss map_option_eq_Some)
    qed
    from bury_all [OF l _ r bo] obtain h where h: "fold_opt RemoveSnake_srv (dead (world ?u)) ?u = Some h"
      "burying ?u (dead (world ?u)) h" "roster h" by (auto simp: FlushChanges_def)
    let ?h = "h\<lparr>world := (world h)\<lparr>dead := []\<rparr>\<rparr>"
    have hs: "live_server h" "snakes (world h) = filter (\<lambda>e. fst e \<notin> set (dead (world u))) (snakes (world g))"
      "\<forall>e \<in> set (snakes (world h)). heap (world h) (snd e) = heap (world u) (snd e)" "sessions h = sessions u" "changes (world h) = []"
      "ticks (world h) = ticks (world g)" "lastSnakeId (world h) = lastSnakeId (world g)" "config (world h) = config (world g)" "srv_init h = srv_init g"
      using h(2) k(2) by (simp_all add: burying_def FlushChanges_def kept_def)
    have lh: "live_server ?h" using hs(1) by (simp add: live_server_def)
    have "each_snake (\<lambda>_. settled []) (world ?h)" unfolding each_snake_def
    proof
      fix e assume "e \<in> set (snakes (world ?h))"
      then have e: "e \<in> set (snakes (world h))" "e \<in> set (snakes (world g))" "fst e \<notin> set (dead (world u))" by (simp_all add: hs(2))
      from u e(2) obtain s0 s where s: "heap (world g) (snd e) = Some s0" "heap (world u) (snd e) = Some s" "like s0 s"
        "if snd e \<in> set (changes (world g)) \<or> snd e \<notin> set (changes (world g)) then settled (dead (world u)) s else pending (dead (world u)) s"
        by (rule loopingD)
      have "(fst e, snd e) \<in> set (snakes (world g))" using e(2) by simp
      from ownsD [OF o this] s(1) have "sn_id s0 = fst e" by auto
      with s(3) e(3) have "sn_id s \<notin> set (dead (world u))" by (simp add: like_def)
      with s(4) have "settled [] s" by (auto simp: settled_def buried_def)
      with s(2) hs(3) e(1) show "\<exists>s. heap (world ?h) (snd e) = Some s \<and> settled [] s" by simp
    qed
    moreover have "ids_below (world ?h)" using g(6) by (simp add: ids_below_def hs(2,7))
    moreover have "roster ?h" by (rule roster_same [OF h(3)]) simp_all
    ultimately have "server_ok ?h" using lh g(3,4,7,8) by (simp add: server_ok_def live_server_def world_ok_def hs)
    moreover have "who (sessions ?h) = who (sessions g)" using k(2) by (simp add: hs(4) kept_def)
    moreover have "clock g \<le> clock ?h" using h(2) k(2) by (simp add: burying_def kept_def)
    moreover have "RemoveDeadSnakes ?u = Some ?h" using h(1) by (simp add: RemoveDeadSnakes_def)
    moreover have "snakes (world ?h) = staying (world g)" using st by (simp add: hs(2) k(4))
    ultimately show ?thesis by simp
  qed
  have "outcome E (Option.bind (fold_opt (update_snake_to v) (changes (world g)) g)
    (\<lambda>u. RemoveDeadSnakes (u\<lparr>world := FlushChanges (world u)\<rparr>)))
    (\<lambda>g'. server_ok g' \<and> snakes (world g') = staying (world g) \<and> who (sessions g') = who (sessions g) \<and> clock g \<le> clock g')"
    by (rule outcome_bind [OF loop rest])
  then show ?thesis by (simp add: BroadcastUpdates_def)
qed

lemma on_timer_outcome:
  assumes v: "env_ok v" and g: "server_ok g" "on_time v g"
    and w: "World_Tick (e_libc v) (e_clock v (clock g) - last_time_point g) (world g) = Some w"
    and E: "\<And>a s. a \<in> set (changes w) \<Longrightarrow> heap w a = Some s \<Longrightarrow> E \<or> angles_encode s \<and> (debug (srv_config g) \<longrightarrow> drawable (sbb s))"
  shows "outcome E (on_timer v False g) (\<lambda>g'. server_ok g' \<and> snakes (world g') = staying w \<and>
    who (sessions g') = who (sessions g) \<and> last_time_point g' = e_clock v (clock g) \<and>
    (\<exists>n \<ge> clock g. timer g' = Some (max 0 (timer_interval_ms - (e_clock v n - e_clock v (clock g))))))"
    (is "outcome E _ ?Q")
proof -
  let ?dt = "e_clock v (clock g) - last_time_point g"
  have dt: "0 \<le> ?dt" "?dt \<le> 242" using g(2) by (simp_all add: on_time_def)
  have w: "World_Tick (e_libc v) ?dt (world g) = Some w" "world_ok w"
    "snakes w = snakes (world g)" "dead w = []" "lastSnakeId w = lastSnakeId (world g)" "config w = config (world g)"
    "each_snake (\<lambda>a s. pending [] s \<and> (a \<in> set (changes w) \<or> settled [] s) \<and> (\<exists>s0. heap (world g) a = Some s0 \<and> bot s = bot s0)) w"
    by (rule timer_tick [OF v g(1) dt], use w in simp)+
  have o: "owns (snakes w) w" using w(2) by (simp add: world_ok_def)
  let ?g = "g\<lparr>timer := None, clock := clock g + 1, world := w\<rparr>"
  have r: "roster ?g"
  proof (rule roster_same [OF server_okD(5) [OF g(1)]])
    fix e assume "e \<in> set (snakes (world g))"
    with each_snakeD [OF w(7), of e] show "map_option bot (heap (world ?g) (snd e)) = map_option bot (heap (world g) (snd e))"
      by (auto simp: w(3))
  qed (simp_all add: w(3))
  have up: "outcome E (Option.bind (BroadcastUpdates v u) RemoveDeadSnakes)
    (\<lambda>g'. server_ok g' \<and> snakes (world g') = staying (world u) \<and> who (sessions g') = who (sessions u) \<and> clock u \<le> clock g')"
    if u: "sent ?g u" for u
  proof (rule updates_outcome [OF v])
    have wu: "world u = w" using u by (simp add: sent_def)
    show "live_server u" using w(2) sent_keys [OF u] server_okD(4) [OF g(1)] by (simp add: live_server_def wu world_ok_def)
    show "dead (world u) = []" "0 \<le> ticks (world u)" "ticks (world u) < 8" using w(2,4) by (simp_all add: wu world_ok_def)
    show "roster u" by (rule roster_same [OF r]) (use u in \<open>simp_all add: sent_def\<close>)
    show "ids_below (world u)" "config_ok (config (world u))"
      using server_okD(7,8) [OF g(1)] by (simp_all add: wu w(3,5,6) ids_below_def)
    show "each_snake (\<lambda>a s. pending [] s \<and> (a \<in> set (changes (world u)) \<or> settled [] s)) (world u)"
      using w(7) unfolding each_snake_def wu by blast
    show "srv_init u = BuildInitPacket" using u server_okD(13) [OF g(1)] by (simp add: sent_def)
    show "E \<or> angles_encode s" if "a \<in> set (changes (world u))" "heap (world u) a = Some s" for a s
      using E that unfolding wu by blast
  qed
  have fin: "outcome E (Option.bind (Option.bind (BroadcastUpdates v u) RemoveDeadSnakes)
     (\<lambda>g. let (_, g) = GetCurrentTime v g in Some (NextTick v (e_clock v (clock ?g - 1)) g))) ?Q"
    if u: "sent ?g u" for u
  proof (rule outcome_bind [OF up [OF u]])
    fix h assume h: "server_ok h \<and> snakes (world h) = staying (world u) \<and> who (sessions h) = who (sessions u) \<and> clock u \<le> clock h"
    have "world u = w" "who (sessions u) = who (sessions g)" "clock g < clock u" using u by (simp_all add: sent_def)
    moreover from this h have "clock g \<le> Suc (clock h)" by simp
    ultimately show "outcome E (let (_, g) = GetCurrentTime v h in Some (NextTick v (e_clock v (clock ?g - 1)) g)) ?Q"
      using h by (simp add: GetCurrentTime_def NextTick_def w(3)) (rule exI [of _ "Suc (clock h)"], simp)
  qed
  have "outcome E (Option.bind (BroadcastDebug v ?g) (\<lambda>u. Option.bind (Option.bind (BroadcastUpdates v u) RemoveDeadSnakes)
     (\<lambda>g. let (_, g) = GetCurrentTime v g in Some (NextTick v (e_clock v (clock ?g - 1)) g)))) ?Q"
  proof (rule outcome_bind [OF debug_outcome [OF v] fin])
    fix a assume "a \<in> set (changes (world ?g))"
    then have a: "a \<in> set (changes w)" by simp
    then have "a \<in> snd ` set (snakes w)" using o unfolding owns_def by blast
    then obtain i where i: "(i, a) \<in> set (snakes w)" by (auto simp: image_iff)
    from ownsD [OF o i] obtain s where s: "heap w a = Some s" "snake_ok (s, sectors w)" .
    from each_snakeD [OF w(7) i] s(1) have "tick_ready s" by (simp add: pending_def)
    with s E [OF a s(1)] show "\<exists>s. heap (world ?g) a = Some s \<and> snake_ok (s, sectors (world ?g)) \<and> tick_ready s \<and>
      (E \<or> (debug (srv_config ?g) \<longrightarrow> drawable (sbb s)))" by simp blast
  qed
  then show ?thesis by (simp add: on_timer_def GetCurrentTime_def w(1))
qed

end
