(* ===== verification/Introduce.thy ===== *)
theory Introduce
  imports ServerUpdates
begin

text \<open>
  When a snake can be introduced to a client: \<open>packet_add_snake\<close> is defined for every snake in shape whose
  angle is not negative and whose parts behind the head lie at most 63 pixels apart, and undefined as soon
  as two of them lie 65 pixels apart.
\<close>

section \<open>Conversions\<close>

lemma cast_open:
  assumes "isfin x" "- 1 < fval x" "fval x < of_int (hi + 1)" "0 \<le> hi"
  shows "cast_range 0 hi x \<noteq> None"
proof -
  define n where "n = (if fval x < 0 then \<lceil>fval x\<rceil> else \<lfloor>fval x\<rfloor>)"
  have "0 \<le> n" using assms(2) by (auto simp: n_def le_ceiling_iff)
  moreover have "n < hi + 1"
  proof (cases "fval x < 0")
    case True
    then have "\<lceil>fval x\<rceil> \<le> 0" by (simp add: ceiling_le_iff)
    moreover have "n = \<lceil>fval x\<rceil>" using True by (simp add: n_def)
    ultimately show ?thesis using assms(4) by linarith
  next
    case False
    have "\<lfloor>fval x\<rfloor> < hi + 1" unfolding floor_less_iff by (rule assms(3))
    with False show ?thesis by (simp add: n_def)
  qed
  ultimately show ?thesis using trunc_value [OF assms(1)] by (simp add: cast_range_def n_def [symmetric])
qed

lemma five_times: "between 0 43200 x \<Longrightarrow> to_u32 (x * fl 5) \<noteq> None"
proof -
  assume x: "between 0 43200 x"
  have f: "isfin (fl 5)" "fval (fl 5) = 5" using fl_value [of 5] by simp_all
  have r: "of_int 0 \<le> fval x * fval (fl 5)" "fval x * fval (fl 5) \<le> of_int 216000" using x by (simp_all add: f between_def)
  have "isfin x" using x by (simp add: between_def)
  from mult_value [OF this f(1) small_le_top [OF r]] have "between 0 216000 (x * fl 5)"
    using rnd_between [OF _ r] unfolding between_def by simp
  from cast_range_between [OF this, of 0 4294967295] show ?thesis by (auto simp: to_u32_def)
qed

lemma write_ang24_defined:
  assumes "between 0 7 v"
  shows "write_ang24 v \<noteq> None"
proof -
  let ?w = "fl 0xFFFFFF * v"
  have f: "isfin (fl 0xFFFFFF)" "fval (fl 0xFFFFFF) = 16777215" using fl_value [of 16777215] by simp_all
  have v: "isfin v" "0 \<le> fval v" "fval v \<le> 7" using assms by (simp_all add: between_def)
  have r: "0 \<le> fval (fl 0xFFFFFF) * fval v" "fval (fl 0xFFFFFF) * fval v \<le> of_int 1 * 2 powi 27"
    unfolding f(2) using v by (simp_all add: power_int_def)
  then have "\<bar>fval (fl 0xFFFFFF) * fval v\<bar> \<le> top_pow single" using top_single by (simp add: power_int_def)
  note m = mult_value [OF f(1) v(1) this]
  have "grid single (of_int 1 * 2 powi 27)" by (rule grid_single_dyadic) simp_all
  from rnd_of_ge [OF m(2) grid_0 r(1)] rnd_of_le [OF m(2) this r(2)]
  have w: "0 \<le> fval ?w" "fval ?w \<le> 134217728" by (simp_all add: power_int_def)
  have M: "isfin M_2PI" "fval M_2PI = 7074237752028440 / 1125899906842624"
    unfolding M_2PI_value by (simp_all add: power_int_def power_divide)
  have q: "0 \<le> fval ?w / fval M_2PI" "fval ?w / fval M_2PI \<le> 33554432" using w unfolding M(2) by simp_all
  have "(2::real) powi 30 \<le> 2 powi 1023" by (rule power_int_increasing) simp_all
  then have "33554432 \<le> top_pow double" by (simp add: top_pow_def double_def power_int_def)
  then have "\<bar>fval ?w / fval M_2PI\<bar> \<le> top_pow double" using q by linarith
  moreover have "fval M_2PI \<noteq> 0" by (simp add: M(2))
  ultimately have "isfin (fl_div double ?w M_2PI) \<and> rnd_of double (fval ?w / fval M_2PI) (fval (fl_div double ?w M_2PI))"
    by (intro fl_div_value [OF fmt_ok_double m(1) M(1)])
  then have d: "isfin (fl_div double ?w M_2PI)" "rnd_of double (fval ?w / fval M_2PI) (fval (fl_div double ?w M_2PI))" by blast+
  have "grid double 33554432" using grid_double_dyadic [of 33554432 0] by simp
  from rnd_of_le [OF d(2) this q(2)] rnd_of_ge [OF d(2) grid_0 q(1)]
  have "cast_range 0 4294967295 (fl_div double ?w M_2PI) \<noteq> None" by (intro cast_open [OF d(1)]) simp_all
  then show ?thesis by (simp add: write_ang24_def to_u32_def)
qed

section \<open>Offsets\<close>

lemma rnd_close_coord:
  assumes "rnd_of single r v" "\<bar>r\<bar> \<le> 65000"
  shows "\<bar>v - r\<bar> \<le> 1 / 256"
proof -
  let ?u = "of_int \<lceil>r * 256\<rceil> / 256 :: real" and ?l = "of_int \<lfloor>r * 256\<rfloor> / 256 :: real"
  have "\<lceil>r * 256\<rceil> \<le> 16777216" "- 16777216 \<le> \<lceil>r * 256\<rceil>" "\<lfloor>r * 256\<rfloor> \<le> 16777216" "- 16777216 \<le> \<lfloor>r * 256\<rfloor>"
    using assms(2) by (auto simp: abs_le_iff ceiling_le_iff le_ceiling_iff le_floor_iff floor_le_iff)
  then have b: "\<bar>\<lceil>r * 256\<rceil>\<bar> \<le> 16777216" "\<bar>\<lfloor>r * 256\<rfloor>\<bar> \<le> 16777216" by linarith+
  have g: "grid single (of_int k / 256)" if "\<bar>k\<bar> \<le> 16777216" for k
    using grid_single_dyadic [OF that, of "- 8"] by (simp add: power_int_def power_divide)
  have "r \<le> ?u" "?l \<le> r" by (simp_all add: le_divide_eq divide_le_eq)
  then have "v \<le> ?u" "?l \<le> v"
    using rnd_of_le [OF assms(1) g [OF b(1)]] rnd_of_ge [OF assms(1) g [OF b(2)]] by blast+
  moreover have "?u \<le> r + 1 / 256" "r - 1 / 256 \<le> ?l"
    using ceiling_correct [of "r * 256"] floor_correct [of "r * 256"] by (simp_all add: field_simps)
  ultimately show ?thesis by linarith
qed

text \<open>
  One coordinate: the position \<open>h\<close> the offsets have reached is that of the part \<open>q\<close> up to a rounding error,
  the offset to the next part \<open>p\<close> fits its byte, and the position then is that of \<open>p\<close>.
\<close>

lemma offset_step:
  assumes "between 0 43200 p" "isfin h" "\<bar>fval h - c\<bar> \<le> 1 / 16" "\<bar>fval p - c\<bar> \<le> 63 + 1 / 16"
  shows "to_u8 ((p - h) * fl 2 + lit 1270 10) \<noteq> None" "isfin (h + (p - h))" "\<bar>fval (h + (p - h)) - fval p\<bar> \<le> 1 / 16"
proof -
  have p: "isfin p" "0 \<le> fval p" "fval p \<le> 43200" using assms(1) by (simp_all add: between_def)
  have near: "\<bar>fval p - fval h\<bar> \<le> 63 + 1 / 8" using assms(3,4) by (simp only: abs_le_iff) linarith
  have "\<bar>fval p - fval h\<bar> \<le> top_pow single" using near top_single by linarith
  note d = diff_value [OF p(1) assms(2) this]
  have n255: "\<bar>fval p - fval h\<bar> \<le> 255" using near by linarith
  note dc = rnd_close [OF d(2) n255]
  have d63: "\<bar>fval (p - h)\<bar> \<le> 63 + 1 / 4" using dc near by (simp only: abs_le_iff) linarith
  have c: "lit 1270 10 = fl 127" by code_simp
  have f: "isfin (fl 2)" "fval (fl 2) = 2" "isfin (fl 127)" "fval (fl 127) = 127"
    using fl_value [of 2] fl_value [of 127] by simp_all
  have m1: "\<bar>fval (p - h) * fval (fl 2)\<bar> \<le> 255" unfolding f(2) using d63 by (simp only: abs_le_iff) linarith
  note m = mult_value [OF d(1) f(1) small255_le_top [OF m1]]
  note mc = rnd_close [OF m(2) m1]
  have m2: "\<bar>fval ((p - h) * fl 2)\<bar> \<le> 126 + 3 / 4" using mc d63 unfolding f(2) by (simp only: abs_le_iff) linarith
  have s1: "\<bar>fval ((p - h) * fl 2) + fval (fl 127)\<bar> \<le> 255" unfolding f(4) using m2 by (simp only: abs_le_iff) linarith
  note s = add_value [OF m(1) f(3) small255_le_top [OF s1]]
  note sc = rnd_close [OF s(2) s1]
  have "- 1 < fval ((p - h) * fl 2 + fl 127)" "fval ((p - h) * fl 2 + fl 127) < 256"
    using sc m2 unfolding f(4) by (simp_all only: abs_le_iff) linarith+
  with to_u8_defined [OF s(1)] show "to_u8 ((p - h) * fl 2 + lit 1270 10) \<noteq> None" unfolding c by blast
  have e: "\<bar>fval h + fval (p - h) - fval p\<bar> \<le> 1 / 65536" using dc by (simp only: abs_le_iff) linarith
  then have b: "\<bar>fval h + fval (p - h)\<bar> \<le> 65000" using p by (simp only: abs_le_iff) linarith
  then have "\<bar>fval h + fval (p - h)\<bar> \<le> top_pow single" using top_single by linarith
  note a = add_value [OF assms(2) d(1) this]
  show "isfin (h + (p - h))" by (rule a(1))
  show "\<bar>fval (h + (p - h)) - fval p\<bar> \<le> 1 / 16" using rnd_close_coord [OF a(2) b] e by (simp only: abs_le_iff) linarith
qed

text \<open>
  Without the nearness the position still follows the exact parts, but a distance of 65 pixels or more,
  in either direction, has no byte.
\<close>

lemma offset_diff:
  assumes "between 0 43200 p" "isfin h" "\<bar>fval h - c\<bar> \<le> 1 / 16" "0 \<le> c" "c \<le> 43200"
  shows "isfin (p - h)" "\<bar>fval (p - h) - (fval p - fval h)\<bar> \<le> 1 / 256" "\<bar>fval (p - h)\<bar> \<le> 50000"
    "isfin p" "0 \<le> fval p" "fval p \<le> 43200"
proof -
  show p: "isfin p" "0 \<le> fval p" "fval p \<le> 43200" using assms(1) by (simp_all add: between_def)
  have b: "\<bar>fval p - fval h\<bar> \<le> 43201" using p assms(3-5) by (simp only: abs_le_iff) linarith
  then have "\<bar>fval p - fval h\<bar> \<le> top_pow single" using top_single by linarith
  note d = diff_value [OF p(1) assms(2) this]
  have "\<bar>fval p - fval h\<bar> \<le> 65000" using b by linarith
  note dc = rnd_close_coord [OF d(2) this]
  show "isfin (p - h)" by (rule d(1))
  show "\<bar>fval (p - h) - (fval p - fval h)\<bar> \<le> 1 / 256" using dc .
  show "\<bar>fval (p - h)\<bar> \<le> 50000" using dc b by (simp only: abs_le_iff) linarith
qed

lemma offset_follows:
  assumes "between 0 43200 p" "isfin h" "\<bar>fval h - c\<bar> \<le> 1 / 16" "0 \<le> c" "c \<le> 43200"
  shows "isfin (h + (p - h))" "\<bar>fval (h + (p - h)) - fval p\<bar> \<le> 1 / 16"
proof -
  note d = offset_diff [OF assms]
  have e: "\<bar>fval h + fval (p - h) - fval p\<bar> \<le> 1 / 256" using d(2) by (simp only: abs_le_iff) linarith
  then have b: "\<bar>fval h + fval (p - h)\<bar> \<le> 65000" using d(5,6) by (simp only: abs_le_iff) linarith
  then have "\<bar>fval h + fval (p - h)\<bar> \<le> top_pow single" using top_single by linarith
  note a = add_value [OF assms(2) d(1) this]
  show "isfin (h + (p - h))" by (rule a(1))
  show "\<bar>fval (h + (p - h)) - fval p\<bar> \<le> 1 / 16" using rnd_close_coord [OF a(2) b] e by (simp only: abs_le_iff) linarith
qed

lemma to_u8_outside:
  assumes "isfin v" "256 \<le> fval v \<or> fval v \<le> - 1"
  shows "to_u8 v = None"
  using assms(2) trunc_value [OF assms(1)]
  by (auto simp: to_u8_def cast_range_def le_floor_iff ceiling_le_iff)

lemma offset_gap:
  assumes "between 0 43200 p" "isfin h" "\<bar>fval h - c\<bar> \<le> 1 / 16" "0 \<le> c" "c \<le> 43200" "65 \<le> \<bar>fval p - c\<bar>"
  shows "to_u8 ((p - h) * fl 2 + lit 1270 10) = None"
proof -
  note d = offset_diff [OF assms(1-5)]
  have c: "lit 1270 10 = fl 127" by code_simp
  have f: "isfin (fl 2)" "fval (fl 2) = 2" "isfin (fl 127)" "fval (fl 127) = 127"
    using fl_value [of 2] fl_value [of 127] by simp_all
  have b: "- 50000 \<le> fval (p - h)" "fval (p - h) \<le> 50000" using d(3) by (simp_all only: abs_le_iff) linarith
  then have m1: "of_int (- 100000) \<le> fval (p - h) * fval (fl 2)" "fval (p - h) * fval (fl 2) \<le> of_int 100000"
    unfolding f(2) by simp_all
  have "\<bar>fval (p - h) * fval (fl 2)\<bar> \<le> top_pow single" using m1 top_single by (simp add: abs_le_iff)
  note m = mult_value [OF d(1) f(1) this]
  note mb = rnd_between [OF m(2) m1]
  have "\<bar>fval ((p - h) * fl 2) + fval (fl 127)\<bar> \<le> top_pow single" using mb f(4) top_single by (simp add: abs_le_iff)
  note s = add_value [OF m(1) f(3) this]
  have "65 \<le> fval p - c \<or> fval p - c \<le> - 65" using assms(6) by linarith
  then have "129 / 2 \<le> fval (p - h) \<or> fval (p - h) \<le> - 129 / 2" using d(2) assms(3) unfolding abs_le_iff by linarith
  then have "256 \<le> fval ((p - h) * fl 2 + fl 127) \<or> fval ((p - h) * fl 2 + fl 127) \<le> - 1"
  proof
    assume "129 / 2 \<le> fval (p - h)"
    then have "of_int 129 \<le> fval (p - h) * fval (fl 2)" unfolding f(2) by simp
    then have "129 \<le> fval ((p - h) * fl 2)" using rnd_of_ge [OF m(2) grid_single_int [of 129]] by simp
    then have "of_int 256 \<le> fval ((p - h) * fl 2) + fval (fl 127)" unfolding f(4) by simp
    then show ?thesis using rnd_of_ge [OF s(2) grid_single_int [of 256]] by simp
  next
    assume "fval (p - h) \<le> - 129 / 2"
    then have "fval (p - h) * fval (fl 2) \<le> of_int (- 129)" unfolding f(2) by simp
    then have "fval ((p - h) * fl 2) \<le> - 129" using rnd_of_le [OF m(2) grid_single_int [of "- 129"]] by simp
    then have "fval ((p - h) * fl 2) + fval (fl 127) \<le> of_int (- 1)" unfolding f(4) by simp
    then show ?thesis using rnd_of_le [OF s(2) grid_single_int [of "- 1"]] by simp
  qed
  then show ?thesis unfolding c by (rule to_u8_outside [OF s(1)])
qed

section \<open>Bodies\<close>

text \<open>Two consecutive parts lie more than 63 pixels apart in one direction, as far as floats can tell.\<close>

fun spread :: "BodySeq \<Rightarrow> bool" where
  "spread (p # q # ps) = (fl 63 < fabsf (body_x p - body_x q) \<or> fl 63 < fabsf (body_y p - body_y q) \<or> spread (q # ps))"
| "spread ps = False"

lemma spread_pair:
  "\<not> spread (ps @ p # q # qs) \<Longrightarrow> \<not> fl 63 < fabsf (body_x p - body_x q) \<and> \<not> fl 63 < fabsf (body_y p - body_y q)"
  by (induction ps rule: spread.induct) auto

lemma spread_front: "spread (ps @ [p]) \<Longrightarrow> spread (ps @ [p, q])"
  by (induction ps rule: spread.induct) auto

lemma near_value:
  assumes "between 0 43200 p" "between 0 43200 q" "\<not> fl 63 < fabsf (p - q)"
  shows "\<bar>fval p - fval q\<bar> \<le> 63 + 1 / 16"
proof -
  have f: "isfin p" "isfin q" "isfin (fl 63)" "fval (fl 63) = 63"
    using assms(1,2) fl_value [of 63] by (simp_all add: between_def)
  have b: "\<bar>fval p - fval q\<bar> \<le> 65000" using assms(1,2) by (simp add: between_def abs_le_iff)
  then have "\<bar>fval p - fval q\<bar> \<le> top_pow single" using top_single by linarith
  note d = diff_value [OF f(1,2) this]
  have "\<bar>fval (p - q)\<bar> \<le> 63" using assms(3) d(1) f by (simp add: less_value)
  with rnd_close_coord [OF d(2) b] show ?thesis by (simp only: abs_le_iff) linarith
qed

text \<open>\<open>qs\<close> are the parts still to come, from the tail to the head; \<open>q\<close> is the one before.\<close>

lemma offsets_defined:
  assumes "body_ok (q # qs)" "\<not> spread (rev (q # qs))"
    and "isfin hx" "\<bar>fval hx - fval (body_x q)\<bar> \<le> 1 / 16" "isfin hy" "\<bar>fval hy - fval (body_y q)\<bar> \<le> 1 / 16"
  shows "out_offsets hx hy qs \<noteq> None"
  using assms
proof (induction qs arbitrary: q hx hy)
  case Nil
  then show ?case by simp
next
  case (Cons p qs)
  have ok: "between 0 43200 (body_x p)" "between 0 43200 (body_y p)" "between 0 43200 (body_x q)" "between 0 43200 (body_y q)"
    using Cons.prems(1) by (simp_all add: body_ok_def coord_ok_def)
  have "\<not> spread (rev qs @ p # q # [])" using Cons.prems(2) by simp
  note far = spread_pair [OF this]
  note x = offset_step [OF ok(1) Cons.prems(3,4) near_value [OF ok(1,3)]]
  note y = offset_step [OF ok(2) Cons.prems(5,6) near_value [OF ok(2,4)]]
  have "\<not> spread (rev (p # qs))" using Cons.prems(2) spread_front [of "rev qs" p q] by auto
  moreover have "body_ok (p # qs)" using Cons.prems(1) by (simp add: body_ok_def)
  ultimately have "out_offsets (hx + (body_x p - hx)) (hy + (body_y p - hy)) qs \<noteq> None"
    using x(2,3) y(2,3) far by (intro Cons.IH [of p]) simp_all
  then show ?case unfolding out_offsets.simps Let_def
    by (intro puts_defined) (use x(1) y(1) far in auto)
qed

lemma body_defined:
  assumes "body_ok ps" "2 \<le> length ps" "\<not> spread (tl ps)"
  shows "out_body ps \<noteq> None"
proof -
  obtain h us where h: "ps = h # us" "us \<noteq> []" using assms(2) by (cases ps; cases "tl ps") auto
  then obtain qs t where t: "us = qs @ [t]" by (metis rev_exhaust)
  have r: "rev ps = t # rev qs @ [h]" by (simp add: h t)
  have ok: "body_ok (t # rev qs)" using assms(1) by (auto simp: h t body_ok_def)
  have "\<not> spread (rev (t # rev qs))" using assms(3) by (simp add: h t)
  moreover have c: "between 0 43200 (body_x t)" "between 0 43200 (body_y t)" using ok by (simp_all add: body_ok_def coord_ok_def)
  ultimately have "out_offsets (body_x t) (body_y t) (rev qs) \<noteq> None"
    using offsets_defined [OF ok] by (simp add: between_def)
  moreover obtain u us' where u: "rev qs @ [h] = u # us'" by (cases "rev qs @ [h]") auto
  then have "butlast (u # us') = rev qs" by (metis butlast_snoc)
  then have "out_body ps = puts [map_option write_uint24 (to_u32 (body_x t * fl 5)),
    map_option write_uint24 (to_u32 (body_y t * fl 5)), out_offsets (body_x t) (body_y t) (rev qs)]"
    unfolding out_body_def r u by (simp only: list.case)
  moreover have "to_u32 (body_x t * fl 5) \<noteq> None" "to_u32 (body_y t * fl 5) \<noteq> None" by (rule five_times [OF c(1)], rule five_times [OF c(2)])
  ultimately show ?thesis by (simp only:) (rule puts_defined, simp)
qed

text \<open>Two parts that lie 65 pixels or more apart in one direction.\<close>

definition apart :: "Body \<Rightarrow> Body \<Rightarrow> bool" where
  "apart p q \<longleftrightarrow> 65 \<le> \<bar>fval (body_x p) - fval (body_x q)\<bar> \<or> 65 \<le> \<bar>fval (body_y p) - fval (body_y q)\<bar>"

lemma offsets_gap:
  assumes "q # qs = bs @ v # u # as" "apart u v" "body_in 0 43200 (q # qs)"
    and "isfin hx" "\<bar>fval hx - fval (body_x q)\<bar> \<le> 1 / 16" "isfin hy" "\<bar>fval hy - fval (body_y q)\<bar> \<le> 1 / 16"
  shows "out_offsets hx hy qs = None"
  using assms
proof (induction bs arbitrary: q qs hx hy)
  case Nil
  have qs: "qs = u # as" "q = v" using Nil.prems(1) by simp_all
  have ok: "between 0 43200 (body_x u)" "between 0 43200 (body_y u)" "between 0 43200 (body_x v)" "between 0 43200 (body_y v)"
    using Nil.prems(3) by (simp_all add: qs body_in_def)
  have c: "0 \<le> fval (body_x v)" "fval (body_x v) \<le> 43200" "0 \<le> fval (body_y v)" "fval (body_y v) \<le> 43200"
    using ok by (simp_all add: between_def)
  have "to_u8 ((body_x u - hx) * fl 2 + lit 1270 10) = None \<or> to_u8 ((body_y u - hy) * fl 2 + lit 1270 10) = None"
    using offset_gap [OF ok(1) Nil.prems(4,5) [unfolded qs] c(1,2)] offset_gap [OF ok(2) Nil.prems(6,7) [unfolded qs] c(3,4)]
      Nil.prems(2) by (auto simp: apart_def)
  then show ?case by (auto simp: qs Let_def intro!: puts_None)
next
  case (Cons b bs)
  have q: "b = q" "qs = bs @ v # u # as" using Cons.prems(1) by simp_all
  obtain p ps where p: "qs = p # ps" by (cases qs) (use q(2) in auto)
  have ok: "between 0 43200 (body_x p)" "between 0 43200 (body_y p)" "between 0 43200 (body_x q)" "between 0 43200 (body_y q)"
    using Cons.prems(3) by (simp_all add: p body_in_def)
  have c: "0 \<le> fval (body_x q)" "fval (body_x q) \<le> 43200" "0 \<le> fval (body_y q)" "fval (body_y q) \<le> 43200"
    using ok by (simp_all add: between_def)
  note x = offset_follows [OF ok(1) Cons.prems(4,5) c(1,2)] and y = offset_follows [OF ok(2) Cons.prems(6,7) c(3,4)]
  have "p # ps = bs @ v # u # as" "body_in 0 43200 (p # ps)" using q(2) p Cons.prems(3) by (simp_all add: body_in_def)
  from Cons.IH [OF this(1) Cons.prems(2) this(2) x y] show ?case by (auto simp: p Let_def intro!: puts_None)
qed

lemma body_undefined:
  assumes "body_in 0 43200 ps" "1 \<le> i" "i + 1 < length ps" "apart (ps ! i) (ps ! (i + 1))"
  shows "out_body ps = None"
proof -
  obtain h us where h: "ps = h # us" "us \<noteq> []" using assms(3) by (cases ps; cases "tl ps") auto
  define j where "j = i - 1"
  have j: "Suc j < length us" "us ! j = ps ! i" "us ! Suc j = ps ! (i + 1)" using assms(2,3) by (simp_all add: h j_def)
  have us: "us = take j us @ us ! j # us ! Suc j # drop (Suc (Suc j)) us"
    using j(1) by (simp add: Cons_nth_drop_Suc)
  obtain t rs where r: "rev us = t # rs" using h(2) by (cases "rev us") auto
  have e: "t # rs = rev (drop (Suc (Suc j)) us) @ us ! Suc j # us ! j # rev (take j us)"
    unfolding r [symmetric] by (subst us) simp
  have ok: "body_in 0 43200 (t # rs)" using assms(1) unfolding r [symmetric] by (simp add: h(1) body_in_def)
  have c: "isfin (body_x t)" "isfin (body_y t)" using ok by (simp_all add: body_in_def between_def)
  have "apart (us ! j) (us ! Suc j)" using assms(4) by (simp add: j)
  from offsets_gap [OF e this ok c(1) _ c(2)] have o: "out_offsets (body_x t) (body_y t) rs = None" by simp
  obtain u vs where u: "rs @ [h] = u # vs" by (cases "rs @ [h]") auto
  then have b: "butlast (u # vs) = rs" by (metis butlast_snoc)
  have "rev ps = t # u # vs" using r u by (simp add: h(1))
  then show ?thesis unfolding out_body_def by (simp only: list.case b o) (simp add: puts_None)
qed

section \<open>The packet\<close>

text \<open>
  C29: bodies that cannot be sent. A snake of at most one part, and one with its parts on the map of which
  any two consecutive ones behind the head lie 65 pixels or more apart in \<open>x\<close> or in \<open>y\<close>, in either
  direction, has no defined add-snake packet: the loop runs past the end of the parts, the offset does not
  fit its byte. (The offset from the head to the part behind it is not written.)
\<close>

theorem add_snake_undefined:
  assumes "length (parts s) \<le> 1 \<or> body_in 0 43200 (parts s) \<and>
    (\<exists>i. 1 \<le> i \<and> i + 1 < length (parts s) \<and>
      (65 \<le> \<bar>fval (body_x (parts s ! i)) - fval (body_x (parts s ! (i + 1)))\<bar> \<or>
       65 \<le> \<bar>fval (body_y (parts s ! i)) - fval (body_y (parts s ! (i + 1)))\<bar>))"
  shows "out_packet_add_snake (mk_packet_add_snake s) = None"
proof -
  have "parts s = [] \<or> out_body (parts s) = None"
    using assms
  proof
    assume "length (parts s) \<le> 1"
    then have "parts s = [] \<or> (\<exists>p. parts s = [p])" by (cases "parts s") auto
    then show ?thesis by (auto simp: out_body_def)
  qed (use body_undefined in \<open>auto simp: apart_def\<close>)
  then show ?thesis by (auto simp: out_packet_add_snake_def mk_packet_add_snake_def Let_def intro!: puts_None)
qed

text \<open>A head that ran 125 pixels in one tick leaves such a gap two ticks later.\<close>

definition gap_snake :: Snake where
  "gap_snake = centre_snake\<lparr>parts := map (\<lambda>x. \<lparr>body_x = fl x, body_y = fl 21600\<rparr>) [21900, 21800, 21675, 21633]\<rparr>"

theorem add_snake_undefined_witness: "out_packet_add_snake (mk_packet_add_snake gap_snake) = None"
proof -
  have "body_in 0 43200 (parts gap_snake)" "1 + 1 < length (parts gap_snake)"
    "65 \<le> \<bar>fval (body_x (parts gap_snake ! 1)) - fval (body_x (parts gap_snake ! (1 + 1)))\<bar>"
    by (simp_all add: gap_snake_def body_in_def between_def fl_value)
  then show ?thesis by (intro add_snake_undefined disjI2) blast
qed

definition presentable :: "Snake \<Rightarrow> bool" where
  "presentable s \<longleftrightarrow> \<not> angle s < fl 0 \<and> \<not> spread (tl (parts s))"

lemma speed_word_table: "list_all (\<lambda>k. write_fp16_3 (fl k / lit 320 10) \<noteq> None) [185..448]"
  by code_simp

lemma presentable_encodes:
  assumes "snake_ok (s, ss)" "tick_ready s" "presentable s"
  shows "encodes out_packet_add_snake (mk_packet_add_snake s)"
proof -
  have s: "3 \<le> length (parts s)" "fullness s < 100" "base_move_speed \<le> speed s" "speed s \<le> boost_speed" "body_ok (parts s)"
    "angle_ok (angle s)" using assms(1,2) by (simp_all add: snake_ok_def tick_ready_def)
  have "185 \<le> uint (speed s) \<and> uint (speed s) \<le> 448"
    using s(3,4) by (simp add: base_move_speed_def boost_speed_def word_le_def)
  then have "uint (speed s) \<in> set [185..448]" by (simp only: set_upto atLeastAtMost_iff)
  then have sp: "write_fp16_3 (fl (uint (speed s)) / lit 320 10) \<noteq> None"
    using speed_word_table unfolding list_all_iff by blast
  have "unat (fullness s) < 100" using s(2) by (simp add: word_less_nat_alt)
  from fullness_out [OF this] have fu: "write_fp24 (fl (uint (fullness s)) / fl 100) \<noteq> None" by auto
  have "isfin (fl 0)" "fval (fl 0) = 0" using fl_value [of 0] by simp_all
  then have "between 0 7 (angle s)" using s(6) assms(3) by (simp add: presentable_def angle_ok_def between_def less_value)
  then have an: "write_ang24 (angle s) \<noteq> None" by (rule write_ang24_defined)
  have head: "0 < length (parts s)" using s(1) by linarith
  have "coord_ok (get_head_x s)" "coord_ok (get_head_y s)"
    using body_ok_nth [OF s(5), of 0] head by (simp_all add: get_head_x_def get_head_y_def)
  then have hd: "to_u32 (get_head_x s * fl 5) \<noteq> None" "to_u32 (get_head_y s * fl 5) \<noteq> None"
    by (simp_all add: coord_ok_def five_times)
  have "out_body (parts s) \<noteq> None" using body_defined [OF s(5)] s(1) assms(3) by (simp add: presentable_def)
  with sp fu an hd have "out_packet_add_snake (mk_packet_add_snake s\<lparr>client_time := t\<rparr>) \<noteq> None" for t
    using head unfolding out_packet_add_snake_def Let_def
    by (simp only: mk_packet_add_snake_def packet_add_snake.simps PacketBase.simps length_0_conv if_False length_greater_0_conv)
      (rule puts_defined, auto)
  then show ?thesis by (simp add: encodes_def)
qed

end
