(* ===== verification/ServerEvents.thy ===== *)
theory ServerEvents
  imports ServerInvariant Introduce
begin

text \<open>The remaining handlers keep the invariant: messages, closing, the start, opening.\<close>

section \<open>Messages\<close>

lemma wanted_angle:
  assumes n: "0 \<le> n" "n \<le> 250"
  shows "angle_ok (f_pi * fl n / lit 1250 10)"
proof -
  have e: "f_pi = Fin False 13176795 (- 22)" by code_simp
  have p: "isfin f_pi" "fval f_pi = 13176795 / 4194304" unfolding e by (simp_all add: power_int_def power_divide)
  have f: "isfin (fl n)" "fval (fl n) = of_int n" using fl_value [of n] n by simp_all
  have "real_of_int n \<le> 250" using n(2) by simp
  then have r: "real_of_int 0 \<le> fval f_pi * fval (fl n)" "fval f_pi * fval (fl n) \<le> real_of_int 786"
    using n(1) unfolding p(2) f(2) by simp_all
  from mult_value [OF p(1) f(1) small_le_top [OF r]] have "between 0 786 (f_pi * fl n)"
    using rnd_between [OF _ r] unfolding between_def by simp
  moreover have "lit 1250 10 = fl 125" by code_simp
  moreover have "exact 125 (fl 125)" by (rule exact_fl) simp
  ultimately show ?thesis using between_div [of 0 786 "f_pi * fl n" 125 "fl 125" 0 7] by (intro angle_ok_pos) simp
qed

text \<open>What a message may do to a snake.\<close>

definition drives :: "(Snake \<Rightarrow> Snake) \<Rightarrow> bool" where
  "drives f \<longleftrightarrow> (\<forall>s. sn_id (f s) = sn_id s \<and> bot (f s) = bot s \<and> sbb (f s) = sbb s \<and>
     (\<forall>ss. snake_ok (s, ss) \<longrightarrow> snake_ok (f s, ss)) \<and> (settled [] s \<longrightarrow> settled [] (f s)))"

lemma drives_skin: "drives (set_skin n k)"
  by (simp add: drives_def set_skin_def snake_ok_def boxes_ok_def settled_def buried_def doomed_def flushed_def on_board_def
      tick_ready_def consts_ok_def get_head_x_def get_head_y_def)

lemma drives_acceleration: "drives (\<lambda>s. s\<lparr>acceleration := b\<rparr>)"
  by (simp add: drives_def snake_ok_def boxes_ok_def settled_def buried_def doomed_def flushed_def on_board_def
      tick_ready_def get_head_x_def get_head_y_def)

lemma wangle_bit: "(u OR change_wangle) AND 11 = u AND 11" "(u OR change_wangle) AND 96 = u AND 96" "(u OR change_wangle) AND 64 = u AND (64 :: u8)"
  by (simp_all add: change_wangle_def bit.conj_disj_distrib2)

lemma drives_wangle: "angle_ok ang \<Longrightarrow> drives (set_wangle ang)"
  by (simp add: drives_def set_wangle_def snake_ok_def boxes_ok_def settled_def buried_def doomed_def flushed_def on_board_def
      tick_ready_def consts_ok_def get_head_x_def get_head_y_def move_flags_value change_dying_def change_dead_def wangle_bit)

lemma do_snake_total:
  assumes "server_ok g" "drives f" "(h, i) \<in> set (who (sessions g))"
  shows "\<exists>g'. DoSnake i f g = Some g' \<and> server_ok g' \<and> kept g g'"
proof (cases "0 < i")
  case False
  then show ?thesis using assms(1) by (simp add: DoSnake_def)
next
  case True
  note g = server_okD [OF assms(1)]
  from rosterD(1) [OF g(5) assms(3)] have "GetSnake i (world g) \<noteq> None" using GetSnake_None by blast
  then obtain a where a: "GetSnake i (world g) = Some a" by blast
  note e = GetSnake_Some [OF a]
  from ownsD [OF g(3) e] obtain s where s: "heap (world g) a = Some s" "sn_id s = i" "snake_ok (s, sectors (world g))" .
  let ?g = "set_snake a (f s) g"
  have D: "DoSnake i f g = Some ?g" using True a s(1) by (simp add: DoSnake_def snake_at_def)
  have "owns (snakes (world g)) (update_snake a (f s) (sectors (world g)) (world g))"
    by (rule owns_put [OF g(3) e s(1)]) (use assms(2) s(3) in \<open>simp_all add: drives_def\<close>)
  then have "world_ok (world ?g)" using g(11,12) by (simp add: world_ok_def set_snake_def update_snake_def)
  moreover have "each_snake (\<lambda>_. settled []) (world ?g)"
    using g(6) assms(2) s(1) by (auto simp: each_snake_def set_snake_def drives_def)
  moreover have "roster ?g"
    by (rule roster_same [OF g(5)]) (use assms(2) s(1) in \<open>auto simp: set_snake_def drives_def\<close>)
  ultimately have "server_ok ?g" using g by (simp add: server_ok_def) (simp add: set_snake_def ids_below_def)
  with D show ?thesis by simp
qed

lemma sent_session:
  assumes "keys_ordered (sessions g)" "map_of (sessions g) h = Some u" "snake_id w = snake_id u"
  shows "sent g (g\<lparr>sessions := put_session h w (sessions g)\<rparr>)"
  using put_session_same [OF assms] by (simp add: sent_def)

lemma on_message_total:
  assumes "env_ok v" "server_ok g"
  shows "\<exists>g'. on_message v h b payload g = Some g' \<and> server_ok g' \<and> kept g g'"
proof (cases "map_of (sessions g) h")
  case None
  then show ?thesis using assms(2) by (simp add: on_message_def Let_def split: prod.splits)
next
  case (Some u)
  note k = server_okD(4) [OF assms(2)]
  obtain t buf where tb: "in_get in_packet_t_angle payload = (t, buf)" by fastforce
  have u: "(h, snake_id u) \<in> set (who (sessions g))" using map_of_SomeD [OF Some] by (rule who_in)
  have h: "h \<in> fst ` set (sessions g)" using who_keys [OF u] .
  let ?P = "\<lambda>g'. server_ok g' \<and> kept g g'"
  have doing: "outcome False (DoSnake (snake_id u) f g) ?P" if "drives f" for f
    using do_snake_total [OF assms(2) that u] by auto
  have stay: "outcome False (Some g) ?P" using assms(2) by simp
  have wangle: "outcome False (DoSnake (snake_id u) (set_wangle (f_pi * fl (uint t) / lit 1250 10)) g) ?P"
    if "t \<le> 250"
  proof (rule doing, rule drives_wangle, rule wanted_angle)
    show "uint t \<le> 250" using that by (simp add: word_le_def)
  qed simp
  have pong: "outcome False (send_binary v out_packet_pong size_PacketBase (Some h) (mk_packet_pong 0) g) ?P"
  proof -
    have "outcome False (send_binary v out_packet_pong size_PacketBase (Some h) (mk_packet_pong 0) g) (sent g)"
      by (rule to_pong.send_outcome [OF assms(1) k h]) simp
    then show ?thesis by (rule outcome_mono) (simp add: server_ok_sent [OF assms(2)] sent_kept)
  qed
  have user: "outcome False (username_skin h u buf g) ?P"
  proof -
    obtain pv bs sk cs where i: "in_byte (ses_protocol_version u) buf = (pv, bs)" "in_byte (ses_skin u) bs = (sk, cs)"
      by (metis surj_pair)
    let ?w = "u\<lparr>ses_protocol_version := pv, ses_skin := sk\<rparr>"
    let ?g = "g\<lparr>sessions := put_session h ?w (sessions g)\<rparr>"
    have s: "sent g ?g" by (rule sent_session [OF k Some]) simp
    then have "(h, snake_id u) \<in> set (who (sessions ?g))" using u by (simp add: sent_def)
    from do_snake_total [OF server_ok_sent [OF assms(2) s] drives_skin this] obtain g' where
      g': "DoSnake (snake_id u) (set_skin (ses_name ?w) (ses_skin ?w)) ?g = Some g'" "server_ok g'" "kept ?g g'" by blast
    moreover have "username_skin h u buf g = Some g'" using g'(1) by (simp add: username_skin_def i)
    ultimately show ?thesis using kept_trans [OF sent_kept [OF s]] by simp
  qed
  have "outcome False (on_message v h b payload g) ?P"
    unfolding on_message_def tb Some Let_def prod.case option.case
    by (intro outcome_if stay pong user doing [OF drives_acceleration]) (erule conjE, erule wangle)
  then show ?thesis by (rule outcome_total)
qed

section \<open>Closing\<close>

lemma close_total:
  assumes "server_ok g"
  shows "\<exists>g'. on_close h g = Some g' \<and> server_ok g' \<and> sessions g' = filter (\<lambda>e. fst e \<noteq> h) (sessions g) \<and>
    (case map_of (sessions g) h of
       None \<Rightarrow> g' = g
     | Some u \<Rightarrow> snakes (world g') = filter (\<lambda>e. fst e \<noteq> snake_id u) (snakes (world g)) \<and>
         (\<forall>e \<in> set (snakes (world g')). heap (world g') (snd e) = heap (world g) (snd e)) \<and>
         connections g' = (connections g)(snake_id u := None))"
proof (cases "map_of (sessions g) h")
  case None
  then have "h \<notin> fst ` set (sessions g)" by (simp add: map_of_eq_None_iff)
  then have "filter (\<lambda>e. fst e \<noteq> h) (sessions g) = sessions g" by (intro filter_True) auto
  then show ?thesis using assms None by (simp add: on_close_def)
next
  case (Some u)
  note g = server_okD [OF assms]
  let ?i = "snake_id u" and ?e = "erase_session h g"
  have u: "(h, ?i) \<in> set (who (sessions g))" using map_of_SomeD [OF Some] by (rule who_in)
  have ks: "keys_ordered (sessions ?e)" using g(4) by (simp add: keys_ordered_def erase_session_def sorted_wrt_map sorted_wrt_filter)
  have si: "srv_init ?e = BuildInitPacket" using g(13) by (simp add: erase_session_def)
  have "live_server ?e" using g(3) ks by (simp add: live_server_def erase_session_def)
  from remove_total [OF this, of ?i] obtain w where
    w: "RemoveSnake_srv ?i ?e = Some (?e\<lparr>connections := (connections ?e)(?i := None), world := w\<rparr>)" "owns (snakes w) w"
      "snakes w = filter (\<lambda>e. fst e \<noteq> ?i) (snakes (world g))" "\<forall>e \<in> set (snakes w). heap w (snd e) = heap (world g) (snd e)"
      "changes w = []" "ticks w = ticks (world g)" "dead w = []" "lastSnakeId w = lastSnakeId (world g)" "config w = config (world g)"
    using g(9,10) by (auto simp: erase_session_def)
  let ?g = "?e\<lparr>connections := (connections ?e)(?i := None), world := w\<rparr>"
  have "each_snake (\<lambda>_. settled []) w" unfolding each_snake_def
  proof
    fix e assume e: "e \<in> set (snakes w)"
    then have "e \<in> set (snakes (world g))" by (simp add: w(3))
    from each_snakeD [OF g(6) this] w(4) e show "\<exists>s. heap w (snd e) = Some s \<and> settled [] s" by simp
  qed
  moreover have "roster ?g"
  proof (rule roster_left [OF g(5), where D = "{?i}"])
    show "set (who (sessions ?g)) = {p \<in> set (who (sessions g)). snd p \<notin> {?i}}"
    proof -
      have "k = h" if "(k, ?i) \<in> set (who (sessions g))" for k
        using rosterD(1) [OF g(5) that] rosterD(1) [OF g(5) u] by simp
      moreover have "j = ?i" if "(h, j) \<in> set (who (sessions g))" for j
      proof -
        from in_who [OF that] obtain x where x: "(h, x) \<in> set (sessions g)" "snake_id x = j" by blast
        have "distinct (map fst (sessions g))" using g(4) by (simp add: keys_ordered_def strict_sorted_iff)
        from map_of_is_SomeI [OF this x(1)] Some x(2) show ?thesis by simp
      qed
      ultimately have iff: "fst p \<noteq> h \<longleftrightarrow> snd p \<notin> {?i}" if "p \<in> set (who (sessions g))" for p
        using that by (cases p, hypsubst, unfold fst_conv snd_conv singleton_iff, blast)
      have "set (who (sessions ?g)) = {p \<in> set (who (sessions g)). fst p \<noteq> h}"
        by (auto simp: who_def erase_session_def)
      also have "\<dots> = {p \<in> set (who (sessions g)). snd p \<notin> {?i}}" using iff by (intro Collect_cong conj_cong refl) simp
      finally show ?thesis .
    qed
  qed (use w(3,4) in \<open>simp_all add: erase_session_def\<close>)
  ultimately have "server_ok ?g"
    using g(7,8,11,12) w ks si by (simp add: server_ok_def world_ok_def ids_below_def)
  then show ?thesis using w(1,3,4) Some by (simp add: on_close_def) (simp add: erase_session_def)
qed

section \<open>The start\<close>

lemma start_total:
  assumes "env_ok v" "config_ok (cfg_world c)"
  shows "\<exists>g. Run_start v seed c new_GameServer = Some g \<and> server_ok g \<and> length (snakes (world g)) = unat (bots (cfg_world c)) \<and>
    sessions g = [] \<and> srv_init g = BuildInitPacket \<and> srv_config g = c \<and> last_time_point g = e_clock v 0 \<and>
    timer g = Some (max 0 (timer_interval_ms - (e_clock v 1 - e_clock v 0))) \<and> clock g = 2 \<and>
    lastSnakeId (world g) = bots (cfg_world c) \<and> config (world g) = cfg_world c"
proof -
  have m: "libm_ok (e_libc v)" "rand_ok (e_libc v)" "put_ok (e_put v)"
    and srt: "sort_ok (m_sort (e_libc v))" using assms(1) by (simp_all add: env_ok_def)
  from World_Init_total [OF m assms(2) srt, of seed] obtain w where
    w: "World_Init (e_libc v) (e_put v) seed (cfg_world c) empty_World = Some w" "world_ok w" "ids_below w"
      "each_snake (\<lambda>_. fresh_bot) w" "length (snakes w) = unat (bots (cfg_world c))" "changes w = []" "dead w = []" "config w = cfg_world c"
      "lastSnakeId w = bots (cfg_world c)"
    by blast
  let ?g = "new_GameServer\<lparr>srv_config := c, world := w, srv_init := BuildInitPacket, clock := 2, last_time_point := e_clock v 0,
    timer := Some (max 0 (timer_interval_ms - (e_clock v 1 - e_clock v 0)))\<rparr>"
  have "settled [] s" if "fresh_bot s" for s
  proof -
    have "update s AND change_dead = 0" using that dead_doomed [of "update s"] by (auto simp: fresh_bot_def doomed_def)
    with that show ?thesis by (auto simp: settled_def buried_def fresh_bot_def ready_def)
  qed
  with w(4) have "each_snake (\<lambda>_. settled []) w" by (fastforce simp: each_snake_def)
  moreover have "roster ?g"
  proof -
    have "bots_only w [fst e]" if "e \<in> set (snakes w)" for e
    proof -
      from each_snakeD [OF w(4) that] obtain s where "heap w (snd e) = Some s" "bot s" by (auto simp: fresh_bot_def)
      with that have "\<exists>a s. (fst e, a) \<in> set (snakes w) \<and> heap w a = Some s \<and> bot s"
        by (intro exI [of _ "snd e"] exI [of _ s]) simp
      then show ?thesis by (simp add: bots_only_def)
    qed
    then show ?thesis by (simp add: roster_def new_GameServer_def who_def)
  qed
  ultimately have "server_ok ?g" using w assms(2)
    by (simp add: server_ok_def) (simp add: new_GameServer_def keys_ordered_def)
  moreover have "Run_start v seed c new_GameServer = Some ?g"
    using w(1) by (simp add: Run_start_def new_GameServer_def GetCurrentTime_def NextTick_def)
  ultimately show ?thesis using w(5,8,9) by (intro exI [of _ ?g]) (simp add: new_GameServer_def)
qed

section \<open>Opening\<close>

text \<open>The new snake is in the map and has its session.\<close>

lemma joined_server:
  assumes g: "server_ok g" "lastSnakeId (world g) < 65535" and h: "h \<notin> fst ` set (sessions g)"
    and w: "joined False (world g) w" and i: "i = lastSnakeId (world g) + 1"
  shows "server_ok (g\<lparr>world := w, clock := n, sessions := put_session h (mk_Session i now) (sessions g), connections := (connections g)(i \<mapsto> h)\<rparr>)"
    (is "server_ok ?g")
proof -
  note k = server_okD [OF g(1)]
  note new = next_id_fresh(1) [OF k(7) g(2), folded i]
  have J: "world_ok w" "ids_below w" "each_snake (\<lambda>_. settled []) w"
  proof -
    have "settled [] s" if "ready s" "\<not> doomed s" for s
    proof -
      have "update s AND change_dead = 0" using that(2) dead_doomed [of "update s"] by (auto simp: doomed_def)
      with that show ?thesis by (auto simp: settled_def buried_def ready_def)
    qed
    then show "world_ok w" "ids_below w" "each_snake (\<lambda>_. settled []) w"
      using joined_inv [OF w k(2) k(7) g(2) k(6)] by blast+
  qed
  have m: "mset (snakes w) = mset ((i, next_addr (world g)) # snakes (world g))" using w by (simp add: joined_def i)
  have S: "set (snakes w) = insert (i, next_addr (world g)) (set (snakes (world g)))" using mset_eq_setD [OF m] by simp
  have P: "keys_ordered (put_session h (mk_Session i now) (sessions g))"
    "set (put_session h (mk_Session i now) (sessions g)) = insert (h, mk_Session i now) (set (sessions g))"
    using put_session_new [OF k(4) h] by simp_all
  have W: "set (who (put_session h (mk_Session i now) (sessions g))) = insert (h, i) (set (who (sessions g)))"
  proof -
    have "snake_id (mk_Session i now) = i" by (simp add: mk_Session_def)
    then show ?thesis by (simp add: who_def P(2))
  qed
  have old: "bots_only w [j] = bots_only (world g) [j]" if "j \<noteq> i" for j
  proof -
    have hp: "heap w a = heap (world g) a" if "(j, a) \<in> set (snakes (world g))" for a
      using w that unfolding joined_def by fastforce
    have "(j, a) \<in> set (snakes w) \<longleftrightarrow> (j, a) \<in> set (snakes (world g))" for a using that by (simp add: S)
    with hp show ?thesis by (auto simp: bots_only_def)
  qed
  have player: "\<not> bots_only w [i]"
  proof
    assume "bots_only w [i]"
    then obtain a s where a: "(i, a) \<in> set (snakes w)" "heap w a = Some s" "bot s" by (auto simp: bots_only_def)
    moreover have "(i, a) \<notin> set (snakes (world g))" using new by (auto intro: rev_image_eqI)
    ultimately have "heap w (next_addr (world g)) = Some s" by (simp add: S)
    with a(3) w show False by (auto simp: joined_def)
  qed
  have none: "(k, i) \<notin> set (who (sessions g))" for k using rosterD(1) [OF k(5), of k i] new by blast
  have "roster ?g"
  proof (rule rosterI)
    fix l j assume lj: "(l, j) \<in> set (who (sessions ?g))"
    show "connections ?g j = Some l \<and> \<not> bots_only (world ?g) [j] \<and> j \<in> fst ` set (snakes (world ?g))"
    proof (cases "j = i")
      case True
      with lj none have "l = h" by (auto simp: W)
      with True player show ?thesis by (simp add: S)
    next
      case False
      with lj have "(l, j) \<in> set (who (sessions g))" by (simp add: W)
      from rosterD(1) [OF k(5) this] False old [OF False] show ?thesis by (simp add: S)
    qed
  next
    fix l j assume "connections ?g j = Some l"
    with rosterD(2) [OF k(5), of j l] show "(l, j) \<in> set (who (sessions ?g))" by (auto simp: W split: if_splits)
  next
    fix e assume e: "e \<in> set (snakes (world ?g))"
    show "bots_only (world ?g) [fst e] \<or> connections ?g (fst e) \<noteq> None"
    proof (cases "fst e = i")
      case False
      with e have "e \<in> set (snakes (world g))" by (auto simp: S)
      from rosterD(3) [OF k(5) this] old [OF False] False show ?thesis by simp
    qed simp
  qed
  moreover have "changes w = []" "dead w = []" "config w = config (world g)" using w k(9,10) by (simp_all add: joined_def)
  ultimately show ?thesis using J P(1) k(8,13) by (simp add: server_ok_def)
qed

lemma hand_server_ok:
  assumes "server_ok g0" "hand e s0 g0 s g" "update s = update s0" "heap (world g0) (snd e) = Some s0"
  shows "server_ok g"
proof -
  note k = server_okD [OF assms(1)]
  have h: "live_server g" "e \<in> set (snakes (world g))" "heap (world g) (snd e) = Some s" "like s0 s" "kept g0 g"
    "dead (world g) = []" "\<forall>b. b \<noteq> snd e \<longrightarrow> heap (world g) b = heap (world g0) b"
    using assms(2) k(10) by (simp_all add: hand_def)
  have ss: "snakes (world g) = snakes (world g0)" using h(5) by (simp add: kept_def)
  have "settled [] s0" using each_snakeD [OF k(6), of e] h(2) assms(4) by (auto simp: ss)
  then have s: "settled [] s" using like_ready [OF h(4)] assms(3) h(4) by (simp add: settled_def buried_def doomed_def flushed_def like_def)
  have "\<exists>t. heap (world g) (snd f) = Some t \<and> settled [] t" if "f \<in> set (snakes (world g))" for f
  proof (cases "snd f = snd e")
    case True
    with h(3) s show ?thesis by simp
  next
    case False
    with each_snakeD [OF k(6), of f] that h(7) show ?thesis by (simp add: ss)
  qed
  then have "each_snake (\<lambda>_. settled []) (world g)" by (simp add: each_snake_def)
  moreover have "roster g"
  proof (rule roster_same [OF k(5) ss])
    fix f assume "f \<in> set (snakes (world g0))"
    show "map_option bot (heap (world g) (snd f)) = map_option bot (heap (world g0) (snd f))"
      using h(3,4,7) assms(4) by (cases "snd f = snd e") (simp_all add: like_def)
  qed (use h(5) in \<open>simp_all add: kept_def\<close>)
  ultimately show ?thesis using h(1,5,6) k(7,8,9,11,12,13)
    by (simp add: server_ok_def live_server_def world_ok_def kept_def ids_below_def)
qed

lemma init_packet_out: "out_PacketInit BuildInitPacket \<noteq> None"
  by code_simp

lemma on_open_outcome:
  assumes v: "env_ok v" and g: "server_ok g" "lastSnakeId (world g) < 65535" and h: "h \<notin> fst ` set (sessions g)"
    and E: "\<And>a w1 w2. CreateSnake (e_libc v) (world g) = Some (a, w1) \<Longrightarrow> AddSnake (e_put v) a w1 = Some w2 \<Longrightarrow> E \<or> each_snake (\<lambda>_. presentable) w2"
  shows "outcome E (on_open v h g) (\<lambda>g'. server_ok g' \<and> connections g' (lastSnakeId (world g) + 1) = Some h \<and>
    mset (snakes (world g')) = add_mset (lastSnakeId (world g) + 1, next_addr (world g)) (mset (snakes (world g))) \<and>
    last_time_point g' = last_time_point g \<and> timer g' = timer g)" (is "outcome E _ ?Q")
proof -
  let ?i = "lastSnakeId (world g) + 1" and ?a = "next_addr (world g)"
  note k = server_okD [OF g(1)]
  have m: "libm_ok (e_libc v)" "rand_ok (e_libc v)" "put_ok (e_put v)" using v by (simp_all add: env_ok_def)
  from player_total [OF k(3,7) g(2) m(1,2) k(8) m(3)] obtain w1 w where
    w: "CreateSnake (e_libc v) (world g) = Some (?a, w1)" "AddSnake (e_put v) ?a w1 = Some w" "release ?a w = w"
      "joined False (world g) w" by blast
  note intro = E [OF w(1,2)]
  from w(4) obtain s where s: "heap w ?a = Some s" "sn_id s = ?i" "ready s" by (auto simp: joined_def)
  have ms: "mset (snakes w) = mset ((?i, ?a) # snakes (world g))" using w(4) by (simp add: joined_def)
  have ent: "(?i, ?a) \<in> set (snakes w)" using mset_eq_setD [OF ms] by simp
  let ?u = "g\<lparr>world := w, clock := clock g + 1, sessions := put_session h (mk_Session ?i (e_clock v (clock g))) (sessions g),
    connections := (connections g)(?i \<mapsto> h)\<rparr>"
  have u: "server_ok ?u" by (rule joined_server [OF g h w(4) refl])
  have hu: "h \<in> fst ` set (sessions ?u)" using put_session_new [OF k(4) h] by simp
  have ready: "snake_ok (t, sectors w)" "tick_ready t" if "e \<in> set (snakes w)" "heap w (snd e) = Some t" for e t
  proof -
    have e: "(fst e, snd e) \<in> set (snakes w)" "owns (snakes w) w" using that server_okD(3) [OF u] by simp_all
    from ownsD [OF e(2,1)] that(2) show "snake_ok (t, sectors w)" by auto
    from each_snakeD [OF server_okD(6) [OF u], of e] that show "tick_ready t" by (auto simp: settled_def)
  qed
  have ok: "snake_ok (t, sectors w)" "body_ok (parts t)" if "e \<in> set (snakes w)" "heap w (snd e) = Some t" for e t
    using ready [OF that] by (simp_all add: tick_ready_def)
  have add: "E \<or> encodes out_packet_add_snake (mk_packet_add_snake t)" if t: "e \<in> set (snakes w)" "heap w (snd e) = Some t" for e t
    using intro presentable_encodes [OF ready [OF t]] each_snakeD [of "\<lambda>_. presentable", OF _ t(1)] t(2) by fastforce
  have mv: "\<exists>p. mk_packet_move t = Some p" if "e \<in> set (snakes w)" "heap w (snd e) = Some t" for e t
    using head_packets(2) [OF ok(2) [OF that]] ok(1) [OF that] by (simp add: snake_ok_def)
  from mv [OF ent] s(1) obtain p where p: "mk_packet_move s = Some p" by auto
  have keys: "keys_ordered (sessions g1)" "h \<in> fst ` set (sessions g1)" if "kept ?u g1" for g1
    using kept_keys [OF that] kept_hdls [OF that] server_okD(4) [OF u] hu by simp_all
  let ?intro = "\<lambda>c g. if fst c \<noteq> sn_id s then do {
         t \<leftarrow> snake_at (snd c) g;
         g \<leftarrow> send_binary v out_packet_add_snake size_packet_add_snake (Some h) (mk_packet_add_snake t) g;
         p \<leftarrow> mk_packet_move t;
         send_binary v out_packet_move size_packet_move (Some h) p g }
       else Some g"
  have others: "outcome E (fold_opt ?intro (snakes (world g3)) g3) (sent g3)"
    if k3: "kept ?u g3" and hp: "\<forall>b. b \<noteq> ?a \<longrightarrow> heap (world g3) b = heap w b" for g3
  proof (rule outcome_fold)
    fix c x assume c: "c \<in> set (snakes (world g3))" and x: "sent g3 x"
    have cw: "c \<in> set (snakes w)" using c k3 by (simp add: kept_def)
    have kx: "kept ?u x" using k3 sent_kept [OF x] by (rule kept_trans)
    show "outcome E (?intro c x) (sent g3)"
    proof (cases "fst c = sn_id s")
      case False
      have "snd c \<noteq> ?a"
      proof
        assume "snd c = ?a"
        then have "c = (?i, ?a)" using owns_unique [OF server_okD(3) [OF u], of c "(?i, ?a)"] cw ent by simp
        with False s(2) show False by simp
      qed
      with hp have hc: "heap (world x) (snd c) = heap w (snd c)" using x by (simp add: sent_def)
      from each_snakeD [OF server_okD(6) [OF u], of c] cw obtain t where t: "heap w (snd c) = Some t" by auto
      from mv [OF cw t] obtain q where q: "mk_packet_move t = Some q" by blast
      have "outcome E (Option.bind (send_binary v out_packet_add_snake size_packet_add_snake (Some h) (mk_packet_add_snake t) x)
        (send_binary v out_packet_move size_packet_move (Some h) q)) (sent x)"
      proof (rule outcome_bind [OF to_add_snake.send_outcome [OF v keys [OF kx] add [OF cw t]]])
        fix y assume y: "sent x y"
        have "kept ?u y" using kx sent_kept [OF y] by (rule kept_trans)
        then have "outcome E (send_binary v out_packet_move size_packet_move (Some h) q y) (sent y)"
          by (intro to_move.send_outcome [OF v keys]) simp_all
        then show "outcome E (send_binary v out_packet_move size_packet_move (Some h) q y) (sent x)"
          by (rule outcome_mono) (rule sent_trans [OF y])
      qed
      then have "outcome E (?intro c x) (sent x)" using False t q by (simp add: snake_at_def hc)
      then show ?thesis by (rule outcome_mono) (rule sent_trans [OF x])
    qed (use x in simp)
  qed simp
  have fin: "outcome E (Option.bind (fold_opt ?intro (snakes (world g3)) g3) (\<lambda>g. Some (g\<lparr>world := release ?a (world g)\<rparr>))) ?Q"
    if ok3: "server_ok g3" and k3: "kept ?u g3" and hp: "\<forall>b. b \<noteq> ?a \<longrightarrow> heap (world g3) b = heap w b" for g3
  proof (rule outcome_bind [OF others [OF k3 hp]])
    fix y assume y: "sent g3 y"
    have oky: "server_ok y" by (rule server_ok_sent [OF ok3 y])
    have ky: "kept ?u y" using k3 sent_kept [OF y] by (rule kept_trans)
    have "?a \<in> snd ` set (snakes (world y))" using ent ky by (auto simp: kept_def intro: rev_image_eqI)
    then have "y\<lparr>world := release ?a (world y)\<rparr> = y" by (simp add: release_def)
    with oky ky ms show "outcome E (Some (y\<lparr>world := release ?a (world y)\<rparr>)) ?Q" by (simp add: kept_def)
  qed
  have mid: "outcome E (do {
       g \<leftarrow> broadcast_binary v out_packet_move size_packet_move p x;
       g \<leftarrow> SendPOVUpdateTo v (Some h) ?a g;
       g \<leftarrow> fold_opt ?intro (snakes (world g)) g;
       Some (g\<lparr>world := release ?a (world g)\<rparr>) }) ?Q" if x: "sent ?u x" for x
  proof (rule outcome_bind [OF to_move.broadcast_outcome [OF v keys(1) [OF sent_kept [OF x]]]])
    fix y assume "sent x y"
    with x have y: "sent ?u y" by (rule sent_trans)
    have oky: "server_ok y" by (rule server_ok_sent [OF u y])
    have wy: "world y = w" using y by (simp add: sent_def)
    have hy: "hand (?i, ?a) s y s y" by (rule hand_start) (use server_okD(1) [OF oky] ent s(1) in \<open>simp_all add: wy\<close>)
    from pov_hand [OF v hy keys(2) [OF sent_kept [OF y]], of E]
    have "outcome E (SendPOVUpdateTo v (Some h) ?a y) (\<lambda>g'. \<exists>s'. hand (?i, ?a) s y s' g' \<and> update s' = update s)" by simp
    then show "outcome E (do {
       g \<leftarrow> SendPOVUpdateTo v (Some h) ?a y;
       g \<leftarrow> fold_opt ?intro (snakes (world g)) g;
       Some (g\<lparr>world := release ?a (world g)\<rparr>) }) ?Q"
    proof (rule outcome_bind)
      fix z assume "\<exists>s'. hand (?i, ?a) s y s' z \<and> update s' = update s"
      then obtain s' where z: "hand (?i, ?a) s y s' z" "update s' = update s" by blast
      show "outcome E (do {
       g \<leftarrow> fold_opt ?intro (snakes (world z)) z;
       Some (g\<lparr>world := release ?a (world g)\<rparr>) }) ?Q"
      proof (rule fin)
        show "server_ok z" by (rule hand_server_ok [OF oky z]) (simp add: wy s(1))
        show "kept ?u z" using sent_kept [OF y] handD(5) [OF z(1)] by (rule kept_trans)
        show "\<forall>b. b \<noteq> ?a \<longrightarrow> heap (world z) b = heap w b" using z(1) by (simp add: hand_def wy)
      qed
    qed
  qed simp
  have init: "outcome E (do {
       g \<leftarrow> endpoint_send v out_PacketInit size_PacketInit (srv_init ?u) h ?u;
       g \<leftarrow> broadcast_binary v out_packet_add_snake size_packet_add_snake (mk_packet_add_snake s) g;
       g \<leftarrow> broadcast_binary v out_packet_move size_packet_move p g;
       g \<leftarrow> SendPOVUpdateTo v (Some h) ?a g;
       g \<leftarrow> fold_opt ?intro (snakes (world g)) g;
       Some (g\<lparr>world := release ?a (world g)\<rparr>) }) ?Q"
  proof (rule outcome_bind)
    have "send_bytes (e_asio v) (e_raw v) out_PacketInit size_PacketInit BuildInitPacket = out_PacketInit BuildInitPacket"
      using v by (intro wire_init.send_exact) (simp_all add: env_ok_def)
    then show "outcome E (endpoint_send v out_PacketInit size_PacketInit (srv_init ?u) h ?u) (sent ?u)"
      using init_packet_out k(13) by (auto simp: endpoint_send_def)
    fix x assume x: "sent ?u x"
    have ad: "E \<or> encodes out_packet_add_snake (mk_packet_add_snake s)" using add [OF ent] s(1) by simp
    show "outcome E (do {
       g \<leftarrow> broadcast_binary v out_packet_add_snake size_packet_add_snake (mk_packet_add_snake s) x;
       g \<leftarrow> broadcast_binary v out_packet_move size_packet_move p g;
       g \<leftarrow> SendPOVUpdateTo v (Some h) ?a g;
       g \<leftarrow> fold_opt ?intro (snakes (world g)) g;
       Some (g\<lparr>world := release ?a (world g)\<rparr>) }) ?Q"
      by (rule outcome_bind [OF to_add_snake.broadcast_outcome [OF v keys(1) [OF sent_kept [OF x]] ad]])
        (rule mid, rule sent_trans [OF x])
  qed
  then show ?thesis by (simp add: on_open_def w(1,2) s(1,2) p GetCurrentTime_def)
qed

end
