(* ===== verification/ServerRun.thy ===== *)
theory ServerRun
  imports GameServer
begin

text \<open>
  \<open>GameServer::Run\<close> as a whole (\<open>src/src/server/game.cc\<close>), with what it prints about the world, and the
  handlers that prepare a connection: \<open>on_socket_init\<close> and \<open>on_tls_init\<close>.
\<close>

section \<open>What is printed of the world\<close>

text \<open>The items a stream is given; how it renders a number is the business of iostream.\<close>

datatype item = Text string | Number int | Real flt

definition out_World :: "item list" where
  "out_World =
    [Text (CHR 0x09 # ''game_radius = ''), Number game_radius,
     Text (CHR 0x0A # CHR 0x09 # ''max_snake_parts = ''), Number max_snake_parts,
     Text (CHR 0x0A # CHR 0x09 # ''sector_size = ''), Number sector_size,
     Text (CHR 0x0A # CHR 0x09 # ''sector_count_along_edge = ''), Number sector_count_along_edge,
     Text (CHR 0x0A # CHR 0x09 # ''virtual_frame_time_ms = ''), Number frame_time_ms,
     Text (CHR 0x0A # CHR 0x09 # ''protocol_version = ''), Number (uint protocol_version),
     Text (CHR 0x0A # CHR 0x09 # ''spangdv = ''), Real spangdv,
     Text (CHR 0x0A # CHR 0x09 # ''nsp1 = ''), Real nsp1, Text (CHR 0x0A # CHR 0x09 # ''nsp2 = ''), Real nsp2,
     Text (CHR 0x0A # CHR 0x09 # ''nsp3 = ''), Real nsp3,
     Text (CHR 0x0A # CHR 0x09 # ''base_move_speed = ''), Number (uint base_move_speed),
     Text (CHR 0x0A # CHR 0x09 # ''boost_speed = ''), Number (uint boost_speed),
     Text (CHR 0x0A # CHR 0x09 # ''speed_acceleration = ''), Number speed_acceleration,
     Text (CHR 0x0A # CHR 0x09 # ''prey_angular_speed = ''), Real prey_angular_speed,
     Text (CHR 0x0A # CHR 0x09 # ''snake_angular_speed = ''), Real snake_angular_speed,
     Text (CHR 0x0A # CHR 0x09 # ''snake_tail_k = ''), Real snake_tail_k,
     Text (CHR 0x0A # CHR 0x09 # ''parts_skip_count = ''), Number (int parts_skip_count),
     Text (CHR 0x0A # CHR 0x09 # ''parts_start_move_count = ''), Number (int parts_start_move_count),
     Text (CHR 0x0A # CHR 0x09 # ''move_step_distance = ''), Number move_step_distance,
     Text (CHR 0x0A # CHR 0x09 # ''rot_step_angle = ''), Real rot_step_angle]"

definition PrintWorldInfo :: "item list" where
  "PrintWorldInfo = Text (''World info = '' @ [CHR 0x0A]) # out_World"

section \<open>Preparing a connection\<close>

text \<open>The socket of a new connection, of which the code sets the option \<open>TCP_NODELAY\<close>.\<close>

record tcp_socket =
  no_delay :: bool

definition on_socket_init :: "tcp_socket \<Rightarrow> tcp_socket" where
  "on_socket_init s = s\<lparr>no_delay := True\<rparr>"

text \<open>
  The context of TLS 1.2. Setting the options and loading a file are Asio's: \<open>tls_set\<close>, \<open>tls_chain\<close> and
  \<open>tls_key\<close> say whether they succeed; otherwise they throw, and the rest of the \<open>try\<close> block is skipped.
\<close>

datatype ssl_option = default_workarounds | no_sslv2 | no_sslv3 | single_dh_use

record ssl_context =
  ssl_options :: "ssl_option list"
  ssl_chain :: "string option"
  ssl_key :: "string option"

record tls_library =
  tls_set :: bool
  tls_chain :: "string \<Rightarrow> bool"
  tls_key :: "string \<Rightarrow> bool"

definition new_ssl_context :: ssl_context where
  "new_ssl_context = \<lparr>ssl_options = [], ssl_chain = None, ssl_key = None\<rparr>"

text \<open>The context and whether an error was logged: it is returned in both cases.\<close>

definition on_tls_init :: "tls_library \<Rightarrow> IncomingConfig \<Rightarrow> ssl_context \<times> bool" where
  "on_tls_init t c =
    (let ctx = new_ssl_context
     in if \<not> tls_set t then (ctx, True)
        else let ctx = ctx\<lparr>ssl_options := [default_workarounds, no_sslv2, no_sslv3, single_dh_use]\<rparr>
        in if \<not> tls_chain t (tls_cert_file c) then (ctx, True)
           else let ctx = ctx\<lparr>ssl_chain := Some (tls_cert_file c)\<rparr>
           in if \<not> tls_key t (tls_key_file c) then (ctx, True)
              else (ctx\<lparr>ssl_key := Some (tls_key_file c)\<rparr>, False))"

text \<open>An error is logged exactly when the context that goes to websocketpp cannot serve.\<close>

lemma on_tls_init_complete:
  "on_tls_init t c = (ctx, err) \<Longrightarrow> err \<longleftrightarrow> ssl_key ctx = None"
  "on_tls_init t c = (ctx, False) \<Longrightarrow> ssl_chain ctx = Some (tls_cert_file c) \<and> ssl_key ctx = Some (tls_key_file c) \<and>
     {no_sslv2, no_sslv3} \<subseteq> set (ssl_options ctx)"
  by (auto simp: on_tls_init_def new_ssl_context_def Let_def split: if_splits)

section \<open>The run of the server\<close>

text \<open>What a program ends with: a value, \<open>exit\<close>, or an exception that nobody catches.\<close>

datatype 'a run = Value 'a | Exit nat | Uncaught

text \<open>
  What websocketpp does: whether it can listen on a port (otherwise it throws), the events it delivers, and
  how \<open>endpoint.run\<close> ends after them.
\<close>

datatype ending = Returns | Throws_websocketpp | Throws_other

record network =
  listens :: "u16 \<Rightarrow> bool"
  events :: "event list"
  ending :: ending

definition serve :: "env \<Rightarrow> event list \<Rightarrow> GameServer \<Rightarrow> GameServer option" where
  "serve v es g = fold_opt (handle v) es g"

text \<open>\<open>listen\<close> and \<open>start_accept\<close> stand before the \<open>try\<close> block.\<close>

definition Run :: "env \<Rightarrow> nat \<Rightarrow> network \<Rightarrow> IncomingConfig \<Rightarrow> GameServer \<Rightarrow> nat run option" where
  "Run v seed n c g =
    (if \<not> listens n (port c) then Some Uncaught
     else do {
       g \<leftarrow> Run_start v seed c g;
       g \<leftarrow> serve v (events n) g;
       Some (case ending n of Returns \<Rightarrow> Value 0 | Throws_websocketpp \<Rightarrow> Value 1 | Throws_other \<Rightarrow> Uncaught) })"

text \<open>The exit code: 1 is an error of websocketpp in the loop; one from \<open>listen\<close> gets no exit code.\<close>

lemma Run_code: "Run v seed n c g = Some (Value k) \<Longrightarrow> listens n (port c) \<and> k = (if ending n = Returns then 0 else 1)"
  by (auto simp: Run_def bind_eq_Some_conv split: if_splits ending.splits)

end
