(* ===== verification/CommandLine.thy ===== *)
theory CommandLine
  imports ServerRun
begin

text \<open>
  The command line (\<open>src/src/server/config.cc\<close>) and \<open>main\<close> (\<open>main.cc\<close>). The options are the table the
  source builds; \<open>po::parse_command_line\<close>, \<open>store\<close> and \<open>notify\<close> of Boost are the argument \<open>parse\<close>: they
  throw \<open>unknown_option\<close>, throw something else, or write the values into the configuration.
\<close>

datatype option_value = Bool_switch | Value_u16 u16 | Value_string

text \<open>Long name, short name, kind of value with its default.\<close>

type_synonym option_entry = "string \<times> char option \<times> option_value"

definition generic_options :: "IncomingConfig \<Rightarrow> option_entry list" where
  "generic_options c =
    [(''help'', Some (CHR ''h''), Bool_switch), (''verbose'', Some (CHR ''v''), Bool_switch),
     (''version'', None, Bool_switch), (''port'', Some (CHR ''p''), Value_u16 (port c)),
     (''debug'', Some (CHR ''d''), Bool_switch), (''tls'', None, Bool_switch),
     (''cert'', None, Value_string), (''key'', None, Value_string)]"

definition conf_options :: "IncomingConfig \<Rightarrow> option_entry list" where
  "conf_options c =
    [(''bots'', Some (CHR ''b''), Value_u16 (bots (cfg_world c))),
     (''avg_len'', None, Value_u16 (snake_average_length (cfg_world c))),
     (''min_len'', None, Value_u16 (snake_min_length (cfg_world c)))]"

datatype parsed = Unknown_option | Other_exception | Stored IncomingConfig

type_synonym parser = "option_entry list \<Rightarrow> string list \<Rightarrow> IncomingConfig \<Rightarrow> parsed"

definition check_config :: "IncomingConfig \<Rightarrow> IncomingConfig run" where
  "check_config c =
    (if cfg_help c then Exit 1
     else if use_tls c \<and> (tls_cert_file c = [] \<or> tls_key_file c = []) then Exit 1
     else Value c)"

definition ParseCommandLine :: "parser \<Rightarrow> string list \<Rightarrow> IncomingConfig run" where
  "ParseCommandLine parse argv =
    (let c = default_IncomingConfig
     in case parse (generic_options c @ conf_options c) argv c of
          Stored c' \<Rightarrow> check_config c'
        | Unknown_option \<Rightarrow> check_config (c\<lparr>cfg_help := True\<rparr>)
        | Other_exception \<Rightarrow> Uncaught)"

text \<open>The program: the result of \<open>Run\<close> is the exit code.\<close>

definition main :: "env \<Rightarrow> nat \<Rightarrow> network \<Rightarrow> parser \<Rightarrow> string list \<Rightarrow> nat run option" where
  "main v seed n parse argv =
    (case ParseCommandLine parse argv of
       Value c \<Rightarrow> Run v seed n c new_GameServer
     | Exit k \<Rightarrow> Some (Exit k)
     | Uncaught \<Rightarrow> Some Uncaught)"

lemma ParseCommandLine_cases:
  "ParseCommandLine parse argv = Value c \<Longrightarrow> \<not> cfg_help c \<and> (use_tls c \<longrightarrow> tls_cert_file c \<noteq> [] \<and> tls_key_file c \<noteq> [])"
  "ParseCommandLine parse argv = Exit n \<Longrightarrow> n = 1"
  by (auto simp: ParseCommandLine_def check_config_def Let_def split: parsed.splits if_splits)

text \<open>The options have distinct names, and no two the same letter.\<close>

lemma options_distinct:
  "distinct (map fst (generic_options c @ conf_options c)) \<and>
   distinct (filter (\<lambda>x. x \<noteq> None) (map (fst \<circ> snd) (generic_options c @ conf_options c)))"
  by (simp add: generic_options_def conf_options_def)

end
