(* ===== verification/CalmServer.thy ===== *)
theory CalmServer
  imports ServerEvents CommandLine
begin

text \<open>
  A server to evaluate on: surroundings in which \<open>rand\<close> is always 0, and what \<open>CreateSnake\<close> makes of them;
  a state with one player; the start without bots.
\<close>

section \<open>Surroundings\<close>

text \<open>Surroundings to evaluate in: everything within one millisecond, every connection there.\<close>

definition calm_env :: env where
  "calm_env = \<lparr>e_libc = calm_libc, e_put = (#), e_clock = \<lambda>_. 0, e_con = \<lambda>_ _. True, e_asio = \<lambda>_ bs. bs,
     e_raw = replicate 128 0\<rparr>"

lemma calm_env_ok: "env_ok calm_env"
  using calm_libc_ok two_bots_ok by (simp add: env_ok_def calm_env_def asio_ok_def)

text \<open>A server with one player and no bot.\<close>

definition one_player :: GameServer where
  "one_player = new_GameServer\<lparr>world := empty_World\<lparr>sectors := InitSectors, heap := [1 \<mapsto> centre_snake], snakes := [(7, 1)],
     next_addr := 2, lastSnakeId := 7, config := two_bots\<rparr>, srv_init := BuildInitPacket, sessions := [(4, mk_Session 7 0)],
     connections := [7 \<mapsto> 4], timer := Some 10\<rparr>"

lemma one_player_ok: "server_ok one_player"
proof -
  have c: "sn_id centre_snake = 7" "update centre_snake = 0" "bot centre_snake = False" "bb_snake (sbb centre_snake) = 1"
    by (simp_all add: centre_snake_def sample_snake_def sample_box_def)
  have f: "foods_ok (InitSectors ! k)" if "k < 20736" for k
    using that by (simp add: foods_ok_def InitSectors_def count_along_edge mk_Sector_def Let_def)
  have "grid_refs {7} InitSectors" using f by (simp add: grid_refs_def grid_ok_InitSectors snakes_InitSectors)
  then have o: "owns (snakes (world one_player)) (world one_player)"
    using centre_snake_ok c by (simp add: owns_def live_def one_player_def empty_World_def)
  have "settled [] centre_snake" using centre_snake_ready centre_snake_head c
    by (simp add: settled_def buried_def doomed_def on_board_def flushed_def)
  then have "each_snake (\<lambda>_. settled []) (world one_player)" by (simp add: each_snake_def one_player_def empty_World_def)
  moreover have "roster one_player"
    using c by (intro rosterI) (auto simp: one_player_def new_GameServer_def empty_World_def who_def mk_Session_def bots_only_def split: if_splits)
  ultimately show ?thesis using o two_bots_ok(1)
    by (simp add: server_ok_def world_ok_def)
      (simp add: one_player_def new_GameServer_def empty_World_def keys_ordered_def ids_below_def)
qed

section \<open>A new snake\<close>

text \<open>Entering the grid only moves the boxes.\<close>

lemma InitBox_rest:
  assumes "InitBoxNewSectors (s, ss) = Some (s', ss')"
  shows "rest s' = rest s \<and> parts s' = parts s"
proof -
  let ?P = "\<lambda>st :: Snake \<times> SectorSeq. rest (fst st) = rest s \<and> parts (fst st) = parts s"
  have b: "outcome True (sbb_new_sectors a b c d st) ?P" if "?P st" for a b c d st
    using that by (auto simp: sbb_new_sectors_def outcome_def split: bind_splits option.splits)
  have v: "outcome True (vp_new_sectors a b c d st) ?P" if "?P st" for a b c d st
    using that by (auto simp: vp_new_sectors_def outcome_def split: bind_splits option.splits)
  have "outcome True (InitBoxNewSectors (s, ss)) ?P"
    unfolding InitBoxNewSectors_def Let_def
    by (intro outcome_bind [OF b] outcome_bind [OF v] outcome_fold [where P = ?P] b) simp_all
  from outcome_partial [OF this assms] show ?thesis by simp
qed

definition calm_parts :: BodySeq where
  "calm_parts = the (body_line (fl 1) (fl 0) (body_steps 5) 22600 21600)"

lemma calm_body: "body_line (fl 1) (fl 0) (body_steps 5) 22600 21600 = Some calm_parts"
  by code_simp

lemma calm_new:
  assumes "CreateSnake calm_libc w = Some (a, w1)" and c2: "snake_average_length (config w) = 2" "snake_min_length (config w) = 2"
  shows "\<exists>s. heap w1 a = Some s \<and> parts s = calm_parts \<and> angle s = normalize_angle (normalize_angle (f_2pi * (fl 0) + f_pi) + f_pi) \<and>
    speed s = base_move_speed \<and> fullness s = 0 \<and> sn_name s = []"
proof -
  have r: "NextRandom calm_libc b r = Some (0, r + 1)" if "b \<noteq> 0" for b r using that by (simp add: NextRandom_def calm_libc_def)
  have f: "NextRandomf calm_libc r = (fl 0, r + 1)" for r
  proof -
    have "fst (NextRandomf calm_libc 0) = fl 0" by code_simp
    then show ?thesis by (simp add: NextRandomf_def calm_libc_def)
  qed
  have c: "m_cosf calm_libc x = fl 1" "m_sinf calm_libc x = fl 0" for x by (simp_all add: calm_libc_def)
  have x: "to_u16 (fl game_radius + (fl 1000 + fl 0) * fl 1) = Some 22600" "to_u16 (fl game_radius + (fl 1000 + fl 0) * fl 0) = Some 21600"
    by code_simp+
  have l: "uint (snake_average_length (config w)) \<noteq> 0" "nat (3 + uint (snake_min_length (config w))) = 5"
    by (simp_all add: c2)
  let ?ang = "normalize_angle (normalize_angle (f_2pi * fl 0 + f_pi) + f_pi)"
  let ?s = "new_Snake (lastSnakeId w + 1) 9\<lparr>parts := calm_parts, clientPartsIndex := length calm_parts, angle := ?ang, wangle := ?ang\<rparr>"
  have "\<exists>s ss. heap w1 a = Some s \<and> InitBoxNewSectors (born (next_addr w) ?s, sectors w) = Some (s, ss)"
    using assms(1) unfolding CreateSnake_def Let_def f c prod.case
    by (simp add: r l x calm_body) (auto simp: bind_eq_Some_conv born_def)
  then obtain s ss where s: "heap w1 a = Some s" "InitBoxNewSectors (born (next_addr w) ?s, sectors w) = Some (s, ss)" by blast
  from InitBox_rest [OF s(2)] have e: "rest s = rest (born (next_addr w) ?s)" "parts s = calm_parts" by simp_all
  have "sn_name (born (next_addr w) ?s) = []" 
    by (simp add: born_def UpdateSnakeConsts_def UpdateBoxRadius_def UpdateBoxCenter_def new_Snake_def Let_def split: prod.splits)
  moreover have "sn_name s = sn_name (born (next_addr w) ?s)" using arg_cong [OF e(1), of sn_name] by (simp add: rest_def)
  ultimately show ?thesis using rest_eqD(6,7,9) [OF e(1)] s(1) e(2) by (simp add: new_Snake_def Let_def)
qed

lemma calm_shown:
  "\<not> normalize_angle (normalize_angle (f_2pi * fl 0 + f_pi) + f_pi) < fl 0" "\<not> spread (tl calm_parts)" "presentable centre_snake"
  by code_simp+

lemma calm_presentable:
  assumes "server_ok g" "lastSnakeId (world g) < 65535" "snake_average_length (config (world g)) = 2" "snake_min_length (config (world g)) = 2"
    and old: "each_snake (\<lambda>_. presentable) (world g)"
    and w: "CreateSnake (e_libc calm_env) (world g) = Some (a, w1)" "AddSnake (e_put calm_env) a w1 = Some w2"
  shows "each_snake (\<lambda>_. presentable) w2"
proof -
  note k = server_okD [OF assms(1)]
  have m: "libm_ok calm_libc" "rand_ok calm_libc" "put_ok (#)" by (rule calm_libc_ok two_bots_ok)+
  have e: "e_libc calm_env = calm_libc" "e_put calm_env = (#)" by (simp_all add: calm_env_def)
  from player_total [OF k(3,7) assms(2) m(1,2) k(8) m(3)] w have j: "joined False (world g) w2" "a = next_addr (world g)"
    by (auto simp: e)
  from calm_new [OF w(1) [unfolded e] assms(3,4)] obtain s where
    s: "heap w1 a = Some s" "parts s = calm_parts" "angle s = normalize_angle (normalize_angle (f_2pi * (fl 0) + f_pi) + f_pi)" by blast
  have h: "heap w2 = heap w1" using w(2) s(1) by (auto simp: AddSnake_def)
  have "mset (snakes w2) = mset ((lastSnakeId (world g) + 1, a) # snakes (world g))" using j by (simp add: joined_def)
  note S = mset_eq_setD [OF this]
  have "\<exists>t. heap w2 (snd e) = Some t \<and> presentable t" if "e \<in> set (snakes w2)" for e
  proof (cases "e \<in> set (snakes (world g))")
    case True
    then have "heap w2 (snd e) = heap (world g) (snd e)" using j(1) unfolding joined_def by blast
    with each_snakeD [OF old True] show ?thesis by auto
  next
    case False
    with that S have "snd e = a" by auto
    moreover have "presentable s" unfolding presentable_def s(2,3) by (simp only: calm_shown not_False_eq_True simp_thms)
    ultimately show ?thesis using s(1) by (simp add: h)
  qed
  then show ?thesis by (simp add: each_snake_def)
qed

section \<open>The start without bots\<close>

definition no_bots_config :: IncomingConfig where
  "no_bots_config = default_IncomingConfig\<lparr>cfg_world := two_bots\<lparr>bots := 0\<rparr>\<rparr>"

lemma no_bots_start:
  obtains g where "Run_start calm_env 7 no_bots_config new_GameServer = Some g" "server_ok g" "snakes (world g) = []"
    "sessions g = []" "lastSnakeId (world g) = 0" "config (world g) = cfg_world no_bots_config"
proof -
  have c: "config_ok (cfg_world no_bots_config)" by (simp add: no_bots_config_def config_ok_def two_bots_def)
  from start_total [OF calm_env_ok c, of 7] obtain g where
    g: "Run_start calm_env 7 no_bots_config new_GameServer = Some g" "server_ok g"
      "length (snakes (world g)) = unat (bots (cfg_world no_bots_config))" "sessions g = []"
      "lastSnakeId (world g) = bots (cfg_world no_bots_config)" "config (world g) = cfg_world no_bots_config" by blast
  then show thesis by (intro that [of g]) (simp_all add: no_bots_config_def)
qed

end
