(* ===== verification/ServerProps.thy ===== *)
theory ServerProps
  imports CalmServer
begin

text \<open>The properties of the server, each an application of the lemmas of its handlers.\<close>

section \<open>The states of a running server\<close>

text \<open>
  One event: websocketpp opens a connection that has no session yet, delivers a message, closes a
  connection, or the pending timer fires, not more than 242 ms after the last tick.
\<close>

inductive step :: "env \<Rightarrow> GameServer \<Rightarrow> GameServer \<Rightarrow> bool" for v :: env where
  opened: "h \<notin> fst ` set (sessions g) \<Longrightarrow> lastSnakeId (world g) < 65535 \<Longrightarrow> handle v (Open h) g = Some g' \<Longrightarrow> step v g g'"
| message: "handle v (Message h binary payload) g = Some g' \<Longrightarrow> step v g g'"
| closed: "handle v (Close h) g = Some g' \<Longrightarrow> step v g g'"
| fired: "timer g \<noteq> None \<Longrightarrow> on_time v g \<Longrightarrow> handle v (Timer err) g = Some g' \<Longrightarrow> step v g g'"

inductive reachable :: "env \<Rightarrow> nat \<Rightarrow> IncomingConfig \<Rightarrow> GameServer \<Rightarrow> bool" for v :: env and seed :: nat and c :: IncomingConfig where
  started: "Run_start v seed c new_GameServer = Some g \<Longrightarrow> reachable v seed c g"
| stepped: "reachable v seed c g \<Longrightarrow> step v g g' \<Longrightarrow> reachable v seed c g'"

lemma step_keeps:
  assumes "env_ok v" "server_ok g" "step v g g'"
  shows "server_ok g'"
  using assms(3)
proof cases
  case (opened h)
  then have o: "on_open v h g = Some g'" by simp
  from on_open_outcome [OF assms(1,2) opened(2,1), of True] show ?thesis by (auto dest: outcome_partial [OF _ o])
next
  case (message h binary payload)
  then show ?thesis using on_message_total [OF assms(1,2), of h binary payload] by auto
next
  case (closed h)
  then show ?thesis using close_total [OF assms(2), of h] by auto
next
  case (fired err)
  show ?thesis
  proof (cases err)
    case True
    then have "g' = g\<lparr>timer := None, clock := clock g + 1\<rparr>" using fired(3) by (simp add: on_timer_def GetCurrentTime_def)
    with assms(2) show ?thesis by simp
  next
    case False
    then have o: "on_timer v False g = Some g'" using fired(3) by simp
    then obtain w where w: "World_Tick (e_libc v) (e_clock v (clock g) - last_time_point g) (world g) = Some w"
      by (auto simp: on_timer_def GetCurrentTime_def Let_def bind_eq_Some_conv)
    from outcome_partial [OF on_timer_outcome [OF assms(1,2) fired(2) w] o] show ?thesis by simp
  qed
qed

text \<open>
  C1: the invariant of the server, within the bounds of \<open>step\<close>. With lengths that fit the map
  (\<open>config_ok\<close>), in every state reached from the start by events whose handlers return, in any order and
  with any bytes in the messages, the world and the grid agree, sessions, connections and the snakes of
  players match one to one, no snake has unsent news and every snake is ready for the next tick, or is a
  player's and dead. The bounds: a connection is opened only while the id counter is below 65535, and the
  timer fires at most 242 ms after the last tick. The first cannot be dropped: an id that wraps onto a
  living snake breaks the invariant (theory \<open>IdWrap\<close>).
\<close>

theorem reachable_ok:
  assumes "env_ok v" "config_ok (cfg_world c)" "reachable v seed c g"
  shows "server_ok g"
  using assms(3)
proof (induction rule: reachable.induct)
  case (started g)
  with start_total [OF assms(1,2), of seed] show ?case by auto
next
  case (stepped g g')
  with step_keeps [OF assms(1)] show ?case by blast
qed

theorem reachable_ok_witness:
  "\<exists>g. reachable calm_env 7 no_bots_config g \<and> server_ok g \<and> connections g 1 = Some 5 \<and> size (mset (snakes (world g))) = 1"
proof -
  obtain g where g: "Run_start calm_env 7 no_bots_config new_GameServer = Some g" "server_ok g" "snakes (world g) = []"
    "sessions g = []" "lastSnakeId (world g) = 0" "config (world g) = cfg_world no_bots_config" by (rule no_bots_start)
  have c: "snake_average_length (config (world g)) = 2" "snake_min_length (config (world g)) = 2"
    by (simp_all add: g(6) no_bots_config_def two_bots_def)
  have f: "lastSnakeId (world g) < 65535" "5 \<notin> fst ` set (sessions g)" by (simp_all add: g(4,5))
  have "each_snake P (world g)" for P by (simp add: each_snake_def g(3))
  note intro = calm_presentable [OF g(2) f(1) c this]
  have "outcome False (on_open calm_env 5 g) (\<lambda>g'. server_ok g' \<and> connections g' (lastSnakeId (world g) + 1) = Some 5 \<and>
    mset (snakes (world g')) = add_mset (lastSnakeId (world g) + 1, next_addr (world g)) (mset (snakes (world g))) \<and>
    last_time_point g' = last_time_point g \<and> timer g' = timer g)"
    by (rule on_open_outcome [OF calm_env_ok g(2) f]) (use intro in blast)
  from outcome_total [OF this] obtain g' where g': "on_open calm_env 5 g = Some g'" "connections g' 1 = Some 5"
    "mset (snakes (world g')) = add_mset (1, next_addr (world g)) (mset [])" by (auto simp: g(3,5))
  have "step calm_env g g'" using f g'(1) by (intro opened [of 5]) simp_all
  then have r: "reachable calm_env 7 no_bots_config g'" by (rule stepped [OF started [OF g(1)]])
  have "config_ok (cfg_world no_bots_config)" by (simp add: no_bots_config_def config_ok_def two_bots_def)
  from reachable_ok [OF calm_env_ok this r] r g'(2,3) show ?thesis by (intro exI [of _ g']) simp
qed

text \<open>
  The same for the events that \<open>Run\<close> is given as a list: \<open>admitted\<close> are the lists in which no handle is opened
  twice, no id is left over and no timer is late.
\<close>

fun admissible :: "env \<Rightarrow> event \<Rightarrow> GameServer \<Rightarrow> bool" where
  "admissible v (Open h) g \<longleftrightarrow> h \<notin> fst ` set (sessions g) \<and> lastSnakeId (world g) < 65535"
| "admissible v (Timer err) g \<longleftrightarrow> timer g \<noteq> None \<and> on_time v g"
| "admissible v _ g \<longleftrightarrow> True"

fun admitted :: "env \<Rightarrow> event list \<Rightarrow> GameServer \<Rightarrow> bool" where
  "admitted v [] g \<longleftrightarrow> True"
| "admitted v (e # es) g \<longleftrightarrow> admissible v e g \<and> (case handle v e g of None \<Rightarrow> True | Some g' \<Rightarrow> admitted v es g')"

lemma admissible_step: "admissible v e g \<Longrightarrow> handle v e g = Some g' \<Longrightarrow> step v g g'"
  by (cases e) (auto intro: step.intros)

lemma serve_reachable:
  assumes "serve v es g = Some g'" "admitted v es g" "reachable v seed c g"
  shows "reachable v seed c g'"
  using assms unfolding serve_def
proof (induction es arbitrary: g)
  case (Cons e es)
  then obtain g1 where g1: "handle v e g = Some g1" "fold_opt (handle v) es g1 = Some g'" by (auto simp: bind_eq_Some_conv)
  from Cons.prems(2) g1(1) have a: "admissible v e g" "admitted v es g1" by simp_all
  from stepped [OF Cons.prems(3) admissible_step [OF a(1) g1(1)]] show ?case by (rule Cons.IH [OF g1(2) a(2)])
qed simp

section \<open>The handlers\<close>

text \<open>What is ready for a tick has angle bytes, unless an angle is above the last float below \<open>f_2pi\<close>.\<close>

lemma ready_angles:
  assumes "tick_ready s" "fval (angle s) \<le> 13176794 / 2097152" "fval (wangle s) \<le> 13176794 / 2097152"
  shows "angles_encode s"
  using assms write_ang8_defined [of "angle s"] write_ang8_defined [of "wangle s"]
  by (simp add: angles_encode_def tick_ready_def angle_ok_def between_def)

lemma ticked_world:
  assumes "env_ok v" "server_ok g" "on_time v g"
  obtains w where "World_Tick (e_libc v) (e_clock v (clock g) - last_time_point g) (world g) = Some w" "owns (snakes w) w"
    "snakes w = snakes (world g)" "each_snake (\<lambda>_. tick_ready) w"
proof -
  have dt: "0 \<le> e_clock v (clock g) - last_time_point g" "e_clock v (clock g) - last_time_point g \<le> 242"
    using assms(3) by (simp_all add: on_time_def)
  from timer_tick [OF assms(1,2) dt] obtain w where
    w: "World_Tick (e_libc v) (e_clock v (clock g) - last_time_point g) (world g) = Some w" "world_ok w" "snakes w = snakes (world g)"
      "each_snake (\<lambda>a s. pending [] s \<and> (a \<in> set (changes w) \<or> settled [] s) \<and> (\<exists>s0. heap (world g) a = Some s0 \<and> bot s = bot s0)) w" .
  from w(4) have "each_snake (\<lambda>_. tick_ready) w" by (fastforce simp: each_snake_def pending_def)
  with w show ?thesis by (intro that [of w]) (simp_all add: world_ok_def)
qed

lemma changed_ready:
  assumes "owns (snakes w) w" "each_snake (\<lambda>_. tick_ready) w"
    "a \<in> set (changes w)" "heap w a = Some s"
  shows "tick_ready s"
proof -
  have "a \<in> snd ` set (snakes w)" using assms(1,3) unfolding owns_def by blast
  then obtain e where "e \<in> set (snakes w)" "a = snd e" by blast
  with each_snakeD [OF assms(2)] assms(4) show ?thesis by fastforce
qed

text \<open>
  C2: the timer handler leaves the server in shape, removes exactly the dead and fails in two ways only.
  From every state in the invariant, at most 242 ms after the last tick, debugging or not, the world ticks
  and then \<open>on_timer\<close> returns: the invariant holds again, so all news is out, no session has come or gone,
  the snakes are those of before without the bots that died in this tick, and the next timer is set, with a
  steady clock at most 10 ms ahead. Or it fails, on a snake that changed: one of its angles is above the
  last float below \<open>f_2pi\<close>, or debugging is on and its box does not fit the 16 bits of a drawn circle.
\<close>

theorem on_timer_safe:
  assumes "env_ok v" "server_ok g" "on_time v g" "mono (e_clock v)"
  shows "\<exists>w. World_Tick (e_libc v) (e_clock v (clock g) - last_time_point g) (world g) = Some w \<and>
    ((\<exists>g' d. on_timer v False g = Some g' \<and> server_ok g' \<and> who (sessions g') = who (sessions g) \<and>
       snakes (world g') = filter (\<lambda>e. \<not> (\<exists>s. heap w (snd e) = Some s \<and> leaving s)) (snakes (world g)) \<and>
       last_time_point g' = e_clock v (clock g) \<and> timer g' = Some d \<and> 0 \<le> d \<and> d \<le> 10) \<or>
     (\<exists>a s. a \<in> set (changes w) \<and> heap w a = Some s \<and>
       (13176794 / 2097152 < fval (angle s) \<or> 13176794 / 2097152 < fval (wangle s) \<or>
        debug (srv_config g) \<and> \<not> drawable (sbb s))))"
proof -
  obtain w where w: "World_Tick (e_libc v) (e_clock v (clock g) - last_time_point g) (world g) = Some w" "owns (snakes w) w"
    "snakes w = snakes (world g)" "each_snake (\<lambda>_. tick_ready) w"
    using ticked_world [OF assms(1-3)] .
  let ?bad = "\<exists>a s. a \<in> set (changes w) \<and> heap w a = Some s \<and>
       (13176794 / 2097152 < fval (angle s) \<or> 13176794 / 2097152 < fval (wangle s) \<or>
        debug (srv_config g) \<and> \<not> drawable (sbb s))"
  show ?thesis
  proof (cases ?bad)
    case False
    have "outcome False (on_timer v False g) (\<lambda>g'. server_ok g' \<and> snakes (world g') = staying w \<and>
      who (sessions g') = who (sessions g) \<and> last_time_point g' = e_clock v (clock g) \<and>
      (\<exists>n \<ge> clock g. timer g' = Some (max 0 (timer_interval_ms - (e_clock v n - e_clock v (clock g))))))"
    proof (rule on_timer_outcome [OF assms(1-3) w(1)])
      fix a s assume a: "a \<in> set (changes w)" "heap w a = Some s"
      from changed_ready [OF w(2,4) a] have "tick_ready s" .
      with False a show "False \<or> angles_encode s \<and> (debug (srv_config g) \<longrightarrow> drawable (sbb s))"
        using ready_angles [of s] by (auto simp: not_less)
    qed
    from outcome_total [OF this] obtain g' n where g': "on_timer v False g = Some g'" "server_ok g'"
      "snakes (world g') = staying w" "who (sessions g') = who (sessions g)" "last_time_point g' = e_clock v (clock g)"
      "timer g' = Some (max 0 (timer_interval_ms - (e_clock v n - e_clock v (clock g))))" "clock g \<le> n" by blast
    have "e_clock v (clock g) \<le> e_clock v n" using assms(4) g'(7) by (rule monoD)
    with w(1) g'(1-6) show ?thesis unfolding staying_def w(3)
      by (intro exI [of _ w] conjI disjI1 exI [of _ g']) (simp_all add: timer_interval_ms_def)
  qed (use w(1) in blast)
qed

theorem on_timer_safe_witness:
  "\<exists>g'. on_timer calm_env False (one_player\<lparr>srv_config := default_IncomingConfig\<lparr>debug := True\<rparr>\<rparr>) = Some g' \<and> server_ok g' \<and>
     snakes (world g') = [(7, 1)] \<and> timer g' \<noteq> None"
proof -
  let ?g = "one_player\<lparr>srv_config := default_IncomingConfig\<lparr>debug := True\<rparr>\<rparr>"
  have ok: "server_ok ?g" using one_player_ok by (simp add: server_ok_def roster_def)
  have t: "on_time calm_env ?g" "last_time_point ?g = 0" "e_clock calm_env n = 0" for n
    by (simp_all add: on_time_def calm_env_def one_player_def new_GameServer_def)
  have m: "mono (e_clock calm_env)" by (simp add: calm_env_def mono_def)
  have w: "World_Tick m 0 (world ?g) = Some (world ?g)" for m
    by (simp add: World_Tick_def one_player_def new_GameServer_def empty_World_def frame_time_ms_def)
  moreover have "changes (world ?g) = []" by (simp add: one_player_def empty_World_def)
  moreover have "snakes (world ?g) = [(7, 1)]" "heap (world ?g) 1 = Some centre_snake" "\<not> leaving centre_snake"
    by (simp_all add: one_player_def empty_World_def leaving_def centre_snake_def sample_snake_def)
  ultimately show ?thesis using on_timer_safe [OF calm_env_ok ok t(1) m] by (auto simp: t(2,3))
qed

text \<open>
  C4: no message can harm the server. Whatever a client sends, of any length and with or without a
  session, \<open>on_message\<close> returns and keeps the invariant; no snake and no session comes or goes, the
  clock of the world and the pending timer stay as they are.
\<close>

theorem on_message_safe:
  assumes "env_ok v" "server_ok g"
  shows "\<exists>g'. on_message v h binary payload g = Some g' \<and> server_ok g' \<and> snakes (world g') = snakes (world g) \<and>
    who (sessions g') = who (sessions g) \<and> ticks (world g') = ticks (world g) \<and> frames (world g') = frames (world g) \<and>
    timer g' = timer g"
  using on_message_total [OF assms, of h binary payload] by (auto simp: kept_def)

theorem on_message_safe_witness:
  "\<exists>g'. on_message calm_env 4 True [115, 32, 8, 3, 65, 66] one_player = Some g' \<and> server_ok g' \<and> snakes (world g') = [(7, 1)]"
  using on_message_safe [OF calm_env_ok one_player_ok, of 4 True "[115, 32, 8, 3, 65, 66]"]
  by (auto simp: one_player_def empty_World_def)

lemma joined_alive:
  assumes "env_ok v" "server_ok g" "lastSnakeId (world g) < 65535"
    and w: "CreateSnake (e_libc v) (world g) = Some (a, w1)" "AddSnake (e_put v) a w1 = Some w2"
  shows "each_snake (\<lambda>_ _. True) w2"
proof -
  note k = server_okD [OF assms(2)]
  have m: "libm_ok (e_libc v)" "rand_ok (e_libc v)" "put_ok (e_put v)" using assms(1) by (simp_all add: env_ok_def)
  from player_total [OF k(3,7) assms(3) m(1,2) k(8) m(3)] w have "joined False (world g) w2" by auto
  then have "owns (snakes w2) w2" by (simp add: joined_def)
  from ownsD [OF this] show ?thesis unfolding each_snake_def by (metis prod.collapse)
qed

text \<open>
  C5: a player joins. As long as the id counter has not wrapped, \<open>on_open\<close> for a connection without a
  session returns a state in the invariant in which the connection owns a new snake under the next id
  and all other snakes are still there. The only other way is that a snake of the world, the new one
  among them, does not fit the add-snake packet: its angle is negative or two consecutive parts behind
  its head lie more than 63 pixels apart.
\<close>

theorem on_open_joins:
  assumes "env_ok v" "server_ok g" "lastSnakeId (world g) < 65535" "h \<notin> fst ` set (sessions g)"
  shows "(\<exists>g'. on_open v h g = Some g' \<and> server_ok g' \<and> connections g' (lastSnakeId (world g) + 1) = Some h \<and>
      mset (snakes (world g')) = add_mset (lastSnakeId (world g) + 1, next_addr (world g)) (mset (snakes (world g))) \<and> timer g' = timer g) \<or>
    (\<exists>a w1 w2 e s. CreateSnake (e_libc v) (world g) = Some (a, w1) \<and> AddSnake (e_put v) a w1 = Some w2 \<and>
      e \<in> set (snakes w2) \<and> heap w2 (snd e) = Some s \<and> (angle s < fl 0 \<or> spread (tl (parts s))))"
    (is "_ \<or> ?bad")
proof (cases ?bad)
  case False
  have all: "each_snake (\<lambda>_. presentable) w2"
    if w: "CreateSnake (e_libc v) (world g) = Some (a, w1)" "AddSnake (e_put v) a w1 = Some w2" for a w1 w2
    using joined_alive [OF assms(1-3) w] False w unfolding each_snake_def presentable_def by blast
  have "outcome False (on_open v h g) (\<lambda>g'. server_ok g' \<and> connections g' (lastSnakeId (world g) + 1) = Some h \<and>
    mset (snakes (world g')) = add_mset (lastSnakeId (world g) + 1, next_addr (world g)) (mset (snakes (world g))) \<and>
    last_time_point g' = last_time_point g \<and> timer g' = timer g)"
    by (rule on_open_outcome [OF assms]) (use all in blast)
  from outcome_total [OF this] show ?thesis by blast
qed blast

theorem on_open_joins_witness:
  "\<exists>g'. on_open calm_env 5 one_player = Some g' \<and> server_ok g' \<and> connections g' 8 = Some 5 \<and> size (mset (snakes (world g'))) = 2"
proof -
  have p: "lastSnakeId (world one_player) = 7" "snakes (world one_player) = [(7, 1)]" "fst ` set (sessions one_player) = {4}"
    by (simp_all add: one_player_def empty_World_def)
  have c: "snake_average_length (config (world one_player)) = 2" "snake_min_length (config (world one_player)) = 2"
    by (simp_all add: one_player_def two_bots_def)
  have f: "lastSnakeId (world one_player) < 65535" "5 \<notin> fst ` set (sessions one_player)" unfolding p by simp_all
  have "each_snake (\<lambda>_. presentable) (world one_player)"
    using calm_shown(3) by (simp add: each_snake_def p) (simp add: one_player_def)
  note intro = calm_presentable [OF one_player_ok f(1) c this]
  have "\<not> (angle s < fl 0 \<or> spread (tl (parts s)))"
    if "CreateSnake (e_libc calm_env) (world one_player) = Some (a, w1)" "AddSnake (e_put calm_env) a w1 = Some w2"
      "e \<in> set (snakes w2)" "heap w2 (snd e) = Some s" for a w1 w2 e s
    using each_snakeD [OF intro [OF that(1,2)] that(3)] that(4) by (auto simp: presentable_def)
  with on_open_joins [OF calm_env_ok one_player_ok f] obtain g' where
    g': "on_open calm_env 5 one_player = Some g'" "server_ok g'" "connections g' (lastSnakeId (world one_player) + 1) = Some 5"
      "mset (snakes (world g')) = add_mset (lastSnakeId (world one_player) + 1, next_addr (world one_player)) (mset (snakes (world one_player)))"
    by blast
  then show ?thesis by (intro exI [of _ g']) (simp add: p del: size_mset)
qed

text \<open>
  C6: a closed connection leaves nothing behind and takes nothing else along. \<open>on_close\<close> always returns,
  with the invariant; exactly the session of the handle is gone, and when it had one exactly the snake of
  the player is gone from the world and its id from the connections, all other snakes are as they were.
\<close>

theorem on_close_clean:
  assumes "server_ok g"
  shows "\<exists>g'. on_close h g = Some g' \<and> server_ok g' \<and> sessions g' = filter (\<lambda>e. fst e \<noteq> h) (sessions g) \<and>
    (case map_of (sessions g) h of
       None \<Rightarrow> g' = g
     | Some u \<Rightarrow> snakes (world g') = filter (\<lambda>e. fst e \<noteq> snake_id u) (snakes (world g)) \<and>
         (\<forall>e \<in> set (snakes (world g')). heap (world g') (snd e) = heap (world g) (snd e)) \<and>
         connections g' = (connections g)(snake_id u := None))"
  by (rule close_total [OF assms])

theorem on_close_clean_witness:
  "\<exists>g'. on_close 4 one_player = Some g' \<and> server_ok g' \<and> GetSnake 7 (world g') = None \<and> connections g' 7 = None"
  using on_close_clean [OF one_player_ok, of 4] by (auto simp: one_player_def mk_Session_def GetSnake_None)

text \<open>
  The byte 250 of a client asks for the direction \<open>f_2pi\<close>, which has no angle byte: the next rotation
  packet that shows it converts a float out of range.
\<close>

lemma wanted_angle_250:
  assumes "map_of (sessions g) h = Some u" "0 < snake_id u" "GetSnake (snake_id u) (world g) = Some a" "heap (world g) a = Some s"
  shows "\<exists>g' t. on_message v h True [250] g = Some g' \<and> heap (world g') a = Some t \<and> update t = update s OR change_wangle \<and>
    write_ang8 (wangle t) = None"
proof -
  have w: "write_ang8 (f_pi * fl 250 / lit 1250 10) = None" by code_simp
  show ?thesis using assms w
    by (simp add: on_message_def in_get_def Let_def DoSnake_def snake_at_def set_snake_def set_wangle_def)
qed

end
