(* ===== verification/IdWrap.thy ===== *)
theory IdWrap
  imports CalmServer
begin

text \<open>
  The 16-bit id counter of the world. When the next id is that of a living snake, \<open>insert\<close> keeps the old
  entry and the new object is destroyed, but \<open>CreateSnake\<close> has already registered its box in the
  sectors and nothing takes it out again.
\<close>

section \<open>Registering a box in a grid that knows its id already\<close>

text \<open>Whatever else the grid holds, the box is found in every sector of its vector.\<close>

definition marked :: "bb_ref \<Rightarrow> SnakeBoundBox \<times> SectorSeq \<Rightarrow> bool" where
  "marked r bs \<longleftrightarrow> grid_ok (snd bs) \<and> this_ref (fst bs) = r \<and>
     (\<forall>k \<in> set (bb_sectors (fst bs)). k < length (snd bs) \<and> r \<in> set (sec_snakes (snd bs ! k)))"

definition marks_on :: "bb_ref \<Rightarrow> SnakeBoundBox \<times> SectorSeq \<Rightarrow> SnakeBoundBox \<times> SectorSeq \<Rightarrow> bool" where
  "marks_on r bs bs' \<longleftrightarrow> marked r bs' \<and> (bb_sectors (fst bs) \<noteq> [] \<longrightarrow> bb_sectors (fst bs') \<noteq> [])"

lemma marked_insert:
  assumes "marked r (b, ss)" "k < length ss"
  shows "marked r (InsertSortedWithReg k (b, ss))" "bb_sectors (fst (InsertSortedWithReg k (b, ss))) \<noteq> []"
proof -
  let ?b = "fst (InsertSortedWithReg k (b, ss))" and ?ss = "snd (InsertSortedWithReg k (b, ss))"
  have set: "set (bb_sectors ?b) = insert k (set (bb_sectors b))"
    by (simp add: InsertSortedWithReg_def BoundBox_Insert_def box_vec.ins_set)
  then show "bb_sectors ?b \<noteq> []" by auto
  have "same_but (bb_id b) ss ?ss" using InsertSortedWithReg_step [OF assms(2), of b] by (simp add: box_step_def)
  from grid_ok_same_but [OF this] have "grid_ok ?ss" using assms(1) by (simp add: marked_def)
  moreover have "this_ref ?b = r"
    using assms(1) by (simp add: marked_def InsertSortedWithReg_def BoundBox_Insert_def this_ref_def)
  moreover have "j < length ?ss \<and> r \<in> set (sec_snakes (?ss ! j))" if "j \<in> set (bb_sectors ?b)" for j
    using that assms unfolding set marked_def by (auto simp: InsertSortedWithReg_def nth_list_update)
  ultimately show "marked r (InsertSortedWithReg k (b, ss))" by (simp add: marked_def)
qed

lemma marked_visit:
  assumes "marked r bs" "sbb_visit p ij bs = Some bs'"
  shows "marks_on r bs bs'"
proof -
  obtain i j b ss where e: "ij = (i, j)" "bs = (b, ss)" by (metis surj_pair)
  show ?thesis
  proof (cases "on_map i j")
    case False
    then show ?thesis using assms by (simp add: e sbb_visit_def marks_on_def)
  next
    case True
    with assms(2) obtain k where k: "get_sector ss (of_int i) (of_int j) = Some k"
      and bs': "bs' = (if \<not> IsPresent k b \<and> Intersect (sec_box (ss ! k)) p then InsertSortedWithReg k (b, ss) else (b, ss))"
      by (auto simp: e sbb_visit_def bind_eq_Some_conv)
    show ?thesis using marked_insert [OF assms(1) [unfolded e] get_sector_lt [OF k]] assms(1) by (simp add: e bs' marks_on_def)
  qed
qed

lemma marked_visits:
  assumes "marked r bs" "fold_opt (sbb_visit p) cs bs = Some bs'"
  shows "marks_on r bs bs'"
  by (rule fold_opt_inv [where P = "marks_on r bs", OF _ _ assms(2)])
    (use assms(1) marked_visit in \<open>auto simp: marks_on_def\<close>)

text \<open>The visit of a cell that meets the box leaves a registration.\<close>

lemma visit_registers:
  assumes "marked r (b, ss)" "on_map i j" "Intersect (sec_box (ss ! nat (j * 144 + i))) p"
    and "sbb_visit p (i, j) (b, ss) = Some bs'"
  shows "bb_sectors (fst bs') \<noteq> []"
proof (cases "bb_sectors b = []")
  case True
  have len: "length ss = 20736" using assms(1) by (simp add: marked_def)
  have "\<not> IsPresent (nat (j * 144 + i)) b" using IsPresent_iff [of b] True by simp
  then have "bs' = InsertSortedWithReg (nat (j * 144 + i)) (b, ss)"
    using assms(2-4) by (simp add: sbb_visit_def get_sector_on_map [OF assms(2) len])
  moreover have "nat (j * 144 + i) < length ss" using assms(2) by (simp add: len on_map_def count_along_edge) linarith
  ultimately show ?thesis using marked_insert(2) [OF assms(1)] by blast
next
  case False
  then show ?thesis using marked_visit [OF assms(1,4)] by (simp add: marks_on_def)
qed

lemma marked_update:
  assumes "marked r bs" "SnakeBoundBox_UpdateBoxNewSectors d nx ny ox oy bs = Some bs'"
  shows "marks_on r bs bs'"
proof -
  from assms(2) consider "bs' = bs" | p cs where "fold_opt (sbb_visit p) cs bs = Some bs'"
    unfolding SnakeBoundBox_UpdateBoxNewSectors_def bind_eq_Some_conv by (auto split: if_splits)
  then show ?thesis using assms(1) marked_visits [OF assms(1)] by cases (simp_all add: marks_on_def)
qed

lemma update_registers:
  assumes ok: "marked r (b, ss)" and upd: "SnakeBoundBox_UpdateBoxNewSectors d nx ny ox oy (b, ss) = Some bs'"
    and coord: "sector_coord nx = Some i" "sector_coord ny = Some j" "sector_coord ox \<noteq> Some i" "on_map i j"
    and int: "Intersect (sec_box (ss ! nat (j * 144 + i))) (mk_pos nx ny d)"
  shows "bb_sectors (fst bs') \<noteq> []"
proof -
  let ?f = "sbb_visit (mk_pos nx ny d)" and ?k = "nat (j * 144 + i)"
  from upd coord have fold: "fold_opt ?f (cells_around 1 i j) (b, ss) = Some bs'"
    by (auto simp: SnakeBoundBox_UpdateBoxNewSectors_def bind_eq_Some_conv split: if_splits)
  have "(i, j) \<in> set (cells_around 1 i j)" by (simp add: set_cells_around)
  then obtain xs ys where xs: "cells_around 1 i j = xs @ (i, j) # ys" by (meson split_list)
  from fold obtain c t u where c: "fold_opt ?f xs (b, ss) = Some (c, t)"
    and u: "?f (i, j) (c, t) = Some u" and e: "fold_opt ?f ys u = Some bs'"
    by (auto simp: xs fold_opt_append bind_eq_Some_conv)
  have ct: "marked r (c, t)" using marked_visits [OF ok c] by (simp add: marks_on_def)
  have "?k < 20736" using coord(4) by (simp add: on_map_def count_along_edge) linarith
  then have "sec_box (t ! ?k) = sec_box (ss ! ?k)" using ct ok by (simp add: marked_def grid_ok_def)
  with visit_registers [OF ct coord(4) _ u] int have "bb_sectors (fst u) \<noteq> []" by simp
  moreover have "marked r u" using marked_visit [OF ct u] by (simp add: marks_on_def)
  ultimately show ?thesis using marked_visits [OF _ e] by (simp add: marks_on_def)
qed

section \<open>Entering the grid\<close>

definition enrolled :: "bb_ref \<Rightarrow> BodySeq \<Rightarrow> Snake \<times> SectorSeq \<Rightarrow> bool" where
  "enrolled r ps st \<longleftrightarrow> marked r (sbb (fst st), snd st) \<and> parts (fst st) = ps"

lemma sbb_enrolled:
  assumes "enrolled r ps st" "sbb_new_sectors nx ny ox oy st = Some st'"
  shows "enrolled r ps st' \<and> (bb_sectors (sbb (fst st)) \<noteq> [] \<longrightarrow> bb_sectors (sbb (fst st')) \<noteq> [])"
proof -
  from assms(2) obtain b ss where
    b: "SnakeBoundBox_UpdateBoxNewSectors (fl (sector_size div 2)) nx ny ox oy (sbb (fst st), snd st) = Some (b, ss)"
      "st' = ((fst st)\<lparr>sbb := b\<rparr>, ss)"
    by (auto simp: sbb_new_sectors_def bind_eq_Some_conv)
  have "marked r (sbb (fst st), snd st)" using assms(1) by (simp add: enrolled_def)
  from marked_update [OF this b(1)] assms(1) show ?thesis by (simp add: b(2) enrolled_def marks_on_def)
qed

lemma vp_enrolled:
  assumes "enrolled r ps st" "vp_new_sectors nx ny ox oy st = Some st'"
  shows "enrolled r ps st' \<and> sbb (fst st') = sbb (fst st)"
  using assms by (auto simp: vp_new_sectors_def enrolled_def split: bind_splits if_splits)

lemma head_registers:
  assumes "enrolled r ps st" "between 300 42900 x" "between 300 42900 y"
    and "sbb_new_sectors x y (fl 0) (fl 0) st = Some st'"
  shows "bb_sectors (sbb (fst st')) \<noteq> []"
proof -
  have cell: "\<exists>i. sector_coord z = Some i \<and> 1 \<le> i \<and> i \<le> 143" if "between 300 42900 z" for z
  proof -
    have "exact 300 (fl 300)" by (rule exact_fl) simp
    from between_div [OF that this, of 1 143] have "between 1 143 (z / fl 300)" by simp
    from cast_range_between [OF this, of "- 32768" 32767] show ?thesis
      by (auto simp: sector_coord_def to_i16_def sector_size_def)
  qed
  from cell [OF assms(2)] cell [OF assms(3)] obtain i j where
    i: "sector_coord x = Some i" "1 \<le> i" "i \<le> 143" and j: "sector_coord y = Some j" "1 \<le> j" "j \<le> 143" by blast
  have m: "on_map i j" using i j by (simp add: on_map_def count_along_edge)
  have "sector_coord (fl 0) = Some 0" by code_simp
  then have 0: "sector_coord (fl 0) \<noteq> Some i" using i(2) by simp
  have ok: "marked r (sbb (fst st), snd st)" using assms(1) by (simp add: enrolled_def)
  have "Intersect (sec_box (snd st ! nat (j * 144 + i))) (mk_pos x y (fl 150))"
    using own_cell_intersects [OF _ i(1) j(1) m, of "snd st" "fl 150"] ok assms(2,3) fl_value [of 150]
    by (simp add: between_def marked_def)
  with assms(4) update_registers [OF ok _ i(1) j(1) 0 m] show ?thesis
    by (auto simp: sbb_new_sectors_def sector_size_def bind_eq_Some_conv)
qed

text \<open>\<open>InitBoxNewSectors\<close> returns on every grid, and registers the box somewhere.\<close>

lemma InitBox_marks:
  assumes "grid_ok ss" "body_ok (parts s)" "parts s \<noteq> []" "bb_sectors (sbb s) = []" "on_board s"
  shows "\<exists>s' ss'. InitBoxNewSectors (s, ss) = Some (s', ss') \<and> marked (this_ref (sbb s)) (sbb s', ss') \<and>
    bb_sectors (sbb s') \<noteq> []"
proof -
  let ?r = "this_ref (sbb s)" and ?x = "get_head_x s" and ?y = "get_head_y s"
  let ?P = "\<lambda>st. enrolled ?r (parts s) st \<and> bb_sectors (sbb (fst st)) \<noteq> []"
  have h: "coord_ok ?x" "coord_ok ?y"
    using assms(2,3) body_ok_nth [of "parts s" 0] by (simp_all add: get_head_x_def get_head_y_def)
  have z: "coord_ok (fl 0)" using coord_ok_word [of 0] on_unit_fl [of 0] between_weaken [OF between_fl [of 0], of 0 43200]
    by (simp add: coord_ok_def)
  have grid: "grid_ok (snd st)" if "enrolled ?r (parts s) st" for st using that by (simp add: enrolled_def marked_def)
  have start: "enrolled ?r (parts s) (s, ss)" using assms(1,4) by (simp add: enrolled_def marked_def)
  obtain st1 where r1: "sbb_new_sectors ?x ?y (fl 0) (fl 0) (s, ss) = Some st1"
    using sbb_new_sectors_total [of "(s, ss)" ?x ?y "fl 0" "fl 0"] assms(1) h z by auto
  have 1: "?P st1" using sbb_enrolled [OF start r1] head_registers [OF start _ _ r1] assms(5) by (simp add: on_board_def)
  obtain st2 where r2: "vp_new_sectors ?x ?y (fl 0) (fl 0) st1 = Some st2"
    using vp_new_sectors_total [OF grid, of st1 ?x ?y "fl 0" "fl 0"] 1 h z by auto
  have 2: "?P st2" using vp_enrolled [OF _ r2] 1 by auto
  have "\<exists>st3. fold_opt (\<lambda>i st. let p = parts (fst st) ! i in
         sbb_new_sectors (body_x p) (body_y p) (fl 0) (fl 0) st)
       (stepped 3 tail_step (length (parts (fst st2)))) st2 = Some st3 \<and> ?P st3"
  proof (rule fold_opt_total [where P = ?P, OF _ 2])
    fix i st assume i: "i \<in> set (stepped 3 tail_step (length (parts (fst st2))))" and p: "?P st"
    let ?p = "parts s ! i"
    have "i < length (parts s)" using i 2 by (simp add: stepped_def enrolled_def)
    from body_ok_nth [OF assms(2) this] z grid [of st] p obtain st' where
      r: "sbb_new_sectors (body_x ?p) (body_y ?p) (fl 0) (fl 0) st = Some st'"
      using sbb_new_sectors_total [of st "body_x ?p" "body_y ?p" "fl 0" "fl 0"] by auto
    moreover have "?P st'" using sbb_enrolled [OF _ r] p by blast
    moreover have "parts (fst st) = parts s" using p by (simp add: enrolled_def)
    ultimately show "\<exists>s'. (let p = parts (fst st) ! i in sbb_new_sectors (body_x p) (body_y p) (fl 0) (fl 0) st) = Some s' \<and> ?P s'"
      by (simp add: Let_def)
  qed
  then obtain st3 where 3: "fold_opt (\<lambda>i st. let p = parts (fst st) ! i in
         sbb_new_sectors (body_x p) (body_y p) (fl 0) (fl 0) st)
       (stepped 3 tail_step (length (parts (fst st2)))) st2 = Some st3" "?P st3" by blast
  have "InitBoxNewSectors (s, ss) = Some st3" using r1 r2 3(1) by (simp add: InitBoxNewSectors_def Let_def)
  with 3(2) show ?thesis by (cases st3) (simp add: enrolled_def)
qed

section \<open>The property\<close>

text \<open>
  C33: the id counter reaches the id of a living snake (after 65536 ids it wraps). From a world in its
  invariant \<open>CreateSnake\<close> and \<open>AddSnake\<close> still return, but the map is unchanged, and once the local pointer
  ends the new object is destroyed while its box is still registered in a sector of the grid: every later
  walk over the boxes of that sector follows the pointer to the destroyed snake, which is undefined, and
  the invariant of the world is lost.
\<close>

theorem wrapped_id_dangles:
  assumes "world_ok w" "GetSnake (lastSnakeId w + 1) w \<noteq> None"
    and "libm_ok m" "rand_ok m" "config_ok (config w)"
  shows "\<exists>a w1 w2 k. CreateSnake m w = Some (a, w1) \<and> AddSnake put a w1 = Some w2 \<and> snakes w2 = snakes w \<and>
    lastSnakeId w2 = lastSnakeId w + 1 \<and> heap (release a w2) a = None \<and>
    k < length (sectors (release a w2)) \<and> a \<in> ref_snake ` set (sec_snakes (sectors (release a w2) ! k)) \<and>
    (\<forall>j. unregister j k (release a w2) = None) \<and> \<not> world_ok (release a w2)"
proof -
  let ?i = "lastSnakeId w + 1" and ?a = "next_addr w"
  have o: "owns (snakes w) w" using assms(1) by (simp add: world_ok_def)
  have new: "?a \<notin> snd ` set (snakes w)" using o by (force simp: owns_def live_def)
  have g: "grid_ok (sectors w)" using o by (simp add: owns_def grid_refs_def)
  from CreateSnake_enters [OF assms(3-5)] obtain s0 r where u: "unborn ?i s0" and cr: "CreateSnake m w = do {
      (s, ss) \<leftarrow> InitBoxNewSectors (born ?a s0, sectors w);
      Some (?a, w\<lparr>lastSnakeId := ?i, next_addr := ?a + 1, heap := (heap w)(?a \<mapsto> s), sectors := ss, rng := r\<rparr>) }"
    by blast
  have p: "parts s0 \<noteq> []" "body_ok (parts s0)" "on_board (born ?a s0)" "sn_id s0 = ?i"
    using u by (auto simp: unborn_def on_board_def get_head_x_def get_head_y_def)
  have ref: "this_ref (sbb (born ?a s0)) = \<lparr>ref_snake = ?a, ref_id = ?i\<rparr>" by (simp add: this_ref_def p(4))
  from InitBox_marks [OF g, of "born ?a s0"] p obtain s ss where
    e: "InitBoxNewSectors (born ?a s0, sectors w) = Some (s, ss)" and
    mk: "marked \<lparr>ref_snake = ?a, ref_id = ?i\<rparr> (sbb s, ss)" "bb_sectors (sbb s) \<noteq> []" by (auto simp: ref)
  have "sn_id s = ?i" using rest_eqD(1) [OF conjunct1 [OF InitBox_rest [OF e]]] p(4) by simp
  moreover define w1 where
    "w1 = w\<lparr>lastSnakeId := ?i, next_addr := ?a + 1, heap := (heap w)(?a \<mapsto> s), sectors := ss, rng := r\<rparr>"
  ultimately have add: "AddSnake put ?a w1 = Some w1" using assms(2) by (auto simp: AddSnake_def GetSnake_def)
  let ?v = "release ?a w1"
  have v: "heap ?v ?a = None" "sectors ?v = ss" "snakes ?v = snakes w" using new by (simp_all add: release_def w1_def)
  define k where "k = hd (bb_sectors (sbb s))"
  have "k \<in> set (bb_sectors (sbb s))" using mk(2) by (simp add: k_def)
  then have k: "k < length ss" "\<lparr>ref_snake = ?a, ref_id = ?i\<rparr> \<in> set (sec_snakes (ss ! k))"
    using mk(1) by (auto simp: marked_def)
  then have reg: "?a \<in> ref_snake ` set (sec_snakes (ss ! k))" by force
  have "unregister j k ?v = None" for j using k(2) v(1) by (auto simp: unregister_def v(2) intro!: bexI)
  moreover have "\<not> world_ok ?v"
  proof
    assume "world_ok ?v"
    then have "owns (snakes ?v) ?v" by (simp add: world_ok_def)
    from ref_alive [OF this, of k] k obtain s' where "heap ?v ?a = Some s'" by (force simp: v(2))
    with v(1) show False by simp
  qed
  moreover have "CreateSnake m w = Some (?a, w1)" by (simp add: cr e w1_def)
  ultimately show ?thesis using add v k(1) reg by (intro exI [of _ ?a] exI [of _ w1] exI [of _ k]) (simp add: w1_def)
qed

theorem wrapped_id_dangles_witness:
  "\<exists>a w1 w2 k. CreateSnake calm_libc ((world one_player)\<lparr>lastSnakeId := 6\<rparr>) = Some (a, w1) \<and>
     AddSnake (#) a w1 = Some w2 \<and> heap (release a w2) a = None \<and> unregister 7 k (release a w2) = None"
proof -
  let ?w = "(world one_player)\<lparr>lastSnakeId := 6\<rparr>"
  have w: "world_ok (world one_player)" using server_okD [OF one_player_ok] by (simp add: world_ok_def)
  then have "world_ok ?w" by (simp add: world_ok_def)
  moreover have "GetSnake (lastSnakeId ?w + 1) ?w \<noteq> None" by (simp add: GetSnake_def one_player_def)
  moreover have "config_ok (config ?w)" using two_bots_ok(1) by (simp add: one_player_def)
  ultimately show ?thesis using wrapped_id_dangles [of ?w calm_libc "(#)"] calm_libc_ok two_bots_ok(3) by blast
qed

end
