(* ===== verification/SweepLoop.thy ===== *)
theory SweepLoop
  imports Sectors "HOL-Library.While_Combinator"
begin

text \<open>
  The loop of \<open>SnakeBoundBox::UpdateBoxOldSectors\<close> (\<open>src/src/game/sector.cc\<close>) as it is written: a
  \<open>while\<close> on \<open>i != sec_end\<close> whose end moves when a sector is removed. \<open>sbb_sweep\<close> compares with
  \<open><\<close> and ends by its measure; here the loop itself is shown to end, with the same result.
\<close>

text \<open>The state: whether the loop was not left by \<open>break\<close>, the place of \<open>i\<close>, the box and the grid.\<close>

type_synonym sweep_state = "bool \<times> nat \<times> SnakeBoundBox \<times> SectorSeq"

fun sweep_cond :: "sweep_state \<Rightarrow> bool" where
  "sweep_cond (go, i, b, ss) = (go \<and> i \<noteq> length (bb_sectors b))"

fun sweep_body :: "sweep_state \<Rightarrow> sweep_state" where
  "sweep_body (go, i, b, ss) =
    (let s = bb_sectors b ! i
     in if \<not> Intersect (sec_box (ss ! s)) b then
          let ss' = ss[s := Sector_RemoveSnake (bb_id b) (ss ! s)]; (more, b') = RemoveUnsorted i b
          in (more, i, b', ss')
        else (go, i + 1, b, ss))"

definition sweep_loop :: "SnakeBoundBox \<times> SectorSeq \<Rightarrow> sweep_state option" where
  "sweep_loop bs = while_option sweep_cond sweep_body (True, 0, bs)"

lemma removed_place: "i < length (bb_sectors b) \<Longrightarrow> fst (RemoveUnsorted i b) \<Longrightarrow> i \<le> length (bb_sectors (snd (RemoveUnsorted i b)))"
  by (auto simp: RemoveUnsorted_def split: if_splits)

lemma sweep_from:
  "i \<le> length (bb_sectors b) \<Longrightarrow>
   \<exists>go j. while_option sweep_cond sweep_body (True, i, b, ss) = Some (go, j, sbb_sweep i (b, ss))"
proof (induction i "(b, ss)" arbitrary: b ss rule: sbb_sweep.induct)
  case (1 i b ss)
  let ?s = "bb_sectors b ! i"
  show ?case
  proof (cases "i < length (bb_sectors b)")
    case False
    then have "\<not> sweep_cond (True, i, b, ss)" using "1.prems" by simp
    then show ?thesis using False by (subst while_option_unfold) (auto simp: sbb_sweep.simps)
  next
    case True
    then have unfold: "while_option sweep_cond sweep_body (True, i, b, ss) =
      while_option sweep_cond sweep_body (sweep_body (True, i, b, ss))" by (subst while_option_unfold) simp
    show ?thesis
    proof (cases "Intersect (sec_box (ss ! ?s)) b")
      case touches: True
      with True have "sbb_sweep i (b, ss) = sbb_sweep (i + 1) (b, ss)" by (subst sbb_sweep.simps) (simp add: Let_def)
      moreover have "\<exists>go j. while_option sweep_cond sweep_body (True, i + 1, b, ss) = Some (go, j, sbb_sweep (i + 1) (b, ss))"
        using "1.hyps"(2) [OF True refl] touches True by simp
      ultimately show ?thesis using touches unfold by simp
    next
      case out: False
      let ?ss = "ss[?s := Sector_RemoveSnake (bb_id b) (ss ! ?s)]" and ?b = "snd (RemoveUnsorted i b)"
      have body: "sweep_body (True, i, b, ss) = (fst (RemoveUnsorted i b), i, ?b, ?ss)"
        using out by (simp add: Let_def split_beta)
      show ?thesis
      proof (cases "fst (RemoveUnsorted i b)")
        case more: True
        with True out have "sbb_sweep i (b, ss) = sbb_sweep i (?b, ?ss)" by (subst sbb_sweep.simps) (simp add: Let_def)
        moreover have "\<exists>go j. while_option sweep_cond sweep_body (True, i, ?b, ?ss) = Some (go, j, sbb_sweep i (?b, ?ss))"
          using "1.hyps"(1) [OF True refl out refl more] removed_place [OF True more] by simp
        ultimately show ?thesis using more unfold body by simp
      next
        case False
        with True out have "sbb_sweep i (b, ss) = (?b, ?ss)" by (subst sbb_sweep.simps) (simp add: Let_def)
        moreover have "while_option sweep_cond sweep_body (False, i, ?b, ?ss) = Some (False, i, ?b, ?ss)"
          by (subst while_option_unfold) simp
        ultimately show ?thesis using False unfold body by (intro exI [of _ False] exI [of _ i]) simp
      qed
    qed
  qed
qed

text \<open>
  C34: the loop over the sectors of a box ends for every box and every grid. Its condition is
  \<open>i != sec_end\<close> and not \<open><\<close>, and its end moves while it runs; it never steps over the end, and what
  it leaves is what the rest of the development computes with.
\<close>

theorem sweep_terminates: "\<exists>go i. sweep_loop bs = Some (go, i, sbb_sweep 0 bs)"
  using sweep_from [of 0 "fst bs" "snd bs"] by (simp add: sweep_loop_def)

end
