(* ===== verification/PreyPackets.thy ===== *)
theory PreyPackets
  imports Packets
begin

text \<open>
  \<open>src/src/packet/p_prey.h\<close>: the packets about prey. They are declared but never sent, and have no
  \<open>operator<<\<close> and no \<open>get_size\<close> of their own: what a stream would write and \<open>send\<close> would reserve is that of
  \<open>PacketBase\<close>. A constructor sets the base only; the members keep what their memory held, the argument \<open>raw\<close>.
\<close>

section \<open>Packet types (p_base.h)\<close>

definition packet_t_mov_prey :: u8 where "packet_t_mov_prey = of_char (CHR ''j'')"
definition packet_t_add_prey :: u8 where "packet_t_add_prey = of_char (CHR ''y'')"
definition packet_t_rem_prey :: u8 where "packet_t_rem_prey = of_char (CHR ''y'')"

section \<open>Structs (p_prey.h)\<close>

type_synonym packet_add_prey = PacketBase

definition mk_packet_add_prey :: packet_add_prey where
  "mk_packet_add_prey = mk_PacketBase packet_t_add_prey 0"

record packet_update_prey = PacketBase +
  upd_preyId :: u16
  upd_x :: u16
  upd_y :: u16
  upd_direction :: u8
  upd_angle :: u32
  upd_wangle :: u32
  upd_speed :: flt

definition mk_packet_update_prey :: "packet_update_prey \<Rightarrow> packet_update_prey" where
  "mk_packet_update_prey raw = raw\<lparr>client_time := 0, packet_type := packet_t_mov_prey\<rparr>"

record packet_remove_prey = PacketBase +
  rem_preyId :: u16
  rem_eaterId :: u16

definition mk_packet_remove_prey :: "packet_remove_prey \<Rightarrow> packet_remove_prey" where
  "mk_packet_remove_prey raw = raw\<lparr>client_time := 0, packet_type := packet_t_rem_prey\<rparr>"

section \<open>What sending one would do\<close>

interpretation wire_add_prey: outgoing "\<lambda>p :: packet_add_prey. Some (out_PacketBase p)" size_PacketBase
  by (rule outgoing_intro) (simp add: len_le_def size_PacketBase_def size_facts)

interpretation wire_update_prey: outgoing "\<lambda>p :: packet_update_prey. Some (out_PacketBase p)" size_PacketBase
  by (rule outgoing_intro) (simp add: len_le_def size_PacketBase_def size_facts)

interpretation wire_remove_prey: outgoing "\<lambda>p :: packet_remove_prey. Some (out_PacketBase p)" size_PacketBase
  by (rule outgoing_intro) (simp add: len_le_def size_PacketBase_def size_facts)

text \<open>
  No member reaches the wire, so that a client could not tell an added prey from a removed one, nor one
  prey from another; the layouts in the comments start at 5 bytes.
\<close>

lemma prey_packets_bare:
  "out_PacketBase mk_packet_add_prey = [0, 0, 121]" "out_PacketBase (mk_packet_remove_prey raw) = [0, 0, 121]"
  "out_PacketBase (mk_packet_update_prey raw') = [0, 0, 106]"
  by (simp_all add: out_PacketBase_def mk_packet_add_prey_def mk_packet_remove_prey_def mk_packet_update_prey_def mk_PacketBase_def
      packet_t_add_prey_def packet_t_rem_prey_def packet_t_mov_prey_def write_uint16_def write_uint8_def)

end
