(* ===== verification/Spec2Isabelle.thy ===== *)
theory Spec2Isabelle
  imports ServerProps IdWrap SweepLoop CommandLine PreyPackets
begin

text \<open>
  A verification development for the slither.io server under \<open>src/src\<close>.

  \<^bold>\<open>The program.\<close> One thread serves a world of snakes to browsers. \<open>server/main.cc\<close> parses the command
  line and calls \<open>GameServer::Run\<close>, which fills the world with food and bots, sets a timer and enters
  the event loop of websocketpp. Every 10 ms the timer ticks the world (\<open>game/world.cc\<close>), which ticks
  each snake (\<open>game/snake.cc\<close>) over a grid of 144 by 144 sectors (\<open>game/sector.cc\<close>), looks for collisions,
  and collects in \<open>changes\<close> the snakes that have news; the server turns the news into packets
  (\<open>packet/*\<close>) and sends them to all sessions through a stream buffer of fixed size
  (\<open>server/streambuf_array.h\<close>). Connections are opened and closed and bring messages that steer a snake.

  \<^bold>\<open>The theories\<close>, in the order of their imports.

  \<^item> \<open>IEEE_Single\<close>: the C++ types \<open>float\<close> and \<open>double\<close> as IEEE 754 numbers (finite ones as sign, mantissa
    and exponent, with infinities and NaN), their operations with round to nearest even, and the rounding
    facts the proofs use (\<open>rnd_of\<close>, \<open>between\<close>).
  \<^item> \<open>Prelude\<close>: the machine integers, undefined behaviour as \<open>None\<close>, folds that may fail (\<open>fold_opt\<close>),
    binary search, the locale \<open>sorted_vector\<close>.
  \<^item> \<open>GameMath\<close>: \<open>game/config.h\<close>, \<open>food.h\<close>, \<open>math.h\<close>, \<open>math.cc\<close>.
  \<^item> \<open>Sectors\<close>: \<open>game/sector.h\<close>, \<open>sector.cc\<close>. A \<open>Sector*\<close> is its index, a pointer to a box the address and
    id of its snake. The locale \<open>swap_sweep\<close> is the removal loop that boxes and view ports share.
    \<open>SweepLoop\<close> has that loop once more as the \<open>while\<close> of the source, and that it ends.
  \<^item> \<open>Snakes\<close>, \<open>SnakeTick\<close>: \<open>game/snake.h\<close>, \<open>snake.cc\<close>; \<open>Tick\<close> is cut into the stages of the source.
    \<open>SnakeFood\<close> accounts for mass and food, \<open>TickInvariant\<close> and \<open>TickSafety\<close> show what a tick keeps and that
    it never runs into undefined behaviour, \<open>Collision\<close> what the test of intersection decides, \<open>DyingFood\<close>
    that the food of a dead snake always finds its sectors.
  \<^item> \<open>Worlds\<close>: \<open>game/world.h\<close>, \<open>world.cc\<close>, with an explicit heap of snakes and the sharing of its pointers
    (\<open>shared_ptr\<close> in the map, raw pointers in \<open>changes\<close> and in the sectors). \<open>WorldInvariant\<close>, \<open>WorldTick\<close>,
    \<open>WorldCreate\<close>, \<open>WorldInit\<close> and \<open>WorldProps\<close>: the invariant \<open>owns\<close>/\<open>world_ok\<close> and that each operation
    returns and keeps it. \<open>IdWrap\<close>: what becomes of it when the 16-bit id counter meets a living snake.
  \<^item> \<open>PacketFormat\<close>, \<open>Packets\<close>: the writers of \<open>packet/p_format.h\<close> and every packet that is written, as its
    record, its constructor, its bytes (\<open>operator<<\<close>) and its \<open>get_size\<close>. \<open>PacketProps\<close>: readers after the
    documented layouts and what a client gets back. \<open>PreyPackets\<close>: \<open>packet/p_prey.h\<close>, which is declared but
    never sent.
  \<^item> \<open>StreambufArray\<close>: \<open>server/streambuf_array.h\<close> and the sending of \<open>server/server.h\<close>. The locale
    \<open>output_sequence\<close> is a stream buffer as a queue of bytes, the locale \<open>outgoing\<close> a kind of packet that fits
    its size; \<open>Packets\<close> interprets it for all 23 kinds.
  \<^item> \<open>GameServer\<close>: \<open>server/game.h\<close>, \<open>game.cc\<close>, every handler whole. \<open>ServerRun\<close>: \<open>GameServer::Run\<close> with its exit
    code, what it prints of the world, and the preparation of sockets and of TLS. \<open>CommandLine\<close>:
    \<open>server/config.cc\<close> and \<open>main.cc\<close>.
  \<^item> \<open>ServerSends\<close>: what a send may change and when it returns (locale \<open>timed_packet\<close>, an extension of
    \<open>outgoing\<close>, interpreted for the 13 kinds of packets the server sends to sessions).
    \<open>ServerUpdates\<close>: one snake through the broadcast. \<open>DebugDraw\<close>: the drawings of \<open>--debug\<close>. \<open>Introduce\<close>: which
    snakes fit the add-snake packet. \<open>ServerInvariant\<close>: the loop over the changed snakes,
    the removal of the dead, the timer. \<open>ServerEvents\<close>: messages, closing, the start, opening.
    \<open>CalmServer\<close>: a concrete server the properties are applied to. \<open>ServerProps\<close>: the events as a step
    relation, its reachable states, and the properties of the handlers.

  \<^bold>\<open>How the code is modelled.\<close> A struct is a record with the names of its members, a member function is
  a function on the record, \<open>uint8_t\<close>, \<open>uint16_t\<close> and \<open>uint32_t\<close> are words that wrap, \<open>long\<close> is \<open>int\<close>,
  \<open>float\<close> is computed bit by bit. Undefined behaviour (a conversion of a float out of range, an index
  outside a vector, a division by zero, an \<open>int\<close> that overflows, a dereferenced \<open>end()\<close> or dangling pointer) is
  \<open>None\<close>, so that \<open>f x = Some y\<close> says that \<open>f\<close> returns and is defined. A vector is a list; an iterator is an
  index, or the key of a map. \<open>std::unordered_map\<close> is the list of its entries in its order of iteration.

  Two limits of this reading. Only reading outside a vector counts, not forming or comparing an iterator
  there: \<open>UpdateEatenFood\<close> forms \<open>begin() - 1\<close> and \<open>Snake::Intersect\<close> steps past \<open>end()\<close>, both undefined by the
  letter of the standard and both without effect on vectors, and the model lets them pass (\<open>eat_left\<close>,
  \<open>Snake_Intersect\<close>). And a sector's pointer to a box carries the id of its snake, so that a snake's own
  sweep (\<open>sbb_sweep\<close>) need not look behind it; in the invariant every such pointer leads to a live snake
  with that id (\<open>ref_alive\<close>), and where the code walks sectors with the world at hand (\<open>unregister\<close>,
  \<open>check_boxes\<close>) the model does look behind it.

  \<^bold>\<open>What is outside\<close> is a parameter: \<open>libc\<close> (\<open>cosf\<close>, \<open>sinf\<close>, \<open>atan2f\<close>, \<open>powf\<close>, \<open>rand\<close>, \<open>std::sort\<close> on food), the place where an
  \<open>unordered_map\<close> inserts, and in \<open>env\<close> the steady clock, whether a connection is still known,
  \<open>asio::streambuf\<close> and uninitialised bytes; the parser of Boost in \<open>CommandLine\<close>. What the properties
  assume of them: \<open>libm_ok\<close> (results of \<open>cosf\<close> and \<open>sinf\<close> in \<open>[-1, 1]\<close>, of \<open>atan2f\<close> in \<open>[-4, 4]\<close>),
  \<open>rand_ok\<close> (values from 0 to \<open>RAND_MAX = 2^31 - 1\<close>), \<open>sort_ok\<close> (the same pieces in the order of their \<open>x\<close>, equal
  ones in any order), \<open>put_ok\<close> (an insertion adds exactly the entry),
  \<open>asio_ok\<close> (a \<open>streambuf\<close> returns what fits it), and for the delay of the timer that the clock is steady
  (\<open>mono\<close>). \<open>calm_libc\<close> and \<open>calm_env\<close> are instances.

  \<^bold>\<open>Bounds.\<close> \<open>config_ok\<close>: \<open>--avg_len\<close> from 1 to 300, \<open>--min_len\<close> up to 300, so that the body of a new
  snake stays on the map. The timer is at most 242 ms late (\<open>on_time\<close>): with the rest of the last frame,
  below 8 ms, that is the tick of 250 ms for which \<open>TickSafety\<close> bounds the steps of a snake. Players join
  while \<open>lastSnakeId\<close> is below 65535, the last id of its 16 bits; beyond it the invariant can be lost: \<open>wrapped_id_dangles\<close>
  shows that a new snake whose id is that of a living one is destroyed while a sector keeps a pointer to its
  box. Loops are recursions that end by their structure or a measure; none has fuel.

  \<^bold>\<open>What is shown.\<close> The server: its invariant in every state reachable within the bounds just
  named (\<open>reachable_ok\<close>), and what each
  handler does on top (\<open>on_timer_safe\<close>, \<open>on_message_safe\<close>, \<open>on_open_joins\<close>, \<open>on_close_clean\<close>). In a reachable
  state sessions, connections and the snakes of players match one to one (\<open>roster\<close>), so that the lookups
  whose results the code follows without a test, \<open>GetSnake\<close> in \<open>DoSnake\<close> and \<open>LoadSessionIter\<close> in
  \<open>BroadcastUpdates\<close>, never give \<open>end()\<close>. The world: it starts (\<open>World_Init_defined\<close>), ticks without
  undefined behaviour (\<open>World_Tick_safe\<close>), decides collisions as meant (\<open>CheckSnakeBounds_decides\<close>), takes snakes
  in and out (\<open>spawn_keeps\<close>, \<open>RemoveSnake_clean\<close>). One snake: its tick keeps its shape and registrations
  (\<open>Tick_invariant\<close>) and is defined (\<open>Tick_defined\<close>); food and mass are accounted for exactly
  (\<open>eating_conserves\<close>, \<open>decrease_mass\<close>, \<open>increase_mass\<close>); which pairs of parts the collision test sees
  (\<open>collision_pairs\<close>, \<open>collision_blind_spot\<close>). Sectors, view ports and food are kept sorted and registered
  (\<open>new_sectors_own_cell\<close>, \<open>old_sectors_swept\<close>, \<open>viewport_delta\<close>, \<open>sector_food_sorted\<close>), and the sweep over them
  ends (\<open>sweep_terminates\<close>). Packets fit their buffers (\<open>packets_sent_whole\<close>), the stream buffer is a queue
  (\<open>streambuf_is_a_queue\<close>), and clients read back what was written where the bytes suffice. The segment and circle
  tests are exact on integer coordinates up to 1000 and 1400, less than the map;
  \<open>fast_sqrt\<close> has a stated relative error; the scale, the width and the radius of a snake stay in
  their ranges (\<open>consts_range\<close>).

  In the invariant a handler can then fail in three ways only, which \<open>on_timer_safe\<close> and \<open>on_open_joins\<close> name.
  An angle above the last float below \<open>f_2pi\<close> has no byte (\<open>angle_byte_range\<close>); a client asks for \<open>f_2pi\<close> with
  the byte 250 (\<open>wanted_angle_250\<close>). With \<open>--debug\<close> the box of a very long snake does not fit 16 bits
  (\<open>long_box_undrawable\<close>). A snake with a negative angle or with two parts behind its head more than 63 pixels
  apart may not fit the add-snake packet (\<open>presentable_encodes\<close>); from 65 pixels on it never does
  (\<open>add_snake_undefined\<close>). Otherwise the timer removes exactly the bots
  that died in its tick.

  \<^bold>\<open>Not modelled.\<close> The text of log lines and how iostream renders numbers; Asio and TLS beyond what the code
  sets and whether that succeeds; \<open>WSPPServerConfig\<close>, which selects types of websocketpp; threads and the event
  loop of websocketpp, of which only the order of the handlers' calls is kept (they run one at a time);
  \<open>Point\<close>, \<open>Circle\<close> and \<open>Rect\<close> of \<open>math.h\<close>, which nothing uses; the bundled libraries under \<open>third_party\<close>.
\<close>

end
